(* ===== verification/Prelude.thy ===== *)
theory Prelude
  imports Main "HOL-Library.Word" "HOL-Library.Monad_Syntax"
begin

text \<open>
  What every component of the development shares: the machine types of the C code, the
  per-thread environment that \<open>errno\<close> and the error log live in, byte memory with
  bounds-checked access, and the little-endian representation of machine words.

  Conventions.  The code is modelled as the Makefiles build it: assertions, validators
  and the poisoning of freed bytes are active (\<open>NDEBUG\<close> is not defined) on a 64-bit
  little-endian Linux.  A C function with effects becomes a HOL function that takes the
  state and returns \<open>(result, state) option\<close>: \<open>None\<close> means that the call does not
  come back in a defined way (a failed \<open>assert\<close>, an access outside an object, undefined
  behaviour).  The code's own error returns are ordinary results inside \<open>Some\<close>.
\<close>

unbundle bit_operations_syntax

section \<open>Machine types\<close>

type_synonym u8 = "8 word"
type_synonym u32 = "32 word"
type_synonym u64 = "64 word"

text \<open>Error numbers, with their values on Linux.\<close>

abbreviation (input) EPERM :: int where "EPERM \<equiv> 1"
abbreviation (input) ENOENT :: int where "ENOENT \<equiv> 2"
abbreviation (input) EBADF :: int where "EBADF \<equiv> 9"
abbreviation (input) EAGAIN :: int where "EAGAIN \<equiv> 11"
abbreviation (input) ENOMEM :: int where "ENOMEM \<equiv> 12"
abbreviation (input) ENOTDIR :: int where "ENOTDIR \<equiv> 20"
abbreviation (input) EINTR :: int where "EINTR \<equiv> 4"
abbreviation (input) EINVAL :: int where "EINVAL \<equiv> 22"
abbreviation (input) ENOSPC :: int where "ENOSPC \<equiv> 28"
abbreviation (input) EPIPE :: int where "EPIPE \<equiv> 32"
abbreviation (input) ENAMETOOLONG :: int where "ENAMETOOLONG \<equiv> 36"
abbreviation (input) ENOSYS :: int where "ENOSYS \<equiv> 38"
abbreviation (input) ENOTEMPTY :: int where "ENOTEMPTY \<equiv> 39"
abbreviation (input) EMSGSIZE :: int where "EMSGSIZE \<equiv> 90"

section \<open>Shared collections of facts\<close>

named_theorems inv_simps \<open>definitions of the components' invariants\<close>
named_theorems mem_simps \<open>byte memory: access and update\<close>

section \<open>Byte memory\<close>

text \<open>
  An object in memory (a malloc'ed buffer, a caller's buffer) is the list of its bytes.
  \<open>memcpy\<close> and \<open>memset\<close> stay inside the object or are undefined.
\<close>

definition mem_read :: "u8 list \<Rightarrow> nat \<Rightarrow> nat \<Rightarrow> u8 list option" where
  "mem_read m i n = (if i + n \<le> length m then Some (take n (drop i m)) else None)"

definition mem_write :: "u8 list \<Rightarrow> nat \<Rightarrow> u8 list \<Rightarrow> u8 list option" where
  "mem_write m i bs =
     (if i + length bs \<le> length m then Some (take i m @ bs @ drop (i + length bs) m) else None)"

lemma mem_read_eq [mem_simps]: "i + n \<le> length m \<Longrightarrow> mem_read m i n = Some (take n (drop i m))"
  by (simp add: mem_read_def)

lemma mem_write_eq [mem_simps]:
  "i + length bs \<le> length m \<Longrightarrow>
     mem_write m i bs = Some (take i m @ bs @ drop (i + length bs) m)"
  by (simp add: mem_write_def)

lemma mem_write_length: "mem_write m i bs = Some m' \<Longrightarrow> length m' = length m"
  by (auto simp: mem_write_def split: if_splits)

lemma mem_read_write_same:
  "mem_write m i bs = Some m' \<Longrightarrow> mem_read m' i (length bs) = Some bs"
  by (auto simp: mem_write_def mem_read_def split: if_splits)

section \<open>Little-endian words\<close>

text \<open>
  \<open>le_bytes n w\<close> is the object representation of a word in \<open>n\<close> bytes, least
  significant first; \<open>of_le\<close> reads it back.
\<close>

primrec le_bytes :: "nat \<Rightarrow> 'a::len word \<Rightarrow> u8 list" where
  "le_bytes 0 w = []"
| "le_bytes (Suc n) w = ucast w # le_bytes n (drop_bit 8 w)"

primrec of_le :: "u8 list \<Rightarrow> 'a::len word" where
  "of_le [] = 0"
| "of_le (b # bs) = ucast b OR push_bit 8 (of_le bs)"

lemma length_le_bytes [simp]: "length (le_bytes n w) = n"
  by (induction n arbitrary: w) auto

lemma of_le_le_bytes: "of_le (le_bytes n w) = take_bit (8 * n) (w :: 'a::len word)"
proof (induction n arbitrary: w)
  case 0
  then show ?case by simp
next
  case (Suc n)
  show ?case
    by (rule bit_word_eqI)
       (auto simp: Suc bit_simps not_less)
qed

lemma of_le_le_bytes_id [simp]:
  "LENGTH('a) \<le> 8 * n \<Longrightarrow> of_le (le_bytes n w) = (w :: 'a::len word)"
  by (simp add: of_le_le_bytes take_bit_word_eq_self)

lemma le_bytes_inject:
  fixes v w :: "'a::len word"
  assumes "LENGTH('a) \<le> 8 * n"
  shows "le_bytes n v = le_bytes n w \<longleftrightarrow> v = w"
  using assms by (metis of_le_le_bytes_id)

lemma le_bytes_eq_Nil [simp]: "le_bytes n w = [] \<longleftrightarrow> n = 0"
  by (cases n) simp_all

lemma unat_of_nat_u64: "n < 2 ^ 64 \<Longrightarrow> unat (of_nat n :: u64) = n"
  by (simp add: unat_of_nat)

lemma of_nat_u64_pos:
  assumes "0 < n" "n < 2 ^ 64"
  shows "unat (of_nat n :: u64) = n" "(of_nat n :: u64) \<noteq> 0"
  using assms unat_of_nat_u64 [of n] by auto

lemma unat_plus_small: "unat (a :: u64) + unat b < 2 ^ 64 \<Longrightarrow> unat (a + b) = unat a + unat b"
  by (simp add: unat_word_ariths)

lemma unat_minus_le: "(b :: u64) \<le> a \<Longrightarrow> unat (a - b) = unat a - unat b"
  by (simp add: unat_sub)

lemma sint_small:
  assumes "unat (v :: u32) < 2 ^ 31"
  shows "sint v = int (unat v)"
proof -
  have u: "uint v = int (unat v)" by (simp only: uint_nat)
  have "sint v = signed_take_bit 31 (uint v)" by (simp add: sint_uint)
  also have "\<dots> = uint v"
  proof (rule signed_take_bit_int_eq_self)
    show "- (2 ^ 31) \<le> uint v" by (rule order_trans [OF _ uint_ge_0]) simp
    have "int (unat v) < int (2 ^ 31)" using assms by (simp only: of_nat_less_iff)
    then show "uint v < 2 ^ 31" by (simp only: u) simp
  qed
  finally show ?thesis by (simp only: u)
qed

section \<open>Lists\<close>

lemma take_drop_split: "i \<le> length xs \<Longrightarrow> j \<le> i \<Longrightarrow> take j xs @ take (i - j) (drop j xs) = take i xs"
  by (metis le_add_diff_inverse take_add)

section \<open>Sequences of calls\<close>

text \<open>Calls that give a result and a new state, one after the other.\<close>

fun run_calls :: "('s \<Rightarrow> 'c \<Rightarrow> ('r \<times> 's) option) \<Rightarrow> 's \<Rightarrow> 'c list \<Rightarrow> ('r list \<times> 's) option" where
  "run_calls step s [] = Some ([], s)"
| "run_calls step s (c # cs) =
     (case step s c of
        None \<Rightarrow> None
      | Some (r, s1) \<Rightarrow> (case run_calls step s1 cs of None \<Rightarrow> None | Some (rs, s2) \<Rightarrow> Some (r # rs, s2)))"

text \<open>A concrete implementation of an abstract one: every abstract call that is defined has a
  concrete one with the same result, between related states.\<close>

locale simulation =
  fixes conc :: "'s \<Rightarrow> 'c \<Rightarrow> ('r \<times> 's) option" and abst :: "'a \<Rightarrow> 'c \<Rightarrow> ('r \<times> 'a) option"
    and rel :: "'s \<Rightarrow> 'a \<Rightarrow> bool"
  assumes step: "rel s a \<Longrightarrow> abst a c = Some (r, a') \<Longrightarrow> \<exists>s'. conc s c = Some (r, s') \<and> rel s' a'"
begin

lemma run:
  assumes "rel s a" "run_calls abst a cs = Some (rs, a')"
  shows "\<exists>s'. run_calls conc s cs = Some (rs, s') \<and> rel s' a'"
  using assms
proof (induction cs arbitrary: s a rs)
  case (Cons c cs)
  then obtain r a1 rs' where a: "abst a c = Some (r, a1)" "run_calls abst a1 cs = Some (rs', a')" "rs = r # rs'"
    by (auto split: option.splits)
  obtain s1 where s1: "conc s c = Some (r, s1)" "rel s1 a1" using step [OF Cons.prems(1) a(1)] by blast
  obtain s' where "run_calls conc s1 cs = Some (rs', s')" "rel s' a'" using Cons.IH [OF s1(2) a(2)] by blast
  with s1(1) a(3) show ?case by simp
qed simp

end

end
