(* ===== verification/Errors.thy ===== *)
theory Errors
  imports Prelude
begin

text \<open>
  Error reporting (\<open>a2_message_queue/errors.c\<close>, \<open>errors.h\<close>): the per-thread
  environment and the macros \<open>report_error\<close> and \<open>report_info\<close>.
\<close>

section \<open>The environment of a thread\<close>

text \<open>One line that \<open>__report_error\<close> prints: is it an info line, the error number, the
  formatted message, the code location.\<close>

record report =
  rep_info :: bool
  rep_errno :: int
  rep_msg :: string
  rep_location :: string

text \<open>
  What a thread carries through every call: its id (\<open>pthread_self\<close>), its \<open>errno\<close>, the
  lines it has printed to \<open>stderr\<close>, and the value that a call of \<open>stdio\<close> happens to
  leave in \<open>errno\<close> (unspecified by the C standard, hence any value).
\<close>

record thread_env =
  self :: u64
  errno :: int
  stderr_log :: "report list"
  stdio_errno :: int

definition fresh_env :: "u64 \<Rightarrow> thread_env" where
  "fresh_env t = \<lparr>self = t, errno = 0, stderr_log = [], stdio_errno = 0\<rparr>"

section \<open>report\_error and report\_info\<close>

text \<open>\<open>vsnprintf\<close> into \<open>msg[BUFFER_SIZE]\<close> keeps the first \<open>BUFFER_SIZE - 1\<close> characters.\<close>

definition BUFFER_SIZE :: nat where
  "BUFFER_SIZE = 1024"

text \<open>
  \<open>__report_error\<close>: saves \<open>errno\<close>, formats and prints (both may change \<open>errno\<close>), and
  restores it.  The formatted message is given as a string.
\<close>

definition report_error_impl :: "string \<Rightarrow> bool \<Rightarrow> string \<Rightarrow> thread_env \<Rightarrow> thread_env" where
  "report_error_impl location info formatted env =
     (let e = errno env;
          msg = take (BUFFER_SIZE - 1) formatted;
          printed = env\<lparr>errno := stdio_errno env,
                       stderr_log := stderr_log env @
                         [\<lparr>rep_info = info, rep_errno = e, rep_msg = msg, rep_location = location\<rparr>]\<rparr>
      in printed\<lparr>errno := e\<rparr>)"

text \<open>\<open>report_error\<close> is active in the debug build; \<open>report_info\<close> needs \<open>DEBUG_VERBOSE\<close>
  as well, which the Makefile leaves undefined, so it expands to nothing.\<close>

definition report_error :: "string \<Rightarrow> string \<Rightarrow> thread_env \<Rightarrow> thread_env" where
  "report_error location msg env = report_error_impl location False msg env"

definition report_info :: "string \<Rightarrow> thread_env \<Rightarrow> thread_env" where
  "report_info msg env = env"

lemma report_error_errno [simp]: "errno (report_error l m env) = errno env"
  by (simp add: report_error_def report_error_impl_def Let_def)

lemma report_error_self [simp]: "self (report_error l m env) = self env"
  by (simp add: report_error_def report_error_impl_def Let_def)

lemma report_error_log:
  "stderr_log (report_error l m env) =
     stderr_log env @ [\<lparr>rep_info = False, rep_errno = errno env,
                        rep_msg = take 1023 m, rep_location = l\<rparr>]"
  by (simp add: report_error_def report_error_impl_def Let_def BUFFER_SIZE_def)

lemma report_error_log_grows: "length (stderr_log (report_error l m env)) = Suc (length (stderr_log env))"
  by (simp add: report_error_log)

end
