(* ===== verification/Sync.thy ===== *)
theory Sync
  imports Errors
begin

text \<open>
  Mutexes and condition variables (\<open>a2_message_queue/sync.c\<close>): wrappers that call the
  pthread function and report a non-zero result.

  The pthread functions are modelled by what POSIX says of default mutexes and condition
  variables.  \<open>None\<close> is a call that does not return in this state: locking a mutex that is
  held blocks, unlocking one that the caller does not hold and destroying one in use are
  undefined.
\<close>

section \<open>pthread mutexes and condition variables\<close>

record mutex_t =
  mutex_owner :: "u64 option"

text \<open>A condition variable: the threads blocked on it, and those that have been woken and
  have not yet got the mutex back.\<close>

record cond_t =
  waiting :: "u64 list"
  woken :: "u64 list"

definition pthread_mutex_init :: "int \<times> mutex_t" where
  "pthread_mutex_init = (0, \<lparr>mutex_owner = None\<rparr>)"

definition pthread_mutex_destroy :: "mutex_t \<Rightarrow> int option" where
  "pthread_mutex_destroy m = (if mutex_owner m = None then Some 0 else None)"

definition pthread_mutex_lock :: "u64 \<Rightarrow> mutex_t \<Rightarrow> (int \<times> mutex_t) option" where
  "pthread_mutex_lock t m = (if mutex_owner m = None then Some (0, m\<lparr>mutex_owner := Some t\<rparr>) else None)"

definition pthread_mutex_unlock :: "u64 \<Rightarrow> mutex_t \<Rightarrow> (int \<times> mutex_t) option" where
  "pthread_mutex_unlock t m = (if mutex_owner m = Some t then Some (0, m\<lparr>mutex_owner := None\<rparr>) else None)"

definition pthread_cond_init :: "int \<times> cond_t" where
  "pthread_cond_init = (0, \<lparr>waiting = [], woken = []\<rparr>)"

definition pthread_cond_destroy :: "cond_t \<Rightarrow> int option" where
  "pthread_cond_destroy c = (if waiting c = [] then Some 0 else None)"

text \<open>
  Entering \<open>pthread_cond_wait\<close>: the mutex, which the caller holds, is released and the
  caller is blocked in one atomic step.  Leaving it (\<open>cond_wakeup\<close>): a woken thread gets
  the mutex back.  A blocked thread is woken by a signal (\<open>pick\<close> chooses which one), by a
  broadcast, or spuriously.
\<close>

definition pthread_cond_block :: "u64 \<Rightarrow> cond_t \<Rightarrow> mutex_t \<Rightarrow> (cond_t \<times> mutex_t) option" where
  "pthread_cond_block t c m = do {
     (ret, m') \<leftarrow> pthread_mutex_unlock t m;
     Some (c\<lparr>waiting := waiting c @ [t]\<rparr>, m')
   }"

definition cond_wakeup :: "u64 \<Rightarrow> cond_t \<Rightarrow> mutex_t \<Rightarrow> (cond_t \<times> mutex_t) option" where
  "cond_wakeup t c m = do {
     (if t \<in> set (woken c) then Some () else None);
     (ret, m') \<leftarrow> pthread_mutex_lock t m;
     Some (c\<lparr>woken := remove1 t (woken c)\<rparr>, m')
   }"

definition cond_spurious :: "u64 \<Rightarrow> cond_t \<Rightarrow> cond_t option" where
  "cond_spurious t c =
     (if t \<in> set (waiting c)
      then Some (c\<lparr>waiting := remove1 t (waiting c), woken := woken c @ [t]\<rparr>) else None)"

definition pthread_cond_signal :: "nat \<Rightarrow> cond_t \<Rightarrow> int \<times> cond_t" where
  "pthread_cond_signal pick c =
     (0, if waiting c = [] then c
         else let t = waiting c ! (pick mod length (waiting c))
              in c\<lparr>waiting := remove1 t (waiting c), woken := woken c @ [t]\<rparr>)"

definition pthread_cond_broadcast :: "cond_t \<Rightarrow> int \<times> cond_t" where
  "pthread_cond_broadcast c = (0, c\<lparr>waiting := [], woken := woken c @ waiting c\<rparr>)"

section \<open>The wrappers of sync.c\<close>

text \<open>What every wrapper does with the result of the pthread call.\<close>

definition check_ret :: "string \<Rightarrow> string \<Rightarrow> int \<Rightarrow> thread_env \<Rightarrow> thread_env" where
  "check_ret location func ret env =
     (if ret \<noteq> 0 then report_error location func (env\<lparr>errno := ret\<rparr>) else env)"

definition mutex_init :: "thread_env \<Rightarrow> thread_env \<times> mutex_t" where
  "mutex_init env =
     (let (ret, m) = pthread_mutex_init in (check_ret ''sync.c:41'' ''pthread_mutex_init'' ret env, m))"

definition mutex_destroy :: "thread_env \<Rightarrow> mutex_t \<Rightarrow> thread_env option" where
  "mutex_destroy env m = do {
     ret \<leftarrow> pthread_mutex_destroy m;
     Some (check_ret ''sync.c:50'' ''pthread_mutex_destroy'' ret env)
   }"

definition mutex_lock :: "thread_env \<Rightarrow> mutex_t \<Rightarrow> (thread_env \<times> mutex_t) option" where
  "mutex_lock env m = do {
     (ret, m') \<leftarrow> pthread_mutex_lock (self env) m;
     Some (check_ret ''sync.c:59'' ''pthread_mutex_lock'' ret env, m')
   }"

definition mutex_unlock :: "thread_env \<Rightarrow> mutex_t \<Rightarrow> (thread_env \<times> mutex_t) option" where
  "mutex_unlock env m = do {
     (ret, m') \<leftarrow> pthread_mutex_unlock (self env) m;
     Some (check_ret ''sync.c:68'' ''pthread_mutex_unlock'' ret env, m')
   }"

definition cond_init :: "thread_env \<Rightarrow> thread_env \<times> cond_t" where
  "cond_init env =
     (let (ret, c) = pthread_cond_init in (check_ret ''sync.c:78'' ''pthread_cond_init'' ret env, c))"

definition cond_destroy :: "thread_env \<Rightarrow> cond_t \<Rightarrow> thread_env option" where
  "cond_destroy env c = do {
     ret \<leftarrow> pthread_cond_destroy c;
     Some (check_ret ''sync.c:87'' ''pthread_cond_destroy'' ret env)
   }"

text \<open>The part of \<open>cond_wait\<close> before the thread is blocked; it goes on with \<open>cond_wakeup\<close>.\<close>

definition cond_wait :: "thread_env \<Rightarrow> cond_t \<Rightarrow> mutex_t \<Rightarrow> (cond_t \<times> mutex_t) option" where
  "cond_wait env c m = pthread_cond_block (self env) c m"

definition cond_signal :: "nat \<Rightarrow> thread_env \<Rightarrow> cond_t \<Rightarrow> thread_env \<times> cond_t" where
  "cond_signal pick env c =
     (let (ret, c') = pthread_cond_signal pick c
      in (check_ret ''sync.c:123'' ''pthread_cond_signal'' ret env, c'))"

definition cond_broadcast :: "thread_env \<Rightarrow> cond_t \<Rightarrow> thread_env \<times> cond_t" where
  "cond_broadcast env c =
     (let (ret, c') = pthread_cond_broadcast c
      in (check_ret ''sync.c:132'' ''pthread_cond_broadcast'' ret env, c'))"

section \<open>Using them correctly\<close>

named_theorems sync_simps \<open>mutex and condition variable operations\<close>

lemma check_ret_0 [simp]: "check_ret l f 0 env = env"
  by (simp add: check_ret_def)

lemma mutex_lock_free [sync_simps]:
  "mutex_owner m = None \<Longrightarrow> mutex_lock env m = Some (env, m\<lparr>mutex_owner := Some (self env)\<rparr>)"
  by (simp add: mutex_lock_def pthread_mutex_lock_def)

lemma mutex_unlock_own [sync_simps]:
  "mutex_owner m = Some (self env) \<Longrightarrow> mutex_unlock env m = Some (env, m\<lparr>mutex_owner := None\<rparr>)"
  by (simp add: mutex_unlock_def pthread_mutex_unlock_def)

lemma mutex_unlock_foreign:
  "mutex_owner m \<noteq> Some (self env) \<Longrightarrow> mutex_unlock env m = None"
  by (simp add: mutex_unlock_def pthread_mutex_unlock_def)

lemma cond_wait_own [sync_simps]:
  "mutex_owner m = Some (self env) \<Longrightarrow>
     cond_wait env c m = Some (c\<lparr>waiting := waiting c @ [self env]\<rparr>, m\<lparr>mutex_owner := None\<rparr>)"
  by (simp add: cond_wait_def pthread_cond_block_def pthread_mutex_unlock_def)

lemma cond_signal_env [simp]: "fst (cond_signal pick env c) = env"
  by (simp add: cond_signal_def pthread_cond_signal_def)

lemma cond_signal_eq [sync_simps]:
  "cond_signal pick env c = (env, snd (pthread_cond_signal pick c))"
  by (simp add: cond_signal_def pthread_cond_signal_def)

lemma cond_broadcast_eq [sync_simps]:
  "cond_broadcast env c = (env, c\<lparr>waiting := [], woken := woken c @ waiting c\<rparr>)"
  by (simp add: cond_broadcast_def pthread_cond_broadcast_def)

text \<open>A signal moves at most one thread from the blocked to the woken ones.\<close>

lemma signal_moves_one:
  "waiting c \<noteq> [] \<Longrightarrow>
     length (woken (snd (pthread_cond_signal pick c))) = Suc (length (woken c)) \<and>
     Suc (length (waiting (snd (pthread_cond_signal pick c)))) = length (waiting c)"
  by (auto simp: pthread_cond_signal_def Let_def length_remove1)

lemma signal_none: "waiting c = [] \<Longrightarrow> snd (pthread_cond_signal pick c) = c"
  by (simp add: pthread_cond_signal_def)

lemma signal_threads:
  "set (waiting (snd (pthread_cond_signal pick c))) \<union> set (woken (snd (pthread_cond_signal pick c)))
     = set (waiting c) \<union> set (woken c)"
proof (cases "waiting c = []")
  case False
  let ?t = "waiting c ! (pick mod length (waiting c))"
  have "?t \<in> set (waiting c)" using False by simp
  then have "set (remove1 ?t (waiting c)) \<union> {?t} = set (waiting c)"
    using set_remove1_subset [of ?t "waiting c"] in_set_remove1 [of _ ?t "waiting c"] by blast
  with False show ?thesis by (auto simp: pthread_cond_signal_def Let_def)
qed (simp add: signal_none)

end
