(* ===== verification/Mutex_Validator.thy ===== *)
theory Mutex_Validator
  imports Errors
begin

text \<open>
  The mutex validator (\<open>a2_message_queue/mutex_validator.c\<close>): a run-time monitor that
  reports overlapping accesses of a data structure by several threads.  The delay of
  \<open>validator_enter\<close> only spends time and is left out here; it is a call of \<open>nap\<close>, which the
  theory \<open>Nap\<close> models.
\<close>

section \<open>The monitor\<close>

record mutex_validator =
  vname :: string
  owner :: u64

text \<open>GCC's atomic \<open>__sync_val_compare_and_swap\<close>: the old value, and the value stored.\<close>

definition compare_and_swap :: "u64 \<Rightarrow> u64 \<Rightarrow> u64 \<Rightarrow> u64 \<times> u64" where
  "compare_and_swap cur old new = (cur, if cur = old then new else cur)"

definition validator_init :: "mutex_validator \<Rightarrow> string \<Rightarrow> mutex_validator" where
  "validator_init v name = v\<lparr>vname := name, owner := 0\<rparr>"

definition validator_destroy :: "mutex_validator \<Rightarrow> unit option" where
  "validator_destroy v = (if owner v = 0 then Some () else None)"

definition validator_enter :: "thread_env \<Rightarrow> mutex_validator \<Rightarrow> thread_env \<times> mutex_validator" where
  "validator_enter env v =
     (let (old, new) = compare_and_swap (owner v) 0 (self env);
          env' = (if old \<noteq> 0
                  then report_error ''mutex_validator.c:58''
                         (''validator_enter: failed to enter validator '' @ vname v)
                         (env\<lparr>errno := EPERM\<rparr>)
                  else env)
      in (env', v\<lparr>owner := new\<rparr>))"

definition validator_exit :: "thread_env \<Rightarrow> mutex_validator \<Rightarrow> thread_env \<times> mutex_validator" where
  "validator_exit env v =
     (let (old, new) = compare_and_swap (owner v) (self env) 0;
          env' = (if old \<noteq> self env
                  then report_error ''mutex_validator.c:76''
                         (''validator_exit: failed to exit validator '' @ vname v)
                         (env\<lparr>errno := EPERM\<rparr>)
                  else env)
      in (env', v\<lparr>owner := new\<rparr>))"

section \<open>Entering and leaving alone\<close>

lemma validator_enter_free [simp]:
  "owner v = 0 \<Longrightarrow> validator_enter env v = (env, v\<lparr>owner := self env\<rparr>)"
  by (simp add: validator_enter_def compare_and_swap_def)

lemma validator_exit_own [simp]:
  "owner v = self env \<Longrightarrow> validator_exit env v = (env, v\<lparr>owner := 0\<rparr>)"
  by (simp add: validator_exit_def compare_and_swap_def)

lemma validator_enter_occupied:
  assumes "owner v \<noteq> 0"
  shows "snd (validator_enter env v) = v"
    and "length (stderr_log (fst (validator_enter env v))) = Suc (length (stderr_log env))"
    and "errno (fst (validator_enter env v)) = EPERM"
  using assms
  by (simp_all add: validator_enter_def compare_and_swap_def report_error_log_grows)

lemma validator_exit_foreign:
  assumes "owner v \<noteq> self env"
  shows "snd (validator_exit env v) = v"
    and "length (stderr_log (fst (validator_exit env v))) = Suc (length (stderr_log env))"
    and "errno (fst (validator_exit env v)) = EPERM"
  using assms
  by (simp_all add: validator_exit_def compare_and_swap_def report_error_log_grows)

section \<open>The monitor over an interleaving of threads\<close>

text \<open>
  The accesses of a data structure, as the interleaving of the threads orders them.  Each
  event is one call; \<open>validator_reports\<close> is the number of violations that all the calls
  print together.
\<close>

datatype access = Enter u64 | Exit u64

fun access_thread :: "access \<Rightarrow> u64" where
  "access_thread (Enter t) = t"
| "access_thread (Exit t) = t"

fun validator_call :: "access \<Rightarrow> mutex_validator \<Rightarrow> thread_env \<times> mutex_validator" where
  "validator_call (Enter t) v = validator_enter (fresh_env t) v"
| "validator_call (Exit t) v = validator_exit (fresh_env t) v"

fun validator_reports :: "mutex_validator \<Rightarrow> access list \<Rightarrow> nat" where
  "validator_reports v [] = 0"
| "validator_reports v (a # as) =
     (let (env, v') = validator_call a v
      in length (stderr_log env) + validator_reports v' as)"

text \<open>The specification: at most one thread is inside at a time, and a thread leaves only
  what it has entered.  The first argument is the thread inside, if any.\<close>

fun exclusive :: "u64 option \<Rightarrow> access list \<Rightarrow> bool" where
  "exclusive _ [] = True"
| "exclusive None (Enter t # as) = exclusive (Some t) as"
| "exclusive (Some t) (Exit t' # as) = (t = t' \<and> exclusive None as)"
| "exclusive (Some t) (Enter t' # as) = False"
| "exclusive None (Exit t # as) = False"

lemma fresh_env_simps [simp]:
  "self (fresh_env t) = t" "stderr_log (fresh_env t) = []" "errno (fresh_env t) = 0"
  by (simp_all add: fresh_env_def)

lemma validator_reports_exclusive:
  assumes "\<forall>a \<in> set as. access_thread a \<noteq> 0" and "t \<noteq> Some 0"
    and "owner v = (case t of None \<Rightarrow> 0 | Some x \<Rightarrow> x)"
  shows "validator_reports v as = 0 \<longleftrightarrow> exclusive t as"
  using assms
proof (induction t as arbitrary: v rule: exclusive.induct)
  case (2 t as)
  then show ?case by simp
next
  case (3 t t' as)
  show ?case
  proof (cases "t = t'")
    case True
    with 3 show ?thesis by simp
  next
    case False
    with 3 have "owner v \<noteq> self (fresh_env t')" by simp
    from validator_exit_foreign(2) [OF this] False show ?thesis
      by (simp add: case_prod_beta)
  qed
next
  case (4 x t as)
  then have "owner v \<noteq> 0" by simp
  from validator_enter_occupied(2) [OF this, of "fresh_env t"] show ?case
    by (simp add: case_prod_beta)
next
  case (5 t as)
  then have "owner v \<noteq> self (fresh_env t)" by simp
  from validator_exit_foreign(2) [OF this] show ?case
    by (simp add: case_prod_beta)
qed simp

section \<open>Properties\<close>

text \<open>
  C12. The validator is an exact monitor of mutual exclusion: over any interleaving of
  enters and exits by threads with non-zero ids, starting unoccupied, it reports nothing
  if and only if at most one thread was inside at a time and every thread left what it had
  entered.
\<close>

theorem validator_exact:
  assumes "\<forall>a \<in> set as. access_thread a \<noteq> 0"
  shows "validator_reports (validator_init v name) as = 0 \<longleftrightarrow> exclusive None as"
  using assms by (intro validator_reports_exclusive) (simp_all add: validator_init_def)

theorem validator_exact_witness:
  "validator_reports (validator_init \<lparr>vname = [], owner = 3\<rparr> ''list_head'')
       [Enter 5, Exit 5, Enter 6, Exit 6] = 0 \<and>
   validator_reports (validator_init \<lparr>vname = [], owner = 3\<rparr> ''list_head'')
       [Enter 5, Enter 6, Exit 6, Exit 5] \<noteq> 0"
  using validator_exact [of "[Enter 5, Exit 5, Enter 6, Exit 6]" "\<lparr>vname = [], owner = 3\<rparr>" "''list_head''"]
    validator_exact [of "[Enter 5, Enter 6, Exit 6, Exit 5]" "\<lparr>vname = [], owner = 3\<rparr>" "''list_head''"]
  by simp

end
