(* ===== verification/Byte_Fifo.thy ===== *)
theory Byte_Fifo
  imports Prelude
begin

text \<open>
  The contract between the ring buffer and the message queue: a bounded FIFO of bytes.
  The locale \<open>byte_fifo\<close> states what every operation promises; what the message queue
  needs from it (whole messages, each a size followed by a body) is proved from the
  contract alone.  \<open>Ring_Buffer\<close> interprets the locale on the code's ring buffer.
\<close>

section \<open>Messages as bytes\<close>

text \<open>A message is stored as the object representation of its \<open>size_t\<close> length followed by
  its body.\<close>

definition message_bytes :: "u8 list \<Rightarrow> u8 list" where
  "message_bytes m = le_bytes 8 (of_nat (length m) :: u64) @ m"

definition messages_bytes :: "u8 list list \<Rightarrow> u8 list" where
  "messages_bytes ms = concat (map message_bytes ms)"

definition valid_message :: "u8 list \<Rightarrow> bool" where
  "valid_message m \<longleftrightarrow> m \<noteq> [] \<and> length m < 2 ^ 63"

lemma length_message_bytes [simp]: "length (message_bytes m) = 8 + length m"
  by (simp add: message_bytes_def)

lemma messages_bytes_simps [simp]:
  "messages_bytes [] = []"
  "messages_bytes (m # ms) = message_bytes m @ messages_bytes ms"
  "messages_bytes (xs @ ys) = messages_bytes xs @ messages_bytes ys"
  by (simp_all add: messages_bytes_def)

lemma unat_of_nat_len: "valid_message m \<Longrightarrow> unat (of_nat (length m) :: u64) = length m"
  by (simp add: valid_message_def unat_of_nat_u64)

lemma of_nat_len_neq_0: "valid_message m \<Longrightarrow> (of_nat (length m) :: u64) \<noteq> 0"
  using unat_of_nat_len [of m] by (auto simp: valid_message_def)

text \<open>The stored bytes determine the messages.\<close>

lemma message_bytes_inject:
  assumes "message_bytes m @ xs = message_bytes m' @ ys" "valid_message m" "valid_message m'"
  shows "m = m' \<and> xs = ys"
proof -
  from assms(1) have len: "le_bytes 8 (of_nat (length m) :: u64) = le_bytes 8 (of_nat (length m') :: u64)"
    and rest: "m @ xs = m' @ ys"
    by (simp_all add: message_bytes_def)
  from len have "(of_nat (length m) :: u64) = of_nat (length m')"
    by (simp add: le_bytes_inject)
  then have "length m = length m'"
    using assms(2,3) by (metis unat_of_nat_len)
  with rest show ?thesis by simp
qed

lemma messages_bytes_inject:
  assumes "messages_bytes ms = messages_bytes ms'"
    and "\<forall>m \<in> set ms. valid_message m" "\<forall>m \<in> set ms'. valid_message m"
  shows "ms = ms'"
  using assms
proof (induction ms arbitrary: ms')
  case Nil
  then show ?case by (cases ms') (auto simp: message_bytes_def simp del: le_bytes.simps)
next
  case (Cons m ms)
  then obtain m' ms'' where ms': "ms' = m' # ms''"
    by (cases ms') (auto simp: message_bytes_def)
  with Cons.prems have "m = m' \<and> messages_bytes ms = messages_bytes ms''"
    by (intro message_bytes_inject) auto
  with Cons ms' show ?case by auto
qed

section \<open>The interface\<close>

text \<open>
  \<open>holds r xs\<close>: the buffer \<open>r\<close> is in a consistent state and holds the bytes \<open>xs\<close>;
  \<open>usable e\<close>: a thread with the environment \<open>e\<close> may call.  None of the operations
  changes the environment when it is used this way.
\<close>

locale byte_fifo =
  fixes holds :: "'r \<Rightarrow> u8 list \<Rightarrow> bool"
    and capacity :: "'r \<Rightarrow> nat"
    and usable :: "'e \<Rightarrow> bool"
    and used :: "'e \<Rightarrow> 'r \<Rightarrow> u64 \<times> 'e \<times> 'r"
    and free :: "'e \<Rightarrow> 'r \<Rightarrow> u64 \<times> 'e \<times> 'r"
    and put :: "'e \<Rightarrow> 'r \<Rightarrow> u8 list \<Rightarrow> u64 \<Rightarrow> (bool \<times> 'e \<times> 'r) option"
    and get :: "'e \<Rightarrow> 'r \<Rightarrow> u8 list \<Rightarrow> u64 \<Rightarrow> (bool \<times> u8 list \<times> 'e \<times> 'r) option"
    and peek :: "'e \<Rightarrow> 'r \<Rightarrow> u8 list \<Rightarrow> u64 \<Rightarrow> (bool \<times> u8 list \<times> 'e \<times> 'r) option"
  assumes fits: "holds r xs \<Longrightarrow> length xs \<le> capacity r"
    and small: "holds r xs \<Longrightarrow> capacity r < 2 ^ 63"
    and used: "usable e \<Longrightarrow> holds r xs \<Longrightarrow> used e r = (of_nat (length xs), e, r)"
    and free: "usable e \<Longrightarrow> holds r xs \<Longrightarrow> free e r = (of_nat (capacity r - length xs), e, r)"
    and put_ok: "usable e \<Longrightarrow> holds r xs \<Longrightarrow> n \<noteq> 0 \<Longrightarrow> unat n \<le> length src \<Longrightarrow>
          length xs + unat n \<le> capacity r \<Longrightarrow>
          \<exists>r'. put e r src n = Some (True, e, r') \<and> holds r' (xs @ take (unat n) src) \<and>
               capacity r' = capacity r"
    and put_full: "usable e \<Longrightarrow> holds r xs \<Longrightarrow> capacity r < length xs + unat n \<Longrightarrow>
          put e r src n = Some (False, e, r)"
    and get_ok: "usable e \<Longrightarrow> holds r xs \<Longrightarrow> n \<noteq> 0 \<Longrightarrow> unat n \<le> length out \<Longrightarrow>
          unat n \<le> length xs \<Longrightarrow>
          \<exists>r'. get e r out n = Some (True, take (unat n) xs @ drop (unat n) out, e, r') \<and>
               holds r' (drop (unat n) xs) \<and> capacity r' = capacity r"
    and get_short: "usable e \<Longrightarrow> holds r xs \<Longrightarrow> length xs < unat n \<Longrightarrow>
          get e r out n = Some (False, out, e, r)"
    and peek_ok: "usable e \<Longrightarrow> holds r xs \<Longrightarrow> n \<noteq> 0 \<Longrightarrow> unat n \<le> length out \<Longrightarrow>
          unat n \<le> length xs \<Longrightarrow>
          peek e r out n = Some (True, take (unat n) xs @ drop (unat n) out, e, r)"
    and peek_short: "usable e \<Longrightarrow> holds r xs \<Longrightarrow> length xs < unat n \<Longrightarrow>
          peek e r out n = Some (False, out, e, r)"
begin

text \<open>Writing a whole message: its length, then its body.\<close>

lemma put_message:
  assumes e: "usable e" and r: "holds r xs" and n: "n \<noteq> 0" "unat n \<le> length src"
    and room: "length xs + 8 + unat n \<le> capacity r"
  shows "\<exists>r1 r2. put e r (le_bytes 8 n) 8 = Some (True, e, r1) \<and>
           put e r1 src n = Some (True, e, r2) \<and>
           holds r2 (xs @ message_bytes (take (unat n) src)) \<and> capacity r2 = capacity r"
proof -
  obtain r1 where r1: "put e r (le_bytes 8 n) 8 = Some (True, e, r1)"
    "holds r1 (xs @ le_bytes 8 n)" "capacity r1 = capacity r"
    using put_ok [OF e r, of 8 "le_bytes 8 n"] room by auto
  obtain r2 where r2: "put e r1 src n = Some (True, e, r2)"
    "holds r2 ((xs @ le_bytes 8 n) @ take (unat n) src)" "capacity r2 = capacity r"
    using put_ok [OF e r1(2) n] r1(3) room by auto
  from r1 r2 n show ?thesis by (auto simp: message_bytes_def min_def)
qed

text \<open>The length of the first message, without removing it.\<close>

lemma peek_header:
  assumes "usable e" "holds r (message_bytes m @ xs)" "length out = 8"
  shows "peek e r out 8 = Some (True, le_bytes 8 (of_nat (length m) :: u64), e, r)"
  using peek_ok [OF assms(1,2), of 8 out] assms(3) by (simp add: message_bytes_def)

text \<open>Reading a whole message: its length, then its body.\<close>

lemma get_message:
  assumes e: "usable e" and r: "holds r (message_bytes m @ xs)" and m: "valid_message m"
    and hdr: "length hdr = 8" and out: "length m \<le> length out"
  shows "\<exists>r1 r2. get e r hdr 8 = Some (True, le_bytes 8 (of_nat (length m) :: u64), e, r1) \<and>
           get e r1 out (of_nat (length m)) = Some (True, m @ drop (length m) out, e, r2) \<and>
           holds r2 xs \<and> capacity r2 = capacity r"
proof -
  let ?n = "of_nat (length m) :: u64"
  obtain r1 where r1: "get e r hdr 8 = Some (True, le_bytes 8 ?n, e, r1)"
    "holds r1 (m @ xs)" "capacity r1 = capacity r"
    using get_ok [OF e r, of 8 hdr] hdr by (auto simp: message_bytes_def)
  obtain r2 where r2: "get e r1 out ?n = Some (True, m @ drop (length m) out, e, r2)"
    "holds r2 xs" "capacity r2 = capacity r"
    using get_ok [OF e r1(2), of ?n out] m r1(3) out
    by (auto simp: unat_of_nat_len of_nat_len_neq_0)
  from r1 r2 show ?thesis by auto
qed

end

end
