(* ===== verification/Ring_Buffer.thy ===== *)
theory Ring_Buffer
  imports Mutex_Validator Byte_Fifo
begin

text \<open>
  The ring buffer (\<open>a2_message_queue/ring_buffer.c\<close>, \<open>ring_buffer.h\<close>): a circular byte
  buffer with \<open>size_t\<close> indices, its freed bytes poisoned, its operations bracketed by the
  mutex validator.  The representation relation \<open>rb_rep\<close> links a buffer to the byte
  sequence it holds; every operation is shown to implement a bounded FIFO of bytes.
\<close>

section \<open>The data structure and its operations\<close>

record ring_buffer =
  rb_buffer :: "u8 list"
  rb_size :: u64
  rb_head :: u64
  rb_tail :: u64
  rb_full :: bool
  rb_validator :: mutex_validator

definition poison :: u8 where
  "poison = 0xDD"

definition mark_free :: "u8 list \<Rightarrow> u64 \<Rightarrow> u64 \<Rightarrow> u8 list option" where
  "mark_free m start len = mem_write m (unat start) (replicate (unat len) poison)"

text \<open>The loop of \<open>check_free\<close>: the index of the next byte and the number of bytes left.\<close>

fun check_free_loop :: "u8 list \<Rightarrow> nat \<Rightarrow> nat \<Rightarrow> unit option" where
  "check_free_loop m i 0 = Some ()"
| "check_free_loop m i (Suc n) =
     (if i < length m \<and> m ! i = poison then check_free_loop m (Suc i) n else None)"

definition check_free :: "u8 list \<Rightarrow> u64 \<Rightarrow> u64 \<Rightarrow> unit option" where
  "check_free m start len = check_free_loop m (unat start) (unat len)"

text \<open>\<open>alloc\<close> is what \<open>malloc(size)\<close> gives: \<open>None\<close> for \<open>NULL\<close> (with \<open>errno\<close> set to
  \<open>ENOMEM\<close>), else the bytes of the new object, which are indeterminate.\<close>

definition ring_buffer_init ::
  "thread_env \<Rightarrow> u8 list option \<Rightarrow> ring_buffer \<Rightarrow> u64 \<Rightarrow> (int \<times> thread_env \<times> ring_buffer) option" where
  "ring_buffer_init env alloc rb sz =
     (case alloc of
        None \<Rightarrow> Some (-1, report_error ''ring_buffer.c:67'' ''malloc'' (env\<lparr>errno := ENOMEM\<rparr>), rb)
      | Some mem \<Rightarrow> do {
          mem' \<leftarrow> mark_free mem 0 sz;
          Some (0, env, rb\<lparr>rb_buffer := mem', rb_size := sz, rb_head := 0, rb_tail := 0,
                           rb_full := False,
                           rb_validator := validator_init (rb_validator rb) ''ring_buffer''\<rparr>)
        })"

definition ring_buffer_destroy :: "ring_buffer \<Rightarrow> unit option" where
  "ring_buffer_destroy rb = validator_destroy (rb_validator rb)"

definition raw_ring_buffer_used :: "ring_buffer \<Rightarrow> u64" where
  "raw_ring_buffer_used rb =
     (if rb_full rb then rb_size rb
      else if rb_tail rb \<ge> rb_head rb then rb_tail rb - rb_head rb
      else rb_size rb + rb_tail rb - rb_head rb)"

definition raw_ring_buffer_free :: "ring_buffer \<Rightarrow> u64" where
  "raw_ring_buffer_free rb = rb_size rb - raw_ring_buffer_used rb"

definition ring_buffer_used :: "thread_env \<Rightarrow> ring_buffer \<Rightarrow> u64 \<times> thread_env \<times> ring_buffer" where
  "ring_buffer_used env rb =
     (let (env1, v1) = validator_enter env (rb_validator rb);
          used_space = raw_ring_buffer_used rb;
          (env2, v2) = validator_exit env1 v1
      in (used_space, env2, rb\<lparr>rb_validator := v2\<rparr>))"

definition ring_buffer_free :: "thread_env \<Rightarrow> ring_buffer \<Rightarrow> u64 \<times> thread_env \<times> ring_buffer" where
  "ring_buffer_free env rb =
     (let (env1, v1) = validator_enter env (rb_validator rb);
          free_space = raw_ring_buffer_free rb;
          (env2, v2) = validator_exit env1 v1
      in (free_space, env2, rb\<lparr>rb_validator := v2\<rparr>))"

text \<open>
  The copying part of \<open>ring_buffer_read_common\<close>.  \<open>out\<close> is the caller's object that
  \<open>buffer\<close> points to.
\<close>

definition ring_buffer_copy_out ::
  "ring_buffer \<Rightarrow> u8 list \<Rightarrow> u64 \<Rightarrow> bool \<Rightarrow> (u8 list \<times> ring_buffer) option" where
  "ring_buffer_copy_out rb out len remove =
     (if rb_head rb + len \<le> rb_size rb then do {
        bytes \<leftarrow> mem_read (rb_buffer rb) (unat (rb_head rb)) (unat len);
        out1 \<leftarrow> mem_write out 0 bytes;
        if remove then do {
          mem1 \<leftarrow> mark_free (rb_buffer rb) (rb_head rb) len;
          let head1 = rb_head rb + len;
          Some (out1, rb\<lparr>rb_buffer := mem1,
                         rb_head := (if head1 = rb_size rb then 0 else head1)\<rparr>)
        } else Some (out1, rb)
      } else do {
        let copy_len = rb_size rb - rb_head rb;
        bytes \<leftarrow> mem_read (rb_buffer rb) (unat (rb_head rb)) (unat copy_len);
        out1 \<leftarrow> mem_write out 0 bytes;
        rb1 \<leftarrow> (if remove then do {
                  mem1 \<leftarrow> mark_free (rb_buffer rb) (rb_head rb) copy_len;
                  Some (rb\<lparr>rb_buffer := mem1, rb_head := 0\<rparr>)
                } else Some rb);
        let next_copy_len = len - copy_len;
        bytes2 \<leftarrow> mem_read (rb_buffer rb1) 0 (unat next_copy_len);
        out2 \<leftarrow> mem_write out1 (unat copy_len) bytes2;
        rb2 \<leftarrow> (if remove then do {
                  mem2 \<leftarrow> mark_free (rb_buffer rb1) (rb_head rb1) next_copy_len;
                  Some (rb1\<lparr>rb_buffer := mem2, rb_head := next_copy_len\<rparr>)
                } else Some rb1);
        Some (out2, rb2)
      })"

definition ring_buffer_read_common ::
  "ring_buffer \<Rightarrow> u8 list \<Rightarrow> u64 \<Rightarrow> bool \<Rightarrow> (bool \<times> u8 list \<times> ring_buffer) option" where
  "ring_buffer_read_common rb out len remove =
     (if len = 0 then None
      else if len > raw_ring_buffer_used rb then Some (False, out, rb)
      else do {
        (out', rb') \<leftarrow> ring_buffer_copy_out rb out len remove;
        Some (True, out', if remove then rb'\<lparr>rb_full := False\<rparr> else rb')
      })"

definition ring_buffer_read ::
  "thread_env \<Rightarrow> ring_buffer \<Rightarrow> u8 list \<Rightarrow> u64 \<Rightarrow> (bool \<times> u8 list \<times> thread_env \<times> ring_buffer) option" where
  "ring_buffer_read env rb out len = do {
     let (env1, v1) = validator_enter env (rb_validator rb);
     (result, out', rb') \<leftarrow> ring_buffer_read_common (rb\<lparr>rb_validator := v1\<rparr>) out len True;
     let (env2, v2) = validator_exit env1 (rb_validator rb');
     Some (result, out', env2, rb'\<lparr>rb_validator := v2\<rparr>)
   }"

definition ring_buffer_peek ::
  "thread_env \<Rightarrow> ring_buffer \<Rightarrow> u8 list \<Rightarrow> u64 \<Rightarrow> (bool \<times> u8 list \<times> thread_env \<times> ring_buffer) option" where
  "ring_buffer_peek env rb out len = do {
     let (env1, v1) = validator_enter env (rb_validator rb);
     (result, out', rb') \<leftarrow> ring_buffer_read_common (rb\<lparr>rb_validator := v1\<rparr>) out len False;
     let (env2, v2) = validator_exit env1 (rb_validator rb');
     Some (result, out', env2, rb'\<lparr>rb_validator := v2\<rparr>)
   }"

text \<open>The copying part of \<open>ring_buffer_write\<close>.\<close>

definition ring_buffer_copy_in :: "ring_buffer \<Rightarrow> u8 list \<Rightarrow> u64 \<Rightarrow> ring_buffer option" where
  "ring_buffer_copy_in rb src len =
     (if rb_tail rb + len \<le> rb_size rb then do {
        check_free (rb_buffer rb) (rb_tail rb) len;
        bytes \<leftarrow> mem_read src 0 (unat len);
        mem1 \<leftarrow> mem_write (rb_buffer rb) (unat (rb_tail rb)) bytes;
        let tail1 = rb_tail rb + len;
        Some (rb\<lparr>rb_buffer := mem1, rb_tail := (if tail1 = rb_size rb then 0 else tail1)\<rparr>)
      } else do {
        let copy_len = rb_size rb - rb_tail rb;
        check_free (rb_buffer rb) (rb_tail rb) copy_len;
        bytes \<leftarrow> mem_read src 0 (unat copy_len);
        mem1 \<leftarrow> mem_write (rb_buffer rb) (unat (rb_tail rb)) bytes;
        let next_copy_len = len - copy_len;
        check_free mem1 0 next_copy_len;
        bytes2 \<leftarrow> mem_read src (unat copy_len) (unat next_copy_len);
        mem2 \<leftarrow> mem_write mem1 0 bytes2;
        Some (rb\<lparr>rb_buffer := mem2, rb_tail := next_copy_len\<rparr>)
      })"

definition ring_buffer_write ::
  "thread_env \<Rightarrow> ring_buffer \<Rightarrow> u8 list \<Rightarrow> u64 \<Rightarrow> (bool \<times> thread_env \<times> ring_buffer) option" where
  "ring_buffer_write env rb0 src len = do {
     let (env1, v1) = validator_enter env (rb_validator rb0);
     let rb = rb0\<lparr>rb_validator := v1\<rparr>;
     if len = 0 then None
     else if len > raw_ring_buffer_free rb then
       (let (env2, v2) = validator_exit env1 v1 in Some (False, env2, rb\<lparr>rb_validator := v2\<rparr>))
     else do {
       rb' \<leftarrow> ring_buffer_copy_in rb src len;
       let rb'' = (if rb_head rb' = rb_tail rb' then rb'\<lparr>rb_full := True\<rparr> else rb');
       let (env2, v2) = validator_exit env1 (rb_validator rb'');
       Some (True, env2, rb''\<lparr>rb_validator := v2\<rparr>)
     }
   }"

section \<open>Circular views of a list\<close>

text \<open>
  Reading the buffer from index \<open>p\<close> on, around the end, is \<open>rotate p\<close>.  A write of
  \<open>bs\<close> at \<open>p\<close> that may wrap around replaces the first bytes of that view.
\<close>

definition wrap_write :: "'a list \<Rightarrow> nat \<Rightarrow> 'a list \<Rightarrow> 'a list" where
  "wrap_write m p bs =
     (let k = length m - p in
      if length bs \<le> k then take p m @ bs @ drop (p + length bs) m
      else drop k bs @ drop (length bs - k) (take p m) @ take k bs)"

lemma rotate_inject: "rotate n xs = rotate n ys \<longleftrightarrow> xs = ys"
  by (induction n) (auto dest: injD [OF inj_rotate1])

lemma rotate_less: "p < length m \<Longrightarrow> rotate p m = drop p m @ take p m"
  by (simp add: rotate_drop_take)

lemma length_wrap_write [simp]:
  "p < length m \<Longrightarrow> length bs \<le> length m \<Longrightarrow> length (wrap_write m p bs) = length m"
  by (auto simp: wrap_write_def Let_def)

lemma rotate_wrap_write_same:
  assumes "p < length m" and "length bs \<le> length m"
  shows "rotate p (wrap_write m p bs) = bs @ drop (length bs) (rotate p m)"
proof (cases "length bs \<le> length m - p")
  case True
  with assms show ?thesis
    by (simp add: rotate_less wrap_write_def add.commute)
next
  case False
  define k where "k = length m - p"
  define A where "A = drop k bs @ drop (length bs - k) (take p m)"
  have A: "length A = p"
    using assms False by (simp add: A_def k_def)
  have "wrap_write m p bs = A @ take k bs"
    using False by (simp add: wrap_write_def A_def k_def Let_def)
  then have "rotate p (wrap_write m p bs) = take k bs @ A"
    using A rotate_append [of A] by simp
  also have "\<dots> = bs @ drop (length bs) (rotate p m)"
    using False assms by (simp add: A_def k_def rotate_less)
  finally show ?thesis .
qed

lemma rotate_wrap_write:
  assumes "h < length m" and view: "rotate h m = xs @ ys" and "length bs \<le> length ys"
  shows "rotate h (wrap_write m ((h + length xs) mod length m) bs)
           = xs @ bs @ drop (length bs) ys"
proof -
  let ?p = "(h + length xs) mod length m" and ?new = "wrap_write m ((h + length xs) mod length m) bs"
  have len: "length m = length xs + length ys"
    using view by (metis length_append length_rotate)
  have p: "?p < length m"
    using assms(1) by (intro mod_less_divisor) linarith
  have bs: "length bs \<le> length m"
    using assms(3) len by simp
  have rot: "rotate (length xs) (rotate h l) = rotate ?p l" if "length l = length m" for l :: "'a list"
    using that by (metis add.commute rotate_conv_mod rotate_rotate)
  have "rotate (length xs) (rotate h ?new) = rotate ?p ?new"
    using p bs by (intro rot) simp
  also have "\<dots> = bs @ drop (length bs) (rotate ?p m)"
    using p bs by (rule rotate_wrap_write_same)
  also have "rotate ?p m = ys @ xs"
    using rot [of m] view by (simp add: rotate_append)
  also have "bs @ drop (length bs) (ys @ xs) = rotate (length xs) (xs @ bs @ drop (length bs) ys)"
    using assms(3) by (simp add: rotate_append)
  finally show ?thesis by (simp only: rotate_inject)
qed

section \<open>The bytes a ring buffer holds\<close>

text \<open>
  \<open>rb_rep rb xs\<close>: the buffer, read from its head around the end, is the sequence \<open>xs\<close>
  of used bytes followed by poisoned free bytes; the tail is the first free index and
  \<open>full\<close> says that there is none.  \<open>rb_holds\<close> adds that no operation is under way.
\<close>

definition rb_rep :: "ring_buffer \<Rightarrow> u8 list \<Rightarrow> bool" where
  "rb_rep rb xs \<longleftrightarrow>
     (let n = unat (rb_size rb); h = unat (rb_head rb) in
      length (rb_buffer rb) = n \<and> n < 2 ^ 63 \<and> h < n \<and> length xs \<le> n \<and>
      rotate h (rb_buffer rb) = xs @ replicate (n - length xs) poison \<and>
      unat (rb_tail rb) = (h + length xs) mod n \<and>
      (rb_full rb \<longleftrightarrow> length xs = n))"

definition rb_holds :: "ring_buffer \<Rightarrow> u8 list \<Rightarrow> bool" where
  "rb_holds rb xs \<longleftrightarrow> rb_rep rb xs \<and> owner (rb_validator rb) = 0"

lemma rb_rep_validator [simp]: "rb_rep (rb\<lparr>rb_validator := v\<rparr>) xs = rb_rep rb xs"
  by (simp add: rb_rep_def)

lemma raw_validator [simp]:
  "raw_ring_buffer_used (rb\<lparr>rb_validator := v\<rparr>) = raw_ring_buffer_used rb"
  "raw_ring_buffer_free (rb\<lparr>rb_validator := v\<rparr>) = raw_ring_buffer_free rb"
  by (simp_all add: raw_ring_buffer_used_def raw_ring_buffer_free_def)

lemma rb_repD:
  assumes "rb_rep rb xs"
  shows "length (rb_buffer rb) = unat (rb_size rb)" "unat (rb_size rb) < 2 ^ 63"
    "unat (rb_head rb) < unat (rb_size rb)" "length xs \<le> unat (rb_size rb)"
    "rotate (unat (rb_head rb)) (rb_buffer rb)
       = xs @ replicate (unat (rb_size rb) - length xs) poison"
    "unat (rb_tail rb) = (unat (rb_head rb) + length xs) mod unat (rb_size rb)"
    "rb_full rb \<longleftrightarrow> length xs = unat (rb_size rb)"
  using assms by (simp_all add: rb_rep_def Let_def)

lemma mod_once: "a < n \<Longrightarrow> b \<le> n \<Longrightarrow> (a + b) mod n = (if a + b < n then a + b else a + b - n)" for n :: nat
  by (auto simp: mod_if)

lemma raw_used_length:
  assumes rep: "rb_rep rb xs"
  shows "unat (raw_ring_buffer_used rb) = length xs"
proof -
  note d = rb_repD [OF rep]
  let ?n = "unat (rb_size rb)" and ?h = "unat (rb_head rb)" and ?u = "length xs"
  have tail: "unat (rb_tail rb) = (if ?h + ?u < ?n then ?h + ?u else ?h + ?u - ?n)"
    using d(6) mod_once [OF d(3,4)] by simp
  consider (full) "?u = ?n" | (straight) "?u < ?n" "?h + ?u < ?n" | (wrapped) "?u < ?n" "?n \<le> ?h + ?u"
    using d(4) by linarith
  then show ?thesis
  proof cases
    case full
    with d(7) show ?thesis by (simp add: raw_ring_buffer_used_def)
  next
    case straight
    with tail have t: "unat (rb_tail rb) = ?h + ?u" by simp
    then have "rb_head rb \<le> rb_tail rb" by (simp add: word_le_nat_alt)
    with straight d(7) t show ?thesis
      by (simp add: raw_ring_buffer_used_def unat_minus_le)
  next
    case wrapped
    with tail have t: "unat (rb_tail rb) = ?h + ?u - ?n" by simp
    with wrapped d(3) have lt: "\<not> rb_head rb \<le> rb_tail rb" by (simp add: word_le_nat_alt)
    have sum: "unat (rb_size rb + rb_tail rb) = ?h + ?u"
      using wrapped t d(2,3) by (subst unat_plus_small) auto
    then have "rb_head rb \<le> rb_size rb + rb_tail rb" by (simp add: word_le_nat_alt)
    with sum lt wrapped d(7) show ?thesis
      by (simp add: raw_ring_buffer_used_def unat_minus_le)
  qed
qed

lemma raw_free_length:
  assumes "rb_rep rb xs"
  shows "unat (raw_ring_buffer_free rb) = unat (rb_size rb) - length xs"
  using raw_used_length [OF assms] rb_repD(4) [OF assms]
  by (simp add: raw_ring_buffer_free_def unat_minus_le word_le_nat_alt)

section \<open>Copying in\<close>

lemma check_free_loop_ok:
  "i + n \<le> length m \<Longrightarrow> (\<And>j. j < n \<Longrightarrow> m ! (i + j) = poison) \<Longrightarrow> check_free_loop m i n = Some ()"
proof (induction n arbitrary: i)
  case (Suc n)
  from Suc.prems(2) [of 0] have "m ! i = poison" by simp
  moreover have "check_free_loop m (Suc i) n = Some ()"
    using Suc.prems(1) Suc.prems(2) [of "Suc _"] by (intro Suc.IH) auto
  ultimately show ?case using Suc.prems(1) by simp
qed simp

lemma rb_rep_poison:
  assumes rep: "rb_rep rb xs" and j: "j < unat (rb_size rb) - length xs"
  shows "rb_buffer rb ! ((unat (rb_tail rb) + j) mod unat (rb_size rb)) = poison"
proof -
  note d = rb_repD [OF rep]
  have "rotate (unat (rb_head rb)) (rb_buffer rb) ! (length xs + j) = poison"
    using j by (simp add: d(5) nth_append)
  moreover have "rotate (unat (rb_head rb)) (rb_buffer rb) ! (length xs + j)
      = rb_buffer rb ! ((unat (rb_head rb) + (length xs + j)) mod unat (rb_size rb))"
    using j d(1) by (subst nth_rotate) auto
  ultimately show ?thesis
    by (simp add: d(6) mod_add_left_eq add.assoc)
qed

lemma rb_tail_less: "rb_rep rb xs \<Longrightarrow> unat (rb_tail rb) < unat (rb_size rb)"
  using rb_repD(3,6) by (metis gr_implies_not0 mod_less_divisor neq0_conv)

lemma ring_buffer_copy_in_wrap:
  assumes rep: "rb_rep rb xs" and len: "unat len \<le> unat (rb_size rb) - length xs" "len \<noteq> 0"
    and src: "unat len \<le> length src"
  shows "\<exists>t. ring_buffer_copy_in rb src len =
           Some (rb\<lparr>rb_buffer := wrap_write (rb_buffer rb) (unat (rb_tail rb)) (take (unat len) src),
                    rb_tail := t\<rparr>) \<and>
           unat t = (unat (rb_tail rb) + unat len) mod unat (rb_size rb)"
proof -
  note d = rb_repD [OF rep] and tl = rb_tail_less [OF rep]
  let ?n = "unat (rb_size rb)" and ?t = "unat (rb_tail rb)" and ?l = "unat len" and ?m = "rb_buffer rb"
  have sum: "unat (rb_tail rb + len) = ?t + ?l"
    using tl len d(2) by (intro unat_plus_small) simp
  have free: "check_free_loop m' i k = Some ()"
    if "length m' = ?n" "i + k \<le> ?n" "\<And>j. j < k \<Longrightarrow> m' ! (i + j) = ?m ! ((?t + (c + j)) mod ?n)" "c + k \<le> ?l"
    for m' i k c
    using that rb_rep_poison [OF rep] len by (intro check_free_loop_ok) auto
  show ?thesis
  proof (cases "?t + ?l \<le> ?n")
    case True
    have "check_free ?m (rb_tail rb) len = Some ()"
      unfolding check_free_def using True d(1) by (intro free [where c = 0]) auto
    moreover have "rb_tail rb + len \<le> rb_size rb"
      using True sum by (simp add: word_le_nat_alt)
    ultimately have "ring_buffer_copy_in rb src len =
        Some (rb\<lparr>rb_buffer := take ?t ?m @ take ?l src @ drop (?t + ?l) ?m,
                 rb_tail := (if rb_tail rb + len = rb_size rb then 0 else rb_tail rb + len)\<rparr>)"
      using True src d(1) by (simp add: ring_buffer_copy_in_def mem_simps)
    moreover have "take ?t ?m @ take ?l src @ drop (?t + ?l) ?m = wrap_write ?m ?t (take ?l src)"
      using True src d(1) by (auto simp: wrap_write_def Let_def min_def)
    moreover have "unat (if rb_tail rb + len = rb_size rb then 0 else rb_tail rb + len)
        = (?t + ?l) mod ?n"
      using True sum by (auto simp: word_unat_eq_iff)
    ultimately show ?thesis by auto
  next
    case False
    define k where "k = rb_size rb - rb_tail rb"
    define r where "r = len - k"
    define mem1 where "mem1 = take ?t ?m @ take (?n - ?t) src"
    have k: "unat k = ?n - ?t"
      using tl by (simp add: k_def unat_minus_le word_le_nat_alt)
    have r: "unat r = ?l - (?n - ?t)"
      using False k by (simp add: r_def unat_minus_le word_le_nat_alt)
    have le: "?l - (?n - ?t) \<le> ?t" using len by simp
    have mem1: "length mem1 = ?n" "\<And>j. j < ?t \<Longrightarrow> mem1 ! j = ?m ! j"
      using tl d(1) src False by (auto simp: mem1_def nth_append)
    have "check_free ?m (rb_tail rb) k = Some ()"
      unfolding check_free_def k using False d(1) tl
      by (intro free [where c = 0]) auto
    moreover have "mem_write ?m ?t (take (?n - ?t) src) = Some mem1"
      using False src d(1) tl by (simp add: mem_write_def mem1_def)
    moreover have "check_free mem1 0 r = Some ()"
      unfolding check_free_def r using False le mem1 tl
      by (intro free [where c = "?n - ?t"]) auto
    moreover have "\<not> rb_tail rb + len \<le> rb_size rb"
      using False sum by (simp add: word_le_nat_alt)
    moreover have "take (?l - (?n - ?t)) (drop (?n - ?t) src) = drop (?n - ?t) (take ?l src)"
      by (simp add: drop_take)
    ultimately have "ring_buffer_copy_in rb src len =
        Some (rb\<lparr>rb_buffer := drop (?n - ?t) (take ?l src) @ drop (?l - (?n - ?t)) mem1, rb_tail := r\<rparr>)"
      using False src le mem1(1) tl k r
      by (simp add: ring_buffer_copy_in_def mem_simps flip: k_def r_def)
    moreover have "drop (?n - ?t) (take ?l src) @ drop (?l - (?n - ?t)) mem1
        = wrap_write ?m ?t (take ?l src)"
      using False src d(1) le tl by (auto simp: wrap_write_def mem1_def min_absorb2 min_absorb1 Let_def)
    moreover have "unat r = (?t + ?l) mod ?n"
      using False r tl len(1) mod_once [OF tl, of ?l] by simp
    ultimately show ?thesis by auto
  qed
qed

text \<open>Appending to the held bytes, once the bytes are copied and the tail is moved.\<close>

lemma rb_rep_append:
  assumes rep: "rb_rep rb xs" and bs: "bs \<noteq> []" "length xs + length bs \<le> unat (rb_size rb)"
    and t: "unat t = (unat (rb_tail rb) + length bs) mod unat (rb_size rb)"
  shows "rb_rep (rb\<lparr>rb_buffer := wrap_write (rb_buffer rb) (unat (rb_tail rb)) bs,
                    rb_tail := t, rb_full := (rb_head rb = t \<or> rb_full rb)\<rparr>) (xs @ bs)"
proof -
  note d = rb_repD [OF rep]
  let ?n = "unat (rb_size rb)" and ?h = "unat (rb_head rb)"
  have view: "rotate ?h (wrap_write (rb_buffer rb) (unat (rb_tail rb)) bs)
      = (xs @ bs) @ replicate (?n - length (xs @ bs)) poison"
    using rotate_wrap_write [of ?h "rb_buffer rb" xs _ bs] d bs by simp
  have tl: "unat t = (?h + length (xs @ bs)) mod ?n"
    by (simp add: t d(6) mod_add_left_eq add.assoc)
  have full: "(rb_head rb = t \<or> rb_full rb) \<longleftrightarrow> length (xs @ bs) = ?n"
    using tl d bs mod_once [OF d(3), of "length (xs @ bs)"]
    by (auto simp: word_unat_eq_iff split: if_splits)
  show ?thesis
    unfolding rb_rep_def Let_def using d bs view tl full rb_tail_less [OF rep] by simp
qed

lemma set_full_if:
  "(if c then rb\<lparr>rb_full := True\<rparr> else rb) = rb\<lparr>rb_full := (c \<or> rb_full rb)\<rparr>"
  by (cases rb) simp

lemma ring_buffer_write_ok:
  assumes holds: "rb_holds rb xs" and len: "len \<noteq> 0" "unat len \<le> unat (rb_size rb) - length xs"
    and src: "unat len \<le> length src" and tid: "self env \<noteq> 0"
  shows "\<exists>rb'. ring_buffer_write env rb src len = Some (True, env, rb') \<and>
           rb_holds rb' (xs @ take (unat len) src) \<and> rb_size rb' = rb_size rb"
proof -
  let ?rb = "rb\<lparr>rb_validator := (rb_validator rb)\<lparr>owner := self env\<rparr>\<rparr>"
  have rep: "rb_rep ?rb xs" and idle: "owner (rb_validator rb) = 0"
    using holds by (simp_all add: rb_holds_def)
  obtain t where copy: "ring_buffer_copy_in ?rb src len =
        Some (?rb\<lparr>rb_buffer := wrap_write (rb_buffer rb) (unat (rb_tail rb)) (take (unat len) src),
                    rb_tail := t\<rparr>)"
    and t: "unat t = (unat (rb_tail rb) + unat len) mod unat (rb_size rb)"
    using ring_buffer_copy_in_wrap [OF rep, of len src] len src by auto
  have fits: "\<not> len > raw_ring_buffer_free rb"
    using raw_free_length [OF rep] len by (simp add: word_less_nat_alt)
  have bs: "length (take (unat len) src) = unat len" "take (unat len) src \<noteq> []"
    using len src by (auto simp: unat_eq_0)
  from rb_rep_append [OF rep bs(2), of t] bs(1) len rb_repD(4) [OF rep] t
  have new: "rb_rep (?rb\<lparr>rb_buffer := wrap_write (rb_buffer rb) (unat (rb_tail rb)) (take (unat len) src),
        rb_tail := t, rb_full := (rb_head rb = t \<or> rb_full rb)\<rparr>) (xs @ take (unat len) src)"
    by simp
  let ?rb' = "?rb\<lparr>rb_buffer := wrap_write (rb_buffer rb) (unat (rb_tail rb)) (take (unat len) src),
        rb_tail := t, rb_full := (rb_head rb = t \<or> rb_full rb),
        rb_validator := (rb_validator rb)\<lparr>owner := 0\<rparr>\<rparr>"
  have "ring_buffer_write env rb src len = Some (True, env, ?rb')"
    using copy fits len idle by (simp add: ring_buffer_write_def set_full_if)
  moreover have "rb_holds ?rb' (xs @ take (unat len) src)"
    using new unfolding rb_holds_def rb_rep_validator by simp
  ultimately show ?thesis by simp
qed

lemma ring_buffer_write_full:
  assumes holds: "rb_holds rb xs" and len: "unat len > unat (rb_size rb) - length xs"
    and tid: "self env \<noteq> 0"
  shows "ring_buffer_write env rb src len = Some (False, env, rb)"
proof -
  have "len \<noteq> 0" using len by auto
  moreover have "len > raw_ring_buffer_free rb"
    using raw_free_length [of rb xs] holds len by (simp add: rb_holds_def word_less_nat_alt)
  ultimately show ?thesis
    using holds by (simp add: ring_buffer_write_def rb_holds_def)
qed

section \<open>Copying out\<close>

lemma rb_rep_prefix:
  assumes "rb_rep rb xs" and "l \<le> length xs"
  shows "take l (drop (unat (rb_head rb)) (rb_buffer rb) @ take (unat (rb_head rb)) (rb_buffer rb)) = take l xs"
  using rb_repD(1,3,5) [OF assms(1)] assms(2)
  by (metis append_Nil2 diff_is_0_eq rotate_less take0 take_append)

lemma ring_buffer_copy_out_wrap:
  assumes rep: "rb_rep rb xs" and len: "unat len \<le> length xs" "len \<noteq> 0"
    and out: "unat len \<le> length out"
  shows "\<exists>h. ring_buffer_copy_out rb out len remove =
           Some (take (unat len) xs @ drop (unat len) out,
                 if remove
                 then rb\<lparr>rb_buffer := wrap_write (rb_buffer rb) (unat (rb_head rb)) (replicate (unat len) poison),
                         rb_head := h\<rparr>
                 else rb) \<and>
           unat h = (unat (rb_head rb) + unat len) mod unat (rb_size rb)"
proof -
  note d = rb_repD [OF rep] and prefix = rb_rep_prefix [OF rep len(1)]
  let ?n = "unat (rb_size rb)" and ?h = "unat (rb_head rb)" and ?l = "unat len" and ?m = "rb_buffer rb"
  have sum: "unat (rb_head rb + len) = ?h + ?l"
    using d(2,3,4) len by (intro unat_plus_small) simp
  show ?thesis
  proof (cases "?h + ?l \<le> ?n")
    case True
    then have bytes: "take ?l (drop ?h ?m) = take ?l xs"
      using prefix d(1,3) by simp
    have "take ?h ?m @ replicate ?l poison @ drop (?h + ?l) ?m = wrap_write ?m ?h (replicate ?l poison)"
      using True d(1) by (auto simp: wrap_write_def Let_def)
    then have "ring_buffer_copy_out rb out len remove =
        Some (take ?l xs @ drop ?l out,
              if remove then rb\<lparr>rb_buffer := wrap_write ?m ?h (replicate ?l poison),
                 rb_head := (if rb_head rb + len = rb_size rb then 0 else rb_head rb + len)\<rparr> else rb)"
      using True sum out d(1,4) len bytes
      by (simp add: ring_buffer_copy_out_def mark_free_def mem_simps word_le_nat_alt min_absorb2)
    moreover have "unat (if rb_head rb + len = rb_size rb then 0 else rb_head rb + len) = (?h + ?l) mod ?n"
      using True sum by (auto simp: word_unat_eq_iff)
    ultimately show ?thesis by auto
  next
    case False
    define k where "k = rb_size rb - rb_head rb"
    define r where "r = len - k"
    define mem1 where "mem1 = take ?h ?m @ replicate (?n - ?h) poison"
    have k: "unat k = ?n - ?h"
      using d(3) by (simp add: k_def unat_minus_le word_le_nat_alt)
    have r: "unat r = ?l - (?n - ?h)"
      using False k by (simp add: r_def unat_minus_le word_le_nat_alt)
    have le: "?l - (?n - ?h) \<le> ?h" using len d(4) by simp
    have mem1: "length mem1 = ?n" "take (?l - (?n - ?h)) mem1 = take (?l - (?n - ?h)) ?m"
      using d(1,3) le by (simp_all add: mem1_def min_absorb1 min_absorb2)
    have bytes: "drop ?h ?m @ take (?l - (?n - ?h)) ?m = take ?l xs"
      using prefix False d(1,3) le by (simp add: min_absorb1)
    have split_out: "drop ?h ?m @ take (?l - (?n - ?h)) ?m @ drop ?l out = take ?l xs @ drop ?l out"
      using bytes by simp
    have freed: "replicate (?l - (?n - ?h)) poison @ drop (?l - (?n - ?h)) mem1
        = wrap_write ?m ?h (replicate ?l poison)"
      using False d(1,3) le by (auto simp: wrap_write_def mem1_def Let_def)
    have "\<not> rb_head rb + len \<le> rb_size rb"
      using False sum by (simp add: word_le_nat_alt)
    then have "ring_buffer_copy_out rb out len remove =
        Some (take ?l xs @ drop ?l out,
              if remove then rb\<lparr>rb_buffer := wrap_write ?m ?h (replicate ?l poison), rb_head := r\<rparr> else rb)"
      using False out d(1,3,4) len k r le mem1 split_out freed
      by (simp add: ring_buffer_copy_out_def mark_free_def mem_simps flip: k_def r_def mem1_def)
    moreover have "unat r = (?h + ?l) mod ?n"
      using False r d(3,4) len mod_once [OF d(3), of ?l] by simp
    ultimately show ?thesis by auto
  qed
qed

text \<open>Removing from the held bytes, once they are poisoned and the head is moved.\<close>

lemma rb_rep_remove:
  assumes rep: "rb_rep rb xs" and l: "0 < l" "l \<le> length xs"
    and h: "unat h = (unat (rb_head rb) + l) mod unat (rb_size rb)"
  shows "rb_rep (rb\<lparr>rb_buffer := wrap_write (rb_buffer rb) (unat (rb_head rb)) (replicate l poison),
                    rb_head := h, rb_full := False\<rparr>) (drop l xs)"
proof -
  note d = rb_repD [OF rep]
  let ?n = "unat (rb_size rb)" and ?h = "unat (rb_head rb)"
    and ?new = "wrap_write (rb_buffer rb) (unat (rb_head rb)) (replicate l poison)"
  have len: "length ?new = ?n" using d l by simp
  have "rotate ?h ?new = replicate l poison @ (drop l xs @ replicate (?n - length xs) poison)"
    using rotate_wrap_write_same [of ?h "rb_buffer rb" "replicate l poison"] d l by simp
  then have "rotate l (rotate ?h ?new) = (drop l xs @ replicate (?n - length xs) poison) @ replicate l poison"
    using rotate_append [of "replicate l poison"] by simp
  then have view: "rotate (unat h) ?new = drop l xs @ replicate (?n - length (drop l xs)) poison"
    using rotate_conv_mod [of "?h + l" ?new] len l d(4) h
    by (simp add: rotate_rotate add.commute [of l] flip: replicate_add)
  have tl: "unat (rb_tail rb) = (unat h + length (drop l xs)) mod ?n"
    using d(6) l mod_add_left_eq [of "?h + l" ?n "length xs - l"] by (simp add: h)
  have "unat h < ?n" using h d(3) by (metis gr_implies_not0 mod_less_divisor neq0_conv)
  moreover have "length (drop l xs) < ?n" using d(4) l by simp
  ultimately show ?thesis
    unfolding rb_rep_def Let_def using d(2) view tl len by simp
qed

lemma ring_buffer_read_ok:
  assumes holds: "rb_holds rb xs" and len: "len \<noteq> 0" "unat len \<le> length xs"
    and out: "unat len \<le> length out" and tid: "self env \<noteq> 0"
  shows "\<exists>rb'. ring_buffer_read env rb out len =
             Some (True, take (unat len) xs @ drop (unat len) out, env, rb') \<and>
           rb_holds rb' (drop (unat len) xs) \<and> rb_size rb' = rb_size rb"
proof -
  let ?rb = "rb\<lparr>rb_validator := (rb_validator rb)\<lparr>owner := self env\<rparr>\<rparr>"
    and ?mem = "wrap_write (rb_buffer rb) (unat (rb_head rb)) (replicate (unat len) poison)"
  have rep: "rb_rep ?rb xs" and idle: "owner (rb_validator rb) = 0"
    using holds by (simp_all add: rb_holds_def)
  obtain h where copy: "ring_buffer_copy_out ?rb out len True =
        Some (take (unat len) xs @ drop (unat len) out, ?rb\<lparr>rb_buffer := ?mem, rb_head := h\<rparr>)"
    and h: "unat h = (unat (rb_head rb) + unat len) mod unat (rb_size rb)"
    using ring_buffer_copy_out_wrap [OF rep len(2,1) out, of True] by auto
  have enough: "\<not> len > raw_ring_buffer_used rb"
    using raw_used_length [OF rep] len by (simp add: word_less_nat_alt)
  have pos: "0 < unat len" using len by (simp add: unat_gt_0)
  have new: "rb_rep (?rb\<lparr>rb_buffer := ?mem, rb_head := h, rb_full := False\<rparr>) (drop (unat len) xs)"
    using rb_rep_remove [OF rep pos len(2), of h] h by simp
  let ?rb' = "?rb\<lparr>rb_buffer := ?mem, rb_head := h, rb_full := False,
                  rb_validator := (rb_validator rb)\<lparr>owner := 0\<rparr>\<rparr>"
  have "ring_buffer_read env rb out len =
      Some (True, take (unat len) xs @ drop (unat len) out, env, ?rb')"
    using copy enough len idle by (simp add: ring_buffer_read_def ring_buffer_read_common_def)
  moreover have "rb_holds ?rb' (drop (unat len) xs)"
    using new unfolding rb_holds_def rb_rep_validator by simp
  ultimately show ?thesis by simp
qed

lemma reset_idle [simp]:
  "owner (rb_validator rb) = 0 \<Longrightarrow> rb\<lparr>rb_validator := (rb_validator rb)\<lparr>owner := 0\<rparr>\<rparr> = rb"
  by (cases rb; cases "rb_validator rb") simp

lemma ring_buffer_peek_ok:
  assumes holds: "rb_holds rb xs" and len: "len \<noteq> 0" "unat len \<le> length xs"
    and out: "unat len \<le> length out" and tid: "self env \<noteq> 0"
  shows "ring_buffer_peek env rb out len =
           Some (True, take (unat len) xs @ drop (unat len) out, env, rb)"
proof -
  let ?rb = "rb\<lparr>rb_validator := (rb_validator rb)\<lparr>owner := self env\<rparr>\<rparr>"
  have rep: "rb_rep ?rb xs" and idle: "owner (rb_validator rb) = 0"
    using holds by (simp_all add: rb_holds_def)
  have "ring_buffer_copy_out ?rb out len False =
        Some (take (unat len) xs @ drop (unat len) out, ?rb)"
    using ring_buffer_copy_out_wrap [OF rep len(2,1) out, of False] by auto
  moreover have "\<not> len > raw_ring_buffer_used rb"
    using raw_used_length [OF rep] len by (simp add: word_less_nat_alt)
  ultimately show ?thesis
    using len idle by (simp add: ring_buffer_peek_def ring_buffer_read_common_def)
qed

lemma ring_buffer_short:
  assumes holds: "rb_holds rb xs" and len: "length xs < unat len" and tid: "self env \<noteq> 0"
  shows "ring_buffer_read env rb out len = Some (False, out, env, rb)"
    and "ring_buffer_peek env rb out len = Some (False, out, env, rb)"
proof -
  have "len \<noteq> 0" using len by auto
  moreover have "len > raw_ring_buffer_used rb"
    using raw_used_length [of rb xs] holds len by (simp add: rb_holds_def word_less_nat_alt)
  ultimately show "ring_buffer_read env rb out len = Some (False, out, env, rb)"
    and "ring_buffer_peek env rb out len = Some (False, out, env, rb)"
    using holds
    by (simp_all add: ring_buffer_read_def ring_buffer_peek_def ring_buffer_read_common_def rb_holds_def)
qed

lemma ring_buffer_space:
  assumes "rb_holds rb xs"
  shows "ring_buffer_used env rb = (of_nat (length xs), env, rb)"
    and "ring_buffer_free env rb = (of_nat (unat (rb_size rb) - length xs), env, rb)"
proof -
  have rep: "rb_rep rb xs" and idle: "owner (rb_validator rb) = 0"
    using assms by (simp_all add: rb_holds_def)
  show "ring_buffer_used env rb = (of_nat (length xs), env, rb)"
    using idle by (simp add: ring_buffer_used_def flip: raw_used_length [OF rep])
  show "ring_buffer_free env rb = (of_nat (unat (rb_size rb) - length xs), env, rb)"
    using idle by (simp add: ring_buffer_free_def flip: raw_free_length [OF rep])
qed

lemma ring_buffer_init_ok:
  assumes "length mem = unat sz" "0 < sz" "sz < 2 ^ 63"
  shows "\<exists>rb'. ring_buffer_init env (Some mem) rb sz = Some (0, env, rb') \<and>
           rb_holds rb' [] \<and> rb_size rb' = sz"
  using assms
  by (simp add: ring_buffer_init_def mark_free_def mem_simps rb_holds_def rb_rep_def Let_def
      validator_init_def word_less_nat_alt)

section \<open>The ring buffer is a bounded FIFO of bytes\<close>

text \<open>A thread may use the buffer when it has a thread id (no \<open>pthread_t\<close> is 0).\<close>

definition has_tid :: "thread_env \<Rightarrow> bool" where
  "has_tid env \<longleftrightarrow> self env \<noteq> 0"

definition rb_capacity :: "ring_buffer \<Rightarrow> nat" where
  "rb_capacity rb = unat (rb_size rb)"

interpretation rb: byte_fifo rb_holds rb_capacity has_tid ring_buffer_used ring_buffer_free
  ring_buffer_write ring_buffer_read ring_buffer_peek
proof (unfold_locales, goal_cases)
  case (1 r xs)
  then show ?case by (auto simp: rb_holds_def rb_capacity_def dest: rb_repD(4))
next
  case (2 r xs)
  then show ?case by (auto simp: rb_holds_def rb_capacity_def dest: rb_repD(2))
next
  case (5 e r xs n src)
  then have "unat n \<le> unat (rb_size r) - length xs" by (simp add: rb_capacity_def)
  with 5 show ?case
    using ring_buffer_write_ok [of r xs n src e] by (auto simp: rb_capacity_def has_tid_def)
next
  case (6 e r xs n src)
  then have "unat (rb_size r) - length xs < unat n"
    using rb_repD(4) [of r xs] by (auto simp: rb_capacity_def rb_holds_def)
  with 6 show ?case
    using ring_buffer_write_full [of r xs n e src] by (auto simp: has_tid_def)
next
  case (7 e r xs n out)
  then show ?case
    using ring_buffer_read_ok [of r xs n out e] by (auto simp: rb_capacity_def has_tid_def)
qed (simp_all add: ring_buffer_space rb_capacity_def has_tid_def ring_buffer_peek_ok ring_buffer_short)

text \<open>
  A client's calls, in the order they are made, and what each gives back (\<open>None\<close> when the
  call returns \<open>false\<close>).  The specification keeps a plain list of at most \<open>cap\<close> bytes.
\<close>

datatype fifo_call = Put "u8 list" | Get nat | Peek nat

fun fifo_call_ok :: "fifo_call \<Rightarrow> bool" where
  "fifo_call_ok (Put bs) = (0 < length bs \<and> length bs < 2 ^ 63)"
| "fifo_call_ok (Get n) = (0 < n \<and> n < 2 ^ 63)"
| "fifo_call_ok (Peek n) = (0 < n \<and> n < 2 ^ 63)"

fun spec_call :: "nat \<Rightarrow> u8 list \<Rightarrow> fifo_call \<Rightarrow> u8 list option \<times> u8 list" where
  "spec_call cap xs (Put bs) =
     (if length xs + length bs \<le> cap then (Some [], xs @ bs) else (None, xs))"
| "spec_call cap xs (Get n) =
     (if n \<le> length xs then (Some (take n xs), drop n xs) else (None, xs))"
| "spec_call cap xs (Peek n) =
     (if n \<le> length xs then (Some (take n xs), xs) else (None, xs))"

fun spec_calls :: "nat \<Rightarrow> u8 list \<Rightarrow> fifo_call list \<Rightarrow> u8 list option list" where
  "spec_calls cap xs [] = []"
| "spec_calls cap xs (c # cs) =
     (let (r, xs') = spec_call cap xs c in r # spec_calls cap xs' cs)"

fun rb_call :: "thread_env \<Rightarrow> ring_buffer \<Rightarrow> fifo_call \<Rightarrow> (u8 list option \<times> thread_env \<times> ring_buffer) option" where
  "rb_call env rb (Put bs) = do {
     (ok, env', rb') \<leftarrow> ring_buffer_write env rb bs (of_nat (length bs));
     Some (if ok then Some [] else None, env', rb')
   }"
| "rb_call env rb (Get n) = do {
     (ok, out, env', rb') \<leftarrow> ring_buffer_read env rb (replicate n 0) (of_nat n);
     Some (if ok then Some out else None, env', rb')
   }"
| "rb_call env rb (Peek n) = do {
     (ok, out, env', rb') \<leftarrow> ring_buffer_peek env rb (replicate n 0) (of_nat n);
     Some (if ok then Some out else None, env', rb')
   }"

fun rb_calls :: "thread_env \<Rightarrow> ring_buffer \<Rightarrow> fifo_call list \<Rightarrow> u8 list option list option" where
  "rb_calls env rb [] = Some []"
| "rb_calls env rb (c # cs) = do {
     (r, env', rb') \<leftarrow> rb_call env rb c;
     rs \<leftarrow> rb_calls env' rb' cs;
     Some (r # rs)
   }"

lemma rb_call_spec:
  assumes "has_tid env" "rb_holds rb xs" "fifo_call_ok c"
  shows "\<exists>rb'. rb_call env rb c = Some (fst (spec_call (rb_capacity rb) xs c), env, rb') \<and>
           rb_holds rb' (snd (spec_call (rb_capacity rb) xs c)) \<and> rb_capacity rb' = rb_capacity rb"
proof (cases c)
  case (Put bs)
  then have n: "unat (of_nat (length bs) :: u64) = length bs" "(of_nat (length bs) :: u64) \<noteq> 0"
    using assms(3) of_nat_u64_pos [of "length bs"] by auto
  show ?thesis
  proof (cases "length xs + length bs \<le> rb_capacity rb")
    case True
    then show ?thesis
      using rb.put_ok [OF assms(1,2), of "of_nat (length bs)" bs] n Put assms(3) by auto
  next
    case False
    then show ?thesis
      using rb.put_full [OF assms(1,2), of "of_nat (length bs)" bs] n Put assms(2) by auto
  qed
next
  case (Get n)
  then have n: "unat (of_nat n :: u64) = n" "(of_nat n :: u64) \<noteq> 0"
    using assms(3) of_nat_u64_pos [of n] by auto
  show ?thesis
  proof (cases "n \<le> length xs")
    case True
    then show ?thesis
      using rb.get_ok [OF assms(1,2), of "of_nat n" "replicate n 0"] n Get assms(3) by auto
  next
    case False
    then show ?thesis
      using rb.get_short [OF assms(1,2), of "of_nat n" "replicate n 0"] n Get assms(2) by auto
  qed
next
  case (Peek n)
  then have n: "unat (of_nat n :: u64) = n" "(of_nat n :: u64) \<noteq> 0"
    using assms(3) of_nat_u64_pos [of n] by auto
  show ?thesis
  proof (cases "n \<le> length xs")
    case True
    then show ?thesis
      using rb.peek_ok [OF assms(1,2), of "of_nat n" "replicate n 0"] n Peek assms(2,3) by auto
  next
    case False
    then show ?thesis
      using rb.peek_short [OF assms(1,2), of "of_nat n" "replicate n 0"] n Peek assms(2) by auto
  qed
qed

lemma rb_calls_spec:
  assumes "has_tid env" "rb_holds rb xs" "\<forall>c \<in> set cs. fifo_call_ok c"
  shows "rb_calls env rb cs = Some (spec_calls (rb_capacity rb) xs cs)"
  using assms(2,3)
proof (induction cs arbitrary: rb xs)
  case (Cons c cs)
  obtain rb' where "rb_call env rb c = Some (fst (spec_call (rb_capacity rb) xs c), env, rb')"
    "rb_holds rb' (snd (spec_call (rb_capacity rb) xs c))" "rb_capacity rb' = rb_capacity rb"
    using rb_call_spec [OF assms(1) Cons.prems(1), of c] Cons.prems(2) by auto
  with Cons show ?case by (simp add: case_prod_beta)
qed simp

section \<open>Properties\<close>

definition blank_rb :: ring_buffer where
  "blank_rb = \<lparr>rb_buffer = [], rb_size = 0, rb_head = 0, rb_tail = 0, rb_full = False,
               rb_validator = \<lparr>vname = [], owner = 0\<rparr>\<rparr>"

text \<open>
  C1. From its initialisation on, a ring buffer of any size below \<open>2 ^ 63\<close> answers every
  sequence of write, read and peek calls exactly as a bounded FIFO list of bytes does,
  across any number of wrap-arounds; no assertion of the code (non-zero lengths, poisoned
  free bytes) fails and no access leaves the buffer.
\<close>

theorem ring_buffer_refines_fifo:
  assumes "length mem = unat sz" "0 < sz" "sz < 2 ^ 63" "has_tid env"
    and "\<forall>c \<in> set cs. fifo_call_ok c"
  shows "\<exists>rb'. ring_buffer_init env (Some mem) rb sz = Some (0, env, rb') \<and>
           rb_calls env rb' cs = Some (spec_calls (unat sz) [] cs)"
  using ring_buffer_init_ok [OF assms(1-3)] rb_calls_spec [OF assms(4) _ assms(5)]
  by (metis rb_capacity_def)

theorem ring_buffer_refines_fifo_witness:
  "\<exists>rb'. ring_buffer_init (fresh_env 7) (Some [9, 9, 9, 9]) blank_rb 4 = Some (0, fresh_env 7, rb') \<and>
     rb_calls (fresh_env 7) rb' [Put [1, 2, 3], Get 2, Put [4, 5, 6], Put [7], Peek 2, Get 4, Get 1] =
       Some [Some [], Some [1, 2], Some [], None, Some [3, 4], Some [3, 4, 5, 6], None]"
  using ring_buffer_refines_fifo
    [of "[9, 9, 9, 9]" 4 "fresh_env 7"
        "[Put [1, 2, 3], Get 2, Put [4, 5, 6], Put [7], Peek 2, Get 4, Get 1]" blank_rb]
  by (simp add: has_tid_def)

text \<open>
  A write into a ring buffer that holds \<open>xs\<close> appends the bytes and succeeds exactly when
  they fit; otherwise it returns false and changes nothing.  The freed bytes are still
  poisoned, the validator reports nothing.
\<close>

lemma ring_buffer_write_appends:
  assumes "rb_holds rb xs" "has_tid env" "n \<noteq> 0" "unat n \<le> length src"
  shows "if length xs + unat n \<le> rb_capacity rb
         then \<exists>rb'. ring_buffer_write env rb src n = Some (True, env, rb') \<and>
                rb_holds rb' (xs @ take (unat n) src) \<and> rb_capacity rb' = rb_capacity rb
         else ring_buffer_write env rb src n = Some (False, env, rb)"
  using rb.put_ok [OF assms(2,1,3,4)] rb.put_full [OF assms(2,1), of n src] by auto

text \<open>A full buffer of four bytes whose contents wrap around.\<close>

definition wrapped_rb :: ring_buffer where
  "wrapped_rb = \<lparr>rb_buffer = [2, poison, poison, 1], rb_size = 4, rb_head = 3, rb_tail = 1,
                 rb_full = False, rb_validator = \<lparr>vname = [], owner = 0\<rparr>\<rparr>"

lemma wrapped_rb_holds: "rb_holds wrapped_rb [1, 2]"
  by (simp add: rb_holds_def rb_rep_def wrapped_rb_def Let_def rotate_drop_take)
     (simp add: numeral_2_eq_2)

lemma ring_buffer_write_example:
  "(\<exists>rb'. ring_buffer_write (fresh_env 7) wrapped_rb [5, 6] 2 = Some (True, fresh_env 7, rb') \<and>
      rb_holds rb' [1, 2, 5, 6] \<and> rb_capacity rb' = 4) \<and>
   ring_buffer_write (fresh_env 7) wrapped_rb [5, 6, 7] 3 = Some (False, fresh_env 7, wrapped_rb)"
  using ring_buffer_write_appends [OF wrapped_rb_holds, of "fresh_env 7" 2 "[5, 6]"]
    ring_buffer_write_appends [OF wrapped_rb_holds, of "fresh_env 7" 3 "[5, 6, 7]"]
  by (simp add: has_tid_def rb_capacity_def wrapped_rb_def)

end
