(* ===== verification/Linked_List.thy ===== *)
theory Linked_List
  imports Mutex_Validator
begin

text \<open>
  The intrusive circular doubly-linked list (\<open>a2_message_queue/list.h\<close> and its plain
  variant \<open>list_2.h\<close>, which \<open>list_test.c\<close> uses).  List entries live in a heap; pointers
  are 64-bit words and 0 is \<open>NULL\<close>.  The relation \<open>dll\<close> abstracts the entries linked to a
  list head to the list of their addresses.
\<close>

section \<open>Entries in the heap\<close>

record list_entry =
  le_next :: u64
  le_prev :: u64

type_synonym heap = "u64 \<Rightarrow> list_entry option"

text \<open>Field access through a pointer; \<open>None\<close> when it does not point to an entry.\<close>

definition get_next :: "heap \<Rightarrow> u64 \<Rightarrow> u64 option" where
  "get_next h p = map_option le_next (h p)"

definition get_prev :: "heap \<Rightarrow> u64 \<Rightarrow> u64 option" where
  "get_prev h p = map_option le_prev (h p)"

definition set_next :: "heap \<Rightarrow> u64 \<Rightarrow> u64 \<Rightarrow> heap option" where
  "set_next h p x = (case h p of None \<Rightarrow> None | Some e \<Rightarrow> Some (h(p \<mapsto> e\<lparr>le_next := x\<rparr>)))"

definition set_prev :: "heap \<Rightarrow> u64 \<Rightarrow> u64 \<Rightarrow> heap option" where
  "set_prev h p x = (case h p of None \<Rightarrow> None | Some e \<Rightarrow> Some (h(p \<mapsto> e\<lparr>le_prev := x\<rparr>)))"

section \<open>The operations of list\_2.h\<close>

text \<open>A list head is the entry at the address \<open>l\<close>.\<close>

definition list_init2 :: "heap \<Rightarrow> u64 \<Rightarrow> heap option" where
  "list_init2 h l = do {
     h1 \<leftarrow> set_next h l l;
     set_prev h1 l l
   }"

definition list_entry_init :: "heap \<Rightarrow> u64 \<Rightarrow> heap option" where
  "list_entry_init h e = do {
     h1 \<leftarrow> set_next h e 0;
     set_prev h1 e 0
   }"

definition list_entry_is_linked :: "heap \<Rightarrow> u64 \<Rightarrow> bool option" where
  "list_entry_is_linked h e = do {
     n \<leftarrow> get_next h e;
     Some (n \<noteq> 0)
   }"

definition list_insert2 :: "heap \<Rightarrow> u64 \<Rightarrow> u64 \<Rightarrow> u64 \<Rightarrow> heap option" where
  "list_insert2 h e p n = do {
     h1 \<leftarrow> set_prev h n e;
     h2 \<leftarrow> set_next h1 e n;
     h3 \<leftarrow> set_prev h2 e p;
     set_next h3 p e
   }"

definition list_add_head2 :: "heap \<Rightarrow> u64 \<Rightarrow> u64 \<Rightarrow> heap option" where
  "list_add_head2 h l e = do {
     n \<leftarrow> get_next h l;
     list_insert2 h e l n
   }"

definition list_add_tail2 :: "heap \<Rightarrow> u64 \<Rightarrow> u64 \<Rightarrow> heap option" where
  "list_add_tail2 h l e = do {
     p \<leftarrow> get_prev h l;
     list_insert2 h e p l
   }"

text \<open>The two stores that take the entry out of its list.\<close>

definition list_unlink2 :: "heap \<Rightarrow> u64 \<Rightarrow> heap option" where
  "list_unlink2 h e = do {
     n \<leftarrow> get_next h e;
     p \<leftarrow> get_prev h e;
     h1 \<leftarrow> set_prev h n p;
     p1 \<leftarrow> get_prev h1 e;
     n1 \<leftarrow> get_next h1 e;
     set_next h1 p1 n1
   }"

definition list_del2 :: "heap \<Rightarrow> u64 \<Rightarrow> u64 \<Rightarrow> heap option" where
  "list_del2 h l e = do {
     h1 \<leftarrow> list_unlink2 h e;
     list_entry_init h1 e
   }"

text \<open>
  The cursor of \<open>list_for_each\<close>, from \<open>pos\<close> until it is back at the head: the entries
  it visits.  \<open>None\<close> when it meets an invalid pointer or never comes back.
\<close>

partial_function (option) list_for_each_from :: "heap \<Rightarrow> u64 \<Rightarrow> u64 \<Rightarrow> u64 list option" where
  "list_for_each_from h l pos =
     (if pos = l then Some []
      else do {
        n \<leftarrow> get_next h pos;
        rest \<leftarrow> list_for_each_from h l n;
        Some (pos # rest)
      })"

definition list_for_each2 :: "heap \<Rightarrow> u64 \<Rightarrow> u64 list option" where
  "list_for_each2 h l = do {
     pos \<leftarrow> get_next h l;
     list_for_each_from h l pos
   }"

section \<open>The operations of list.h: bracketed by the validator of the list head\<close>

record list_state =
  entries :: heap
  list_validator :: mutex_validator
  caller :: thread_env

definition enter_list :: "list_state \<Rightarrow> list_state" where
  "enter_list s = (let (env, v) = validator_enter (caller s) (list_validator s)
                   in s\<lparr>caller := env, list_validator := v\<rparr>)"

definition exit_list :: "list_state \<Rightarrow> list_state" where
  "exit_list s = (let (env, v) = validator_exit (caller s) (list_validator s)
                  in s\<lparr>caller := env, list_validator := v\<rparr>)"

definition list_init :: "list_state \<Rightarrow> u64 \<Rightarrow> list_state option" where
  "list_init s l = do {
     h1 \<leftarrow> set_next (entries s) l l;
     h2 \<leftarrow> set_prev h1 l l;
     Some (s\<lparr>entries := h2, list_validator := validator_init (list_validator s) ''list_head''\<rparr>)
   }"

definition list_destroy :: "list_state \<Rightarrow> unit option" where
  "list_destroy s = validator_destroy (list_validator s)"

definition list_insert :: "list_state \<Rightarrow> u64 \<Rightarrow> u64 \<Rightarrow> u64 \<Rightarrow> list_state option" where
  "list_insert s e p n = do {
     let s1 = enter_list s;
     h1 \<leftarrow> set_prev (entries s1) n e;
     h2 \<leftarrow> set_next h1 e n;
     h3 \<leftarrow> set_prev h2 e p;
     h4 \<leftarrow> set_next h3 p e;
     Some (exit_list (s1\<lparr>entries := h4\<rparr>))
   }"

definition list_add_head :: "list_state \<Rightarrow> u64 \<Rightarrow> u64 \<Rightarrow> list_state option" where
  "list_add_head s l e = do {
     n \<leftarrow> get_next (entries s) l;
     list_insert s e l n
   }"

definition list_add_tail :: "list_state \<Rightarrow> u64 \<Rightarrow> u64 \<Rightarrow> list_state option" where
  "list_add_tail s l e = do {
     p \<leftarrow> get_prev (entries s) l;
     list_insert s e p l
   }"

definition list_del :: "list_state \<Rightarrow> u64 \<Rightarrow> u64 \<Rightarrow> list_state option" where
  "list_del s l e = do {
     let s1 = enter_list s;
     h1 \<leftarrow> list_unlink2 (entries s1) e;
     let s2 = exit_list (s1\<lparr>entries := h1\<rparr>);
     h2 \<leftarrow> list_entry_init (entries s2) e;
     Some (s2\<lparr>entries := h2\<rparr>)
   }"

definition list_for_each :: "list_state \<Rightarrow> u64 \<Rightarrow> (u64 list \<times> list_state) option" where
  "list_for_each s l = do {
     let s1 = enter_list s;
     pos \<leftarrow> get_next (entries s1) l;
     visited \<leftarrow> list_for_each_from (entries s1) l pos;
     Some (visited, exit_list s1)
   }"

section \<open>Chains of entries\<close>

text \<open>What the stores do, in terms of the two maps \<open>get_next h\<close> and \<open>get_prev h\<close>.\<close>

lemma set_next_ok:
  "p \<in> dom h \<Longrightarrow> \<exists>h'. set_next h p x = Some h' \<and> get_next h' = (get_next h)(p \<mapsto> x) \<and>
     get_prev h' = get_prev h \<and> dom h' = dom h"
  by (cases "h p") (auto simp: set_next_def get_next_def get_prev_def fun_eq_iff split: if_splits intro!: exI [of _ "h(p \<mapsto> _)"])

lemma set_prev_ok:
  "p \<in> dom h \<Longrightarrow> \<exists>h'. set_prev h p x = Some h' \<and> get_prev h' = (get_prev h)(p \<mapsto> x) \<and>
     get_next h' = get_next h \<and> dom h' = dom h"
  by (cases "h p") (auto simp: set_prev_def get_next_def get_prev_def fun_eq_iff split: if_splits intro!: exI [of _ "h(p \<mapsto> _)"])

lemma get_in_dom: "get_next h p = Some x \<Longrightarrow> p \<in> dom h" "get_prev h p = Some x \<Longrightarrow> p \<in> dom h"
  by (auto simp: get_next_def get_prev_def)

lemma list_insert2_ok:
  assumes "e \<in> dom h" "p \<in> dom h" "n \<in> dom h"
  shows "\<exists>h'. list_insert2 h e p n = Some h' \<and> get_next h' = (get_next h)(e \<mapsto> n, p \<mapsto> e) \<and>
     get_prev h' = (get_prev h)(n \<mapsto> e, e \<mapsto> p) \<and> dom h' = dom h"
proof -
  obtain h1 where h1: "set_prev h n e = Some h1" "get_prev h1 = (get_prev h)(n \<mapsto> e)"
    "get_next h1 = get_next h" "dom h1 = dom h" using set_prev_ok assms by meson
  obtain h2 where h2: "set_next h1 e n = Some h2" "get_next h2 = (get_next h)(e \<mapsto> n)"
    "get_prev h2 = get_prev h1" "dom h2 = dom h" using set_next_ok [of e h1 n] assms h1 by auto
  obtain h3 where h3: "set_prev h2 e p = Some h3" "get_prev h3 = (get_prev h)(n \<mapsto> e, e \<mapsto> p)"
    "get_next h3 = get_next h2" "dom h3 = dom h" using set_prev_ok [of e h2 p] assms h1 h2 by auto
  obtain h4 where h4: "set_next h3 p e = Some h4" "get_next h4 = (get_next h)(e \<mapsto> n, p \<mapsto> e)"
    "get_prev h4 = get_prev h3" "dom h4 = dom h" using set_next_ok [of p h3 e] assms h2 h3 by auto
  from h1 h2 h3 h4 show ?thesis by (simp add: list_insert2_def)
qed

lemma list_entry_init_ok:
  assumes "e \<in> dom h"
  shows "\<exists>h'. list_entry_init h e = Some h' \<and> get_next h' = (get_next h)(e \<mapsto> 0) \<and>
     get_prev h' = (get_prev h)(e \<mapsto> 0) \<and> dom h' = dom h"
proof -
  obtain h1 where h1: "set_next h e 0 = Some h1" "get_next h1 = (get_next h)(e \<mapsto> 0)"
    "get_prev h1 = get_prev h" "dom h1 = dom h" using set_next_ok assms by meson
  obtain h2 where h2: "set_prev h1 e 0 = Some h2" "get_prev h2 = (get_prev h)(e \<mapsto> 0)"
    "get_next h2 = get_next h1" "dom h2 = dom h" using set_prev_ok [of e h1 0] assms h1 by auto
  from h1 h2 show ?thesis by (simp add: list_entry_init_def)
qed

lemma list_unlink2_ok:
  assumes "get_next h e = Some n" "get_prev h e = Some p" "n \<in> dom h" "p \<in> dom h" "n \<noteq> e" "p \<noteq> e"
  shows "\<exists>h'. list_unlink2 h e = Some h' \<and> get_next h' = (get_next h)(p \<mapsto> n) \<and>
     get_prev h' = (get_prev h)(n \<mapsto> p) \<and> dom h' = dom h"
proof -
  obtain h1 where h1: "set_prev h n p = Some h1" "get_prev h1 = (get_prev h)(n \<mapsto> p)"
    "get_next h1 = get_next h" "dom h1 = dom h" using set_prev_ok assms by meson
  obtain h2 where h2: "set_next h1 p n = Some h2" "get_next h2 = (get_next h)(p \<mapsto> n)"
    "get_prev h2 = get_prev h1" "dom h2 = dom h" using set_next_ok [of p h1 n] assms h1 by auto
  from assms h1 h2 show ?thesis by (simp add: list_unlink2_def)
qed

text \<open>
  \<open>chain nx pv a ys b\<close>: following \<open>next\<close> from \<open>a\<close> visits \<open>ys\<close> and then reaches \<open>b\<close>, and
  every \<open>prev\<close> pointer on the way leads back.  A list head is a chain from itself to itself.
\<close>

fun chain :: "(u64 \<Rightarrow> u64 option) \<Rightarrow> (u64 \<Rightarrow> u64 option) \<Rightarrow> u64 \<Rightarrow> u64 list \<Rightarrow> u64 \<Rightarrow> bool" where
  "chain nx pv a [] b = (nx a = Some b \<and> pv b = Some a)"
| "chain nx pv a (y # ys) b = (nx a = Some y \<and> pv y = Some a \<and> chain nx pv y ys b)"

definition dll :: "heap \<Rightarrow> u64 \<Rightarrow> u64 list \<Rightarrow> bool" where
  "dll h l xs \<longleftrightarrow> chain (get_next h) (get_prev h) l xs l \<and> distinct (l # xs) \<and> 0 \<notin> set (l # xs)"

lemma chain_append [simp]:
  "chain nx pv a (xs @ y # ys) b \<longleftrightarrow> chain nx pv a xs y \<and> chain nx pv y ys b"
  by (induction xs arbitrary: a) auto

lemma chain_cong:
  "chain nx pv a ys b \<Longrightarrow> (\<And>x. x \<in> set (a # ys) \<Longrightarrow> nx' x = nx x) \<Longrightarrow>
     (\<And>y. y \<in> set (ys @ [b]) \<Longrightarrow> pv' y = pv y) \<Longrightarrow> chain nx' pv' a ys b"
  by (induction ys arbitrary: a) auto

lemma chain_defined:
  assumes "chain nx pv a ys b" and "x \<in> set (a # ys)"
  shows "\<exists>n. nx x = Some n \<and> n \<in> set (ys @ [b])"
  using assms by (induction ys arbitrary: a) auto

lemma chain_defined_prev:
  assumes "chain nx pv a ys b" and "x \<in> set (ys @ [b])"
  shows "\<exists>p. pv x = Some p \<and> p \<in> set (a # ys)"
  using assms by (induction ys arbitrary: a) auto

lemma dll_in_dom: "dll h l xs \<Longrightarrow> x \<in> set (l # xs) \<Longrightarrow> x \<in> dom h"
  using chain_defined get_in_dom(1) by (fastforce simp: dll_def)

lemma chain_add_head:
  assumes "chain nx pv l xs l" "distinct (l # xs)" "e \<notin> set (l # xs)" "nx l = Some n"
  shows "chain (nx(e \<mapsto> n, l \<mapsto> e)) (pv(n \<mapsto> e, e \<mapsto> l)) l (e # xs) l"
proof (cases xs)
  case Nil
  with assms show ?thesis by auto
next
  case (Cons x xs')
  have x: "nx l = Some x" "pv x = Some l" "chain nx pv x xs' l" "x = n"
    using assms(1,4) Cons by auto
  have "chain (nx(e \<mapsto> n, l \<mapsto> e)) (pv(n \<mapsto> e, e \<mapsto> l)) x xs' l"
    using x(4) assms(2,3) Cons by (intro chain_cong [OF x(3)]) auto
  with Cons x(4) assms(2,3) show ?thesis by auto
qed

lemma chain_add_tail:
  assumes "chain nx pv l xs l" "distinct (l # xs)" "e \<notin> set (l # xs)" "pv l = Some p"
  shows "chain (nx(e \<mapsto> l, p \<mapsto> e)) (pv(l \<mapsto> e, e \<mapsto> p)) l (xs @ [e]) l"
proof (cases xs rule: rev_cases)
  case Nil
  with assms show ?thesis by auto
next
  case (snoc ys y)
  have y: "chain nx pv l ys y" "y = p"
    using assms(1,4) snoc by auto
  have "chain (nx(e \<mapsto> l, p \<mapsto> e)) (pv(l \<mapsto> e, e \<mapsto> p)) l ys y"
    using y(2) assms(2,3) snoc by (intro chain_cong [OF y(1)]) auto
  with snoc y(2) assms(2,3) show ?thesis by auto
qed

lemma chain_del:
  assumes "chain nx pv l (ys @ e # zs) l" "distinct (l # ys @ e # zs)" "nx e = Some n" "pv e = Some p"
  shows "chain (nx(p \<mapsto> n, e \<mapsto> 0)) (pv(n \<mapsto> p, e \<mapsto> 0)) l (ys @ zs) l"
proof -
  let ?nx = "nx(p \<mapsto> n, e \<mapsto> 0)" and ?pv = "pv(n \<mapsto> p, e \<mapsto> 0)"
  have left: "chain nx pv l ys e" and right: "chain nx pv e zs l"
    using assms(1) by simp_all
  have pre: "ys = [] \<and> p = l \<or> (\<exists>ys'. ys = ys' @ [p] \<and> chain ?nx ?pv l ys' p)"
  proof (cases ys rule: rev_cases)
    case (snoc ys' y)
    then have "y = p" using left assms(4) by simp
    moreover have "n \<notin> set ys'" "n \<noteq> p"
      using chain_defined [OF right, of e] assms(2,3) snoc \<open>y = p\<close> by auto
    ultimately show ?thesis
      using snoc left assms(2) by (auto intro!: chain_cong [of nx pv l ys' p])
  qed (use left assms(4) in auto)
  have post: "zs = [] \<and> n = l \<or> (\<exists>zs'. zs = n # zs' \<and> chain ?nx ?pv n zs' l)"
  proof (cases zs)
    case (Cons z zs')
    then have "z = n" using right assms(3) by simp
    moreover have "p \<notin> set zs'" "p \<noteq> n"
      using chain_defined_prev [OF left, of e] assms(2,4) Cons \<open>z = n\<close> by auto
    ultimately show ?thesis
      using Cons right assms(2) by (auto intro!: chain_cong [of nx pv n zs' l])
  qed (use right assms(3) in auto)
  from pre post assms(2) show ?thesis by auto
qed

lemma list_for_each_from_chain:
  "chain (get_next h) pv a ys l \<Longrightarrow> l \<notin> set ys \<Longrightarrow>
     (case get_next h a of None \<Rightarrow> None | Some pos \<Rightarrow> list_for_each_from h l pos) = Some ys"
proof (induction ys arbitrary: a)
  case Nil
  then show ?case by (simp add: list_for_each_from.simps)
next
  case (Cons y ys)
  then have "y \<noteq> l" "get_next h a = Some y" "chain (get_next h) pv y ys l" by auto
  with Cons.IH [of y] Cons.prems(2) show ?case
    by (auto simp: list_for_each_from.simps [of h l y] split: option.splits)
qed

section \<open>Lists of entries\<close>

lemma list_init2_dll:
  assumes "l \<in> dom h" "l \<noteq> 0"
  shows "\<exists>h'. list_init2 h l = Some h' \<and> dll h' l [] \<and> dom h' = dom h"
proof -
  obtain h1 where h1: "set_next h l l = Some h1" "get_next h1 = (get_next h)(l \<mapsto> l)" "dom h1 = dom h"
    using set_next_ok assms by meson
  obtain h2 where h2: "set_prev h1 l l = Some h2" "get_prev h2 = (get_prev h1)(l \<mapsto> l)"
    "get_next h2 = get_next h1" "dom h2 = dom h" using set_prev_ok [of l h1 l] assms h1 by auto
  from h1 h2 assms show ?thesis by (simp add: list_init2_def dll_def)
qed

lemma list_add_head2_dll:
  assumes "dll h l xs" "e \<in> dom h" "e \<noteq> 0" "e \<notin> set (l # xs)"
  shows "\<exists>h'. list_add_head2 h l e = Some h' \<and> dll h' l (e # xs) \<and> dom h' = dom h"
proof -
  have ch: "chain (get_next h) (get_prev h) l xs l" using assms(1) by (simp add: dll_def)
  obtain n where n: "get_next h l = Some n" "n \<in> set (xs @ [l])"
    using chain_defined [OF ch, of l] by auto
  have "l \<in> dom h" "n \<in> dom h"
    using n dll_in_dom [OF assms(1)] by auto
  with list_insert2_ok [OF assms(2), of l n] n(1) chain_add_head [OF ch, of e n] assms
  show ?thesis by (auto simp: list_add_head2_def dll_def)
qed

lemma list_add_tail2_dll:
  assumes "dll h l xs" "e \<in> dom h" "e \<noteq> 0" "e \<notin> set (l # xs)"
  shows "\<exists>h'. list_add_tail2 h l e = Some h' \<and> dll h' l (xs @ [e]) \<and> dom h' = dom h"
proof -
  have ch: "chain (get_next h) (get_prev h) l xs l" using assms(1) by (simp add: dll_def)
  obtain p where p: "get_prev h l = Some p" "p \<in> set (l # xs)"
    using chain_defined_prev [OF ch, of l] by auto
  have "l \<in> dom h" "p \<in> dom h"
    using p dll_in_dom [OF assms(1)] by auto
  with list_insert2_ok [OF assms(2), of p l] p(1) chain_add_tail [OF ch, of e p] assms
  show ?thesis by (auto simp: list_add_tail2_def dll_def)
qed

lemma list_del2_dll:
  assumes "dll h l xs" "e \<in> set xs"
  shows "\<exists>h1 h'. list_unlink2 h e = Some h1 \<and> list_entry_init h1 e = Some h' \<and>
           dll h' l (remove1 e xs) \<and> list_entry_is_linked h' e = Some False \<and> dom h' = dom h"
proof -
  obtain ys zs where xs: "xs = ys @ e # zs" using assms(2) by (auto dest: split_list)
  have ch: "chain (get_next h) (get_prev h) l (ys @ e # zs) l" and dist: "distinct (l # ys @ e # zs)"
    using assms(1) xs by (simp_all add: dll_def)
  obtain n where n: "get_next h e = Some n" "n \<in> set (zs @ [l])"
    using chain_defined [of "get_next h" "get_prev h" e zs l e] ch by auto
  obtain p where p: "get_prev h e = Some p" "p \<in> set (l # ys)"
    using chain_defined_prev [of "get_next h" "get_prev h" l ys e e] ch by auto
  have side: "n \<in> dom h" "p \<in> dom h" "n \<noteq> e" "p \<noteq> e" "e \<in> dom h"
    using n p dist xs dll_in_dom [OF assms(1)] assms(2) by auto
  obtain h1 where h1: "list_unlink2 h e = Some h1" "get_next h1 = (get_next h)(p \<mapsto> n)"
    "get_prev h1 = (get_prev h)(n \<mapsto> p)" "dom h1 = dom h"
    using list_unlink2_ok [OF n(1) p(1) side(1-4)] by auto
  obtain h2 where h2: "list_entry_init h1 e = Some h2" "get_next h2 = (get_next h1)(e \<mapsto> 0)"
    "get_prev h2 = (get_prev h1)(e \<mapsto> 0)" "dom h2 = dom h"
    using list_entry_init_ok [of e h1] side(5) h1(4) by auto
  have "remove1 e xs = ys @ zs" using dist xs by (simp add: remove1_append)
  then have "dll h2 l (remove1 e xs)"
    using chain_del [OF ch dist n(1) p(1)] h1 h2 assms(1) xs by (simp add: dll_def)
  with h1 h2 show ?thesis by (simp add: list_entry_is_linked_def)
qed

lemma list_for_each2_dll: "dll h l xs \<Longrightarrow> list_for_each2 h l = Some xs"
  using list_for_each_from_chain [of h "get_prev h" l xs l]
  by (auto simp: dll_def list_for_each2_def split: option.splits)

lemma list_entry_is_linked_dll: "dll h l xs \<Longrightarrow> e \<in> set xs \<Longrightarrow> list_entry_is_linked h e = Some True"
  using chain_defined [of "get_next h" "get_prev h" l xs l e]
  by (auto simp: dll_def list_entry_is_linked_def)

section \<open>The interface of a list of entries\<close>

text \<open>
  What \<open>msg_queue_poll\<close> relies on: \<open>rep s l xs\<close> says that the list with head \<open>l\<close> has
  the entries \<open>xs\<close>, \<open>usable s e\<close> that \<open>e\<close> points to an entry.
\<close>

locale entry_list =
  fixes rep :: "'s \<Rightarrow> u64 \<Rightarrow> u64 list \<Rightarrow> bool"
    and usable :: "'s \<Rightarrow> u64 \<Rightarrow> bool"
    and add_head :: "'s \<Rightarrow> u64 \<Rightarrow> u64 \<Rightarrow> 's option"
    and add_tail :: "'s \<Rightarrow> u64 \<Rightarrow> u64 \<Rightarrow> 's option"
    and del :: "'s \<Rightarrow> u64 \<Rightarrow> u64 \<Rightarrow> 's option"
    and linked :: "'s \<Rightarrow> u64 \<Rightarrow> bool option"
    and visit :: "'s \<Rightarrow> u64 \<Rightarrow> (u64 list \<times> 's) option"
  assumes rep_distinct: "rep s l xs \<Longrightarrow> distinct (l # xs)"
    and add_head: "rep s l xs \<Longrightarrow> usable s e \<Longrightarrow> e \<notin> set (l # xs) \<Longrightarrow>
          \<exists>s'. add_head s l e = Some s' \<and> rep s' l (e # xs) \<and> usable s' = usable s"
    and add_tail: "rep s l xs \<Longrightarrow> usable s e \<Longrightarrow> e \<notin> set (l # xs) \<Longrightarrow>
          \<exists>s'. add_tail s l e = Some s' \<and> rep s' l (xs @ [e]) \<and> usable s' = usable s"
    and del: "rep s l xs \<Longrightarrow> e \<in> set xs \<Longrightarrow>
          \<exists>s'. del s l e = Some s' \<and> rep s' l (remove1 e xs) \<and> linked s' e = Some False \<and>
               usable s' = usable s"
    and linked: "rep s l xs \<Longrightarrow> e \<in> set xs \<Longrightarrow> linked s e = Some True"
    and visit: "rep s l xs \<Longrightarrow> visit s l = Some (xs, s)"
begin

text \<open>Registering an entry at the tail and removing it later leaves the list as it was, whatever
  was registered in between.\<close>

lemma register_unregister:
  assumes "rep s l xs" "usable s e" "e \<notin> set (l # xs)"
  shows "\<exists>s1 s2. add_tail s l e = Some s1 \<and> visit s1 l = Some (xs @ [e], s1) \<and>
           del s1 l e = Some s2 \<and> visit s2 l = Some (xs, s2) \<and> rep s2 l xs"
proof -
  obtain s1 where s1: "add_tail s l e = Some s1" "rep s1 l (xs @ [e])"
    using add_tail [OF assms] by auto
  obtain s2 where s2: "del s1 l e = Some s2" "rep s2 l (remove1 e (xs @ [e]))"
    using del [OF s1(2), of e] by auto
  have "remove1 e (xs @ [e]) = xs" using assms(3) by (simp add: remove1_append)
  with s1 s2 visit [OF s1(2)] visit [of s2 l xs] show ?thesis by simp
qed

lemma add_both_ends:
  assumes "rep s l []" "usable s a" "usable s b" "distinct [l, a, b]"
  shows "\<exists>s1 s2. add_tail s l a = Some s1 \<and> add_head s1 l b = Some s2 \<and> visit s2 l = Some ([b, a], s2)"
proof -
  obtain s1 where s1: "add_tail s l a = Some s1" "rep s1 l [a]" "usable s1 = usable s"
    using add_tail [OF assms(1,2)] assms(4) by auto
  obtain s2 where s2: "add_head s1 l b = Some s2" "rep s2 l [b, a]"
    using add_head [OF s1(2), of b] assms(3,4) s1(3) by auto
  from s1 s2 visit show ?thesis by blast
qed

end

definition entry_in :: "heap \<Rightarrow> u64 \<Rightarrow> bool" where
  "entry_in h e \<longleftrightarrow> e \<in> dom h \<and> e \<noteq> 0"

lemma entry_in_cong: "dom h' = dom h \<Longrightarrow> entry_in h' = entry_in h"
  by (simp add: entry_in_def fun_eq_iff)

interpretation plain: entry_list dll entry_in list_add_head2 list_add_tail2 list_del2
  list_entry_is_linked "\<lambda>h l. map_option (\<lambda>xs. (xs, h)) (list_for_each2 h l)"
proof (unfold_locales, goal_cases)
  case (2 h l xs e)
  then show ?case
    using list_add_head2_dll [of h l xs e] by (auto simp: entry_in_def dest: entry_in_cong)
next
  case (3 h l xs e)
  then show ?case
    using list_add_tail2_dll [of h l xs e] by (auto simp: entry_in_def dest: entry_in_cong)
next
  case (4 h l xs e)
  then show ?case
    using list_del2_dll [of h l xs e] by (auto simp: list_del2_def dest: entry_in_cong)
qed (auto simp: list_for_each2_dll list_entry_is_linked_dll dll_def)

text \<open>The same for \<open>list.h\<close>: called by a thread with an id, the validator unoccupied.\<close>

definition list_rep :: "list_state \<Rightarrow> u64 \<Rightarrow> u64 list \<Rightarrow> bool" where
  "list_rep s l xs \<longleftrightarrow> dll (entries s) l xs \<and> owner (list_validator s) = 0 \<and> self (caller s) \<noteq> 0"

lemma exit_enter_list:
  assumes "owner (list_validator s) = 0"
  shows "entries (enter_list s) = entries s"
    and "exit_list ((enter_list s)\<lparr>entries := h\<rparr>) = s\<lparr>entries := h\<rparr>"
    and "exit_list (enter_list s) = s"
  using assms by (cases s; cases "list_validator s"; simp add: enter_list_def exit_list_def)+

lemma list_insert_raw:
  assumes "owner (list_validator s) = 0"
  shows "list_insert s e p n = map_option (\<lambda>h. s\<lparr>entries := h\<rparr>) (list_insert2 (entries s) e p n)"
  using exit_enter_list [OF assms]
  by (simp add: list_insert_def list_insert2_def Let_def map_conv_bind_option comp_def)

lemma list_state_frame [simp]:
  "list_validator (s\<lparr>entries := h\<rparr>) = list_validator s" "caller (s\<lparr>entries := h\<rparr>) = caller s"
  by simp_all

interpretation guarded: entry_list list_rep "\<lambda>s. entry_in (entries s)" list_add_head list_add_tail
  list_del "\<lambda>s. list_entry_is_linked (entries s)" list_for_each
proof (unfold_locales, goal_cases)
  case (2 s l xs e)
  then show ?case
    using plain.add_head [of "entries s" l xs e]
    by (auto simp: list_rep_def list_add_head_def list_add_head2_def list_insert_raw split: bind_splits)
next
  case (3 s l xs e)
  then show ?case
    using plain.add_tail [of "entries s" l xs e]
    by (auto simp: list_rep_def list_add_tail_def list_add_tail2_def list_insert_raw split: bind_splits)
next
  case (4 s l xs e)
  then obtain h1 h' where "list_unlink2 (entries s) e = Some h1" "list_entry_init h1 e = Some h'"
    "dll h' l (remove1 e xs)" "list_entry_is_linked h' e = Some False" "dom h' = dom (entries s)"
    using list_del2_dll [of "entries s" l xs e] by (auto simp: list_rep_def)
  with 4 show ?case
    by (auto simp: list_del_def list_rep_def exit_enter_list dest: entry_in_cong)
next
  case (6 s l xs)
  then show ?case
    using list_for_each2_dll [of "entries s" l xs]
    by (auto simp: list_for_each_def list_for_each2_def list_rep_def exit_enter_list Let_def split: bind_splits)
qed (auto simp: list_rep_def list_entry_is_linked_dll dll_def)

section \<open>Sequences of operations\<close>

datatype list_op = AddHead u64 | AddTail u64 | Del u64

fun list_call :: "list_state \<Rightarrow> u64 \<Rightarrow> list_op \<Rightarrow> list_state option" where
  "list_call s l (AddHead e) = list_add_head s l e"
| "list_call s l (AddTail e) = list_add_tail s l e"
| "list_call s l (Del e) = list_del s l e"

fun list_calls :: "list_state \<Rightarrow> u64 \<Rightarrow> list_op list \<Rightarrow> list_state option" where
  "list_calls s l [] = Some s"
| "list_calls s l (c # cs) = do { s' \<leftarrow> list_call s l c; list_calls s' l cs }"

text \<open>The specification on plain lists, and the calls that a client may make: it adds entries
  that are not linked and removes entries that are.\<close>

fun spec_list_call :: "u64 list \<Rightarrow> list_op \<Rightarrow> u64 list" where
  "spec_list_call xs (AddHead e) = e # xs"
| "spec_list_call xs (AddTail e) = xs @ [e]"
| "spec_list_call xs (Del e) = remove1 e xs"

fun list_call_ok :: "(u64 \<Rightarrow> bool) \<Rightarrow> u64 \<Rightarrow> u64 list \<Rightarrow> list_op \<Rightarrow> bool" where
  "list_call_ok entry l xs (AddHead e) = (entry e \<and> e \<notin> set (l # xs))"
| "list_call_ok entry l xs (AddTail e) = (entry e \<and> e \<notin> set (l # xs))"
| "list_call_ok entry l xs (Del e) = (e \<in> set xs)"

fun list_calls_ok :: "(u64 \<Rightarrow> bool) \<Rightarrow> u64 \<Rightarrow> u64 list \<Rightarrow> list_op list \<Rightarrow> bool" where
  "list_calls_ok entry l xs [] = True"
| "list_calls_ok entry l xs (c # cs) =
     (list_call_ok entry l xs c \<and> list_calls_ok entry l (spec_list_call xs c) cs)"

lemma list_calls_rep:
  assumes "list_rep s l xs" "list_calls_ok (entry_in (entries s)) l xs cs"
  shows "\<exists>s'. list_calls s l cs = Some s' \<and> list_rep s' l (foldl spec_list_call xs cs)"
  using assms
proof (induction cs arbitrary: s xs)
  case (Cons c cs)
  obtain s1 where s1: "list_call s l c = Some s1" "list_rep s1 l (spec_list_call xs c)"
    "entry_in (entries s1) = entry_in (entries s)"
    using Cons.prems guarded.add_head [of s l xs] guarded.add_tail [of s l xs] guarded.del [of s l xs]
    by (cases c) force+
  with Cons show ?case by auto
qed simp

lemma list_init_rep:
  assumes "entry_in (entries s) l" "self (caller s) \<noteq> 0"
  shows "\<exists>s'. list_init s l = Some s' \<and> list_rep s' l [] \<and> caller s' = caller s \<and>
           entry_in (entries s') = entry_in (entries s)"
proof -
  obtain h' where "list_init2 (entries s) l = Some h'" "dll h' l []" "dom h' = dom (entries s)"
    using list_init2_dll [of l "entries s"] assms(1) by (auto simp: entry_in_def)
  with assms(2) show ?thesis
    by (auto simp: list_init_def list_init2_def list_rep_def validator_init_def
        split: bind_splits dest: entry_in_cong)
qed

section \<open>The list test program\<close>

text \<open>
  \<open>main\<close> of \<open>list_test.c\<close>: the addresses of the list head and of the entries inside the
  two nodes, and the values it prints.  \<open>container_of\<close> leads from an entry to the \<open>data\<close>
  of its node.
\<close>

definition list_test_main :: "heap \<Rightarrow> u64 \<Rightarrow> u64 \<Rightarrow> u64 \<Rightarrow> int list option" where
  "list_test_main h a_list n1 n2 = do {
     h1 \<leftarrow> list_init2 h a_list;
     let data = (\<lambda>_. 0)(n1 := (10 :: int));
     h2 \<leftarrow> list_entry_init h1 n1;
     let data = data(n2 := 20);
     h3 \<leftarrow> list_entry_init h2 n1;
     h4 \<leftarrow> list_add_tail2 h3 a_list n1;
     h5 \<leftarrow> list_add_head2 h4 a_list n2;
     visited \<leftarrow> list_for_each2 h5 a_list;
     Some (map data visited)
   }"

lemma list_entry_init_other:
  assumes "dll h l []" "entry_in h e" "e \<noteq> l"
  shows "\<exists>h'. list_entry_init h e = Some h' \<and> dll h' l [] \<and> entry_in h' = entry_in h"
  using list_entry_init_ok [of e h] assms
  by (auto simp: entry_in_def [of h e] dll_def dest: entry_in_cong)

section \<open>Properties\<close>

text \<open>
  C11. Starting from \<open>list_init\<close>, every sequence of \<open>list_add_head\<close>, \<open>list_add_tail\<close> and
  \<open>list_del\<close> calls (adding entries that are not linked, removing linked ones) succeeds, and
  \<open>list_for_each\<close> then terminates and visits exactly the entries that the same operations
  on a plain list leave, in that order, without a validator report.
\<close>

theorem list_refines_plain_list:
  assumes "entry_in (entries s) l" "self (caller s) \<noteq> 0"
    and "list_calls_ok (entry_in (entries s)) l [] cs"
  shows "\<exists>s0 s'. list_init s l = Some s0 \<and> list_calls s0 l cs = Some s' \<and>
           list_for_each s' l = Some (foldl spec_list_call [] cs, s')"
proof -
  obtain s0 where s0: "list_init s l = Some s0" "list_rep s0 l []"
    "entry_in (entries s0) = entry_in (entries s)"
    using list_init_rep [OF assms(1,2)] by auto
  obtain s' where s': "list_calls s0 l cs = Some s'" "list_rep s' l (foldl spec_list_call [] cs)"
    using list_calls_rep [OF s0(2)] assms(3) s0(3) by auto
  from s0(1) s'(1) guarded.visit [OF s'(2)] show ?thesis by simp
qed

theorem list_refines_plain_list_witness:
  "\<exists>s0 s'. list_init \<lparr>entries = (\<lambda>_. Some \<lparr>le_next = 0, le_prev = 0\<rparr>),
                      list_validator = \<lparr>vname = [], owner = 0\<rparr>, caller = fresh_env 7\<rparr> 64 = Some s0 \<and>
     list_calls s0 64 [AddTail 80, AddTail 96, AddHead 112, Del 96, AddTail 128] = Some s' \<and>
     list_for_each s' 64 = Some ([112, 80, 128], s')"
  using list_refines_plain_list
    [of "\<lparr>entries = (\<lambda>_. Some \<lparr>le_next = 0, le_prev = 0\<rparr>),
          list_validator = \<lparr>vname = [], owner = 0\<rparr>, caller = fresh_env 7\<rparr>" 64
        "[AddTail 80, AddTail 96, AddHead 112, Del 96, AddTail 128]"]
  by (simp add: entry_in_def dom_def)

text \<open>One step of the cursor along the \<open>next\<close> pointers.\<close>

definition cursor_step :: "heap \<Rightarrow> u64 option \<Rightarrow> u64 option" where
  "cursor_step h p = Option.bind p (get_next h)"

lemma cursor_steps_None [simp]: "(cursor_step h ^^ k) None = None"
  by (induction k) (simp_all add: cursor_step_def)

lemma cursor_steps_Suc: "(cursor_step h ^^ Suc k) (Some pos) = (cursor_step h ^^ k) (get_next h pos)"
  by (simp add: funpow_swap1 cursor_step_def)

lemma list_for_each_from_reaches:
  "list_for_each_from h l pos = Some xs \<Longrightarrow> (cursor_step h ^^ length xs) (Some pos) = Some l"
proof (erule list_for_each_from.raw_induct [rotated])
  fix each :: "heap \<Rightarrow> u64 \<Rightarrow> u64 \<Rightarrow> u64 list option" and h l pos xs
  assume "\<And>h l pos xs. each h l pos = Some xs \<Longrightarrow> (cursor_step h ^^ length xs) (Some pos) = Some l"
    "(if pos = l then Some [] else get_next h pos \<bind> (\<lambda>n. each h l n \<bind> (\<lambda>rest. Some (pos # rest)))) = Some xs"
  then show "(cursor_step h ^^ length xs) (Some pos) = Some l"
    by (auto simp: cursor_steps_Suc bind_eq_Some_conv simp del: funpow.simps(2) split: if_splits)
qed

lemma list_for_each_from_returns:
  "(cursor_step h ^^ k) (Some pos) = Some l \<Longrightarrow> \<exists>xs. list_for_each_from h l pos = Some xs"
proof (induction k arbitrary: pos)
  case 0
  then show ?case by (simp add: list_for_each_from.simps)
next
  case (Suc k)
  then obtain n where n: "get_next h pos = Some n" "(cursor_step h ^^ k) (Some n) = Some l"
    unfolding cursor_steps_Suc by (cases "get_next h pos") auto
  from Suc.IH [OF n(2)] n(1) show ?case by (auto simp: list_for_each_from.simps [of h l pos])
qed

text \<open>
  Termination of \<open>list_for_each\<close>.  The loop returns exactly when following \<open>next\<close> from the
  cursor reaches the head after some number of steps; it then visits as many entries.  In
  particular it returns on every well-formed list, with the list's entries, and it never
  returns from an entry that points to itself.
\<close>

lemma list_for_each_terminates:
  "((\<exists>xs. list_for_each_from h l pos = Some xs) \<longleftrightarrow> (\<exists>k. (cursor_step h ^^ k) (Some pos) = Some l)) \<and>
   (list_for_each_from h l pos = Some ys \<longrightarrow> (cursor_step h ^^ length ys) (Some pos) = Some l) \<and>
   (dll h l zs \<longrightarrow> list_for_each2 h l = Some zs) \<and>
   (get_next h pos = Some pos \<and> pos \<noteq> l \<longrightarrow> list_for_each_from h l pos = None)"
proof -
  have "(cursor_step h ^^ k) (Some pos) = Some pos" if "get_next h pos = Some pos" for k
    using that by (induction k) (simp_all add: cursor_step_def)
  then show ?thesis
    using list_for_each_from_reaches [of h l pos] list_for_each_from_returns [of _ h pos l] list_for_each2_dll [of h l zs]
    by (metis option.exhaust option.inject)
qed

lemma list_for_each_example:
  "list_for_each_from (\<lambda>_. Some \<lparr>le_next = 16, le_prev = 16\<rparr>) 8 16 = None \<and>
   list_for_each2 [8 \<mapsto> \<lparr>le_next = 16, le_prev = 16\<rparr>, 16 \<mapsto> \<lparr>le_next = 8, le_prev = 8\<rparr>] 8 = Some [16]"
  using list_for_each_terminates [of "\<lambda>_. Some \<lparr>le_next = 16, le_prev = 16\<rparr>" 8 16]
    list_for_each_terminates [of "[8 \<mapsto> \<lparr>le_next = 16, le_prev = 16\<rparr>, 16 \<mapsto> \<lparr>le_next = 8, le_prev = 8\<rparr>]" 8 _ _ "[16]"]
  by (simp add: dll_def get_next_def get_prev_def)

text \<open>
  The test program \<open>list_test.c\<close> prints 20 and then 10, wherever its three objects lie
  on the stack.
\<close>

lemma list_test_prints:
  assumes "entry_in h a_list" "entry_in h n1" "entry_in h n2" "distinct [a_list, n1, n2]"
  shows "list_test_main h a_list n1 n2 = Some [20, 10]"
proof -
  obtain h1 where h1: "list_init2 h a_list = Some h1" "dll h1 a_list []" "entry_in h1 = entry_in h"
    using list_init2_dll [of a_list h] assms(1) by (auto simp: entry_in_def dest: entry_in_cong)
  obtain h2 where h2: "list_entry_init h1 n1 = Some h2" "dll h2 a_list []" "entry_in h2 = entry_in h"
    using list_entry_init_other [OF h1(2), of n1] h1(3) assms by auto
  obtain h3 where h3: "list_entry_init h2 n1 = Some h3" "dll h3 a_list []" "entry_in h3 = entry_in h"
    using list_entry_init_other [OF h2(2), of n1] h2(3) assms by auto
  obtain h4 h5 where h45: "list_add_tail2 h3 a_list n1 = Some h4" "list_add_head2 h4 a_list n2 = Some h5"
    "list_for_each2 h5 a_list = Some [n2, n1]"
    using plain.add_both_ends [OF h3(2), of n1 n2] h3(3) assms by auto
  show ?thesis
    using h1(1) h2(1) h3(1) h45 assms(4) by (simp add: list_test_main_def)
qed

lemma list_test_prints_example:
  "list_test_main (\<lambda>_. Some \<lparr>le_next = 0, le_prev = 0\<rparr>) 16 32 48 = Some [20, 10]"
  by (rule list_test_prints) (simp_all add: entry_in_def dom_def)

end
