(* ===== verification/Msg_Queue.thy ===== *)
theory Msg_Queue
  imports Sync Ring_Buffer Linked_List
begin

text \<open>
  The message queue (\<open>a2_message_queue/msg_queue.c\<close>): handles, opening and closing,
  reading and writing whole messages.  A call runs up to the point where it returns or
  goes to sleep in \<open>cond_wait\<close>; a sleeping call goes on with the loop it slept in
  (\<open>read_resume\<close>, \<open>write_resume\<close>).  The relation \<open>mq_holds\<close> links the backend to the
  list of messages in it; the operations are specified on that list.
\<close>

section \<open>Constants, backend and state\<close>

abbreviation (input) MSG_QUEUE_NULL :: u64 where "MSG_QUEUE_NULL \<equiv> 0"
abbreviation (input) MSG_QUEUE_READER :: u32 where "MSG_QUEUE_READER \<equiv> 1"
abbreviation (input) MSG_QUEUE_WRITER :: u32 where "MSG_QUEUE_WRITER \<equiv> 2"
abbreviation (input) MSG_QUEUE_NONBLOCK :: u32 where "MSG_QUEUE_NONBLOCK \<equiv> 4"
abbreviation (input) MQPOLL_READABLE :: u32 where "MQPOLL_READABLE \<equiv> 1"
abbreviation (input) MQPOLL_WRITABLE :: u32 where "MQPOLL_WRITABLE \<equiv> 2"
abbreviation (input) MQPOLL_NOREADERS :: u32 where "MQPOLL_NOREADERS \<equiv> 4"
abbreviation (input) MQPOLL_NOWRITERS :: u32 where "MQPOLL_NOWRITERS \<equiv> 8"

definition ALL_FLAGS :: u32 where
  "ALL_FLAGS = MSG_QUEUE_READER OR MSG_QUEUE_WRITER OR MSG_QUEUE_NONBLOCK"

text \<open>
  A node of a poller.  Its \<open>entry\<close> member is the list entry in the heap, at whose address
  the node is filed (\<open>container_of\<close> is a fixed offset).  A synchronisation object that has
  not been initialised is \<open>None\<close>: using it is undefined.
\<close>

record waiting_node =
  is_ready :: "cond_t option"
  poll_mutex :: "mutex_t option"
  wn_events :: u32

text \<open>\<open>mq_list_head\<close> is the address of the member \<open>queue_list_head\<close> and
  \<open>mq_list_validator\<close> the validator inside it.\<close>

record mq_backend =
  mq_buffer :: ring_buffer
  refs :: u64
  readers :: u64
  writers :: u64
  no_readers :: bool
  no_writers :: bool
  mq_mutex :: mutex_t
  space_full :: cond_t
  space_empty :: cond_t
  queue_event :: u32
  mq_list_head :: u64
  mq_list_validator :: mutex_validator

text \<open>What a call works on: the calling thread, one backend, and the pollers' nodes.\<close>

record queue_state =
  q_env :: thread_env
  q_mq :: mq_backend
  q_heap :: heap
  q_nodes :: "u64 \<Rightarrow> waiting_node option"

text \<open>What the C standard and POSIX leave open during a call: which waiting thread a signal
  wakes, and the initial contents of an uninitialised \<open>size_t\<close> on the stack.\<close>

record chance =
  ch_pick :: nat
  ch_stack :: u64

text \<open>A call has returned a value, or its thread sleeps in \<open>cond_wait\<close>.\<close>

datatype 'r outcome = Returned 'r | Sleeping

definition set_errno :: "int \<Rightarrow> queue_state \<Rightarrow> queue_state" where
  "set_errno e s = s\<lparr>q_env := (q_env s)\<lparr>errno := e\<rparr>\<rparr>"

definition set_event :: "(u32 \<Rightarrow> u32) \<Rightarrow> queue_state \<Rightarrow> queue_state" where
  "set_event f s = s\<lparr>q_mq := (q_mq s)\<lparr>queue_event := f (queue_event (q_mq s))\<rparr>\<rparr>"

definition lock_queue :: "queue_state \<Rightarrow> queue_state option" where
  "lock_queue s = do {
     (env, m) \<leftarrow> mutex_lock (q_env s) (mq_mutex (q_mq s));
     Some (s\<lparr>q_env := env, q_mq := (q_mq s)\<lparr>mq_mutex := m\<rparr>\<rparr>)
   }"

definition unlock_queue :: "queue_state \<Rightarrow> queue_state option" where
  "unlock_queue s = do {
     (env, m) \<leftarrow> mutex_unlock (q_env s) (mq_mutex (q_mq s));
     Some (s\<lparr>q_env := env, q_mq := (q_mq s)\<lparr>mq_mutex := m\<rparr>\<rparr>)
   }"

definition buffer_used :: "queue_state \<Rightarrow> u64 \<times> queue_state" where
  "buffer_used s =
     (let (n, env, rb) = ring_buffer_used (q_env s) (mq_buffer (q_mq s))
      in (n, s\<lparr>q_env := env, q_mq := (q_mq s)\<lparr>mq_buffer := rb\<rparr>\<rparr>))"

definition buffer_free :: "queue_state \<Rightarrow> u64 \<times> queue_state" where
  "buffer_free s =
     (let (n, env, rb) = ring_buffer_free (q_env s) (mq_buffer (q_mq s))
      in (n, s\<lparr>q_env := env, q_mq := (q_mq s)\<lparr>mq_buffer := rb\<rparr>\<rparr>))"

definition signal_full :: "nat \<Rightarrow> queue_state \<Rightarrow> queue_state" where
  "signal_full pick s =
     (let (env, c) = cond_signal pick (q_env s) (space_full (q_mq s))
      in s\<lparr>q_env := env, q_mq := (q_mq s)\<lparr>space_full := c\<rparr>\<rparr>)"

definition signal_empty :: "nat \<Rightarrow> queue_state \<Rightarrow> queue_state" where
  "signal_empty pick s =
     (let (env, c) = cond_signal pick (q_env s) (space_empty (q_mq s))
      in s\<lparr>q_env := env, q_mq := (q_mq s)\<lparr>space_empty := c\<rparr>\<rparr>)"

section \<open>Initialisation and destruction of the backend\<close>

text \<open>\<open>s\<close> holds the indeterminate contents of the freshly allocated backend; \<open>queue_event\<close>
  keeps them, since \<open>mq_init\<close> does not set it.\<close>

definition mq_init :: "queue_state \<Rightarrow> u8 list option \<Rightarrow> u64 \<Rightarrow> (int \<times> queue_state) option" where
  "mq_init s alloc cap = do {
     (r, env, rb) \<leftarrow> ring_buffer_init (q_env s) alloc (mq_buffer (q_mq s)) cap;
     let s1 = s\<lparr>q_env := env, q_mq := (q_mq s)\<lparr>mq_buffer := rb\<rparr>\<rparr>;
     if r < 0 then Some (-1, s1)
     else do {
       let (env1, m) = mutex_init (q_env s1);
       let (env2, se) = cond_init env1;
       let (env3, sf) = cond_init env2;
       let mq = (q_mq s1)\<lparr>refs := 0, readers := 0, writers := 0, no_readers := False,
                   no_writers := False, mq_mutex := m, space_empty := se, space_full := sf\<rparr>;
       ls \<leftarrow> list_init \<lparr>entries = q_heap s1, list_validator = mq_list_validator mq, caller = env3\<rparr>
              (mq_list_head mq);
       Some (0, s1\<lparr>q_env := caller ls, q_mq := mq\<lparr>mq_list_validator := list_validator ls\<rparr>,
                   q_heap := entries ls\<rparr>)
     }
   }"

definition mq_destroy :: "queue_state \<Rightarrow> queue_state option" where
  "mq_destroy s = do {
     let mq = q_mq s;
     (if refs mq = 0 \<and> readers mq = 0 \<and> writers mq = 0 then Some () else None);
     ring_buffer_destroy (mq_buffer mq);
     env1 \<leftarrow> mutex_destroy (q_env s) (mq_mutex mq);
     env2 \<leftarrow> cond_destroy env1 (space_empty mq);
     env3 \<leftarrow> cond_destroy env2 (space_full mq);
     list_destroy \<lparr>entries = q_heap s, list_validator = mq_list_validator mq, caller = env3\<rparr>;
     Some (s\<lparr>q_env := env3\<rparr>)
   }"

section \<open>Handles\<close>

text \<open>\<open>~ALL_FLAGS\<close> is a negative \<open>int\<close>: as a \<open>uintptr_t\<close> it is sign-extended.\<close>

definition get_backend :: "u64 \<Rightarrow> u64 option" where
  "get_backend queue =
     (let mq = queue AND (scast (NOT ALL_FLAGS) :: u64) in if mq \<noteq> 0 then Some mq else None)"

definition get_flags :: "u64 \<Rightarrow> u32" where
  "get_flags queue = ucast (queue AND (scast ALL_FLAGS :: u64))"

definition make_handle :: "u64 \<Rightarrow> u32 \<Rightarrow> u64 option" where
  "make_handle mq flags =
     (if mq AND (scast ALL_FLAGS :: u64) \<noteq> 0 then None
      else if flags AND NOT ALL_FLAGS \<noteq> 0 then None
      else Some (mq OR (scast flags :: u64)))"

text \<open>The address of the backend is \<open>a\<close>.\<close>

definition mq_open :: "u64 \<Rightarrow> mq_backend \<Rightarrow> u32 \<Rightarrow> (u64 \<times> mq_backend) option" where
  "mq_open a mq flags = do {
     let mq1 = mq\<lparr>refs := refs mq + 1\<rparr>;
     let mq2 = (if flags AND MSG_QUEUE_READER \<noteq> 0
                then mq1\<lparr>readers := readers mq1 + 1, no_readers := False\<rparr> else mq1);
     let mq3 = (if flags AND MSG_QUEUE_WRITER \<noteq> 0
                then mq2\<lparr>writers := writers mq2 + 1, no_writers := False\<rparr> else mq2);
     h \<leftarrow> make_handle a flags;
     Some (h, mq3)
   }"

definition mq_close :: "mq_backend \<Rightarrow> u32 \<Rightarrow> (bool \<times> mq_backend) option" where
  "mq_close mq flags = do {
     (if refs mq \<noteq> 0 \<and> refs mq \<ge> readers mq \<and> refs mq \<ge> writers mq then Some () else None);
     let mq1 = (if flags AND MSG_QUEUE_READER \<noteq> 0 then
                  (let n = readers mq - 1
                   in if n = 0 then mq\<lparr>readers := n, no_readers := True\<rparr> else mq\<lparr>readers := n\<rparr>)
                else mq);
     let mq2 = (if flags AND MSG_QUEUE_WRITER \<noteq> 0 then
                  (let n = writers mq1 - 1
                   in if n = 0 then mq1\<lparr>writers := n, no_writers := True\<rparr> else mq1\<lparr>writers := n\<rparr>)
                else mq1);
     let mq3 = mq2\<lparr>refs := refs mq2 - 1\<rparr>;
     if refs mq3 = 0
     then (if readers mq3 = 0 \<and> writers mq3 = 0 then Some (True, mq3) else None)
     else Some (False, mq3)
   }"

section \<open>Waking pollers\<close>

text \<open>The body of the loop of \<open>helper_wakeup\<close> for the node of the entry \<open>p\<close>.\<close>

definition wake_node :: "nat \<Rightarrow> u64 \<Rightarrow> queue_state \<Rightarrow> queue_state option" where
  "wake_node pick p s = do {
     node \<leftarrow> q_nodes s p;
     if wn_events node AND queue_event (q_mq s) \<noteq> 0 then do {
       pm \<leftarrow> poll_mutex node;
       c \<leftarrow> is_ready node;
       (env1, pm1) \<leftarrow> mutex_lock (q_env s) pm;
       let (env2, c1) = cond_signal pick env1 c;
       (env3, pm2) \<leftarrow> mutex_unlock env2 pm1;
       Some (s\<lparr>q_env := env3,
               q_nodes := (q_nodes s)(p \<mapsto> node\<lparr>is_ready := Some c1, poll_mutex := Some pm2\<rparr>)\<rparr>)
     } else Some s
   }"

fun wake_nodes :: "nat \<Rightarrow> u64 list \<Rightarrow> queue_state \<Rightarrow> queue_state option" where
  "wake_nodes pick [] s = Some s"
| "wake_nodes pick (p # ps) s = do {
     s1 \<leftarrow> wake_node pick p s;
     wake_nodes pick ps s1
   }"

text \<open>The loop body changes neither the list nor its validator, so the traversal and the
  bodies can be taken one after the other.\<close>

definition helper_wakeup :: "nat \<Rightarrow> queue_state \<Rightarrow> queue_state option" where
  "helper_wakeup pick s = do {
     (visited, ls) \<leftarrow> list_for_each
        \<lparr>entries = q_heap s, list_validator = mq_list_validator (q_mq s), caller = q_env s\<rparr>
        (mq_list_head (q_mq s));
     wake_nodes pick visited
       (s\<lparr>q_env := caller ls, q_mq := (q_mq s)\<lparr>mq_list_validator := list_validator ls\<rparr>,
          q_heap := entries ls\<rparr>)
   }"

section \<open>Reading\<close>

text \<open>The queue is drained and has no writers: end of file.  \<open>out\<close> is the object that the
  caller's \<open>buffer\<close> points to.\<close>

definition read_eof ::
  "chance \<Rightarrow> queue_state \<Rightarrow> u8 list \<Rightarrow> (int outcome \<times> u8 list \<times> queue_state) option" where
  "read_eof ch s out = do {
     s1 \<leftarrow> helper_wakeup (ch_pick ch) (set_event (\<lambda>e. e OR MQPOLL_NOWRITERS) s);
     s2 \<leftarrow> unlock_queue s1;
     Some (Returned 0, out, s2)
   }"

text \<open>Taking the first message out of the buffer and returning it.\<close>

definition read_message ::
  "chance \<Rightarrow> queue_state \<Rightarrow> u8 list \<Rightarrow> u64 \<Rightarrow> (int outcome \<times> u8 list \<times> queue_state) option" where
  "read_message ch s out len = do {
     (r0, hd0, env0, rb0) \<leftarrow>
        ring_buffer_peek (q_env s) (mq_buffer (q_mq s)) (le_bytes 8 (ch_stack ch)) 8;
     let s0 = s\<lparr>q_env := env0, q_mq := (q_mq s)\<lparr>mq_buffer := rb0\<rparr>\<rparr>;
     s1 \<leftarrow> (if len < of_le hd0
            then (let s' = set_errno EMSGSIZE s0
                  in unlock_queue (s'\<lparr>q_env := report_info ''msg_queue_read'' (q_env s')\<rparr>))
            else Some s0);
     (r1, hd1, env1, rb1) \<leftarrow> ring_buffer_read (q_env s1) (mq_buffer (q_mq s1)) hd0 8;
     let msg_head = (of_le hd1 :: u64);
     (r2, out', env2, rb2) \<leftarrow> ring_buffer_read env1 rb1 out msg_head;
     let s2 = signal_full (ch_pick ch) (s1\<lparr>q_env := env2, q_mq := (q_mq s1)\<lparr>mq_buffer := rb2\<rparr>\<rparr>);
     let (used, s3) = buffer_used s2;
     let s4 = (if used = 0 \<and> \<not> no_writers (q_mq s3)
               then set_event (\<lambda>e. e AND NOT MQPOLL_READABLE) s3 else s3);
     s5 \<leftarrow> helper_wakeup (ch_pick ch) (set_event (\<lambda>e. e OR MQPOLL_WRITABLE) s4);
     s6 \<leftarrow> unlock_queue s5;
     Some (Returned (sint msg_head), out', s6)
   }"

text \<open>
  The \<open>while\<close> loop and what follows it.  An iteration ends the call or puts the thread to
  sleep, so the loop is left or entered anew by the resumed thread.
\<close>

definition read_loop ::
  "chance \<Rightarrow> u32 \<Rightarrow> queue_state \<Rightarrow> u8 list \<Rightarrow> u64 \<Rightarrow> (int outcome \<times> u8 list \<times> queue_state) option" where
  "read_loop ch flags s out len = do {
     let (empty, s1) = (if no_writers (q_mq s) then (False, s)
                        else (let (n, s') = buffer_used s in (n = 0, s')));
     if empty then
       (if flags AND MSG_QUEUE_NONBLOCK \<noteq> 0 then do {
          s2 \<leftarrow> unlock_queue (set_errno EAGAIN s1);
          Some (Returned (-1), out, s2)
        } else do {
          (c, m) \<leftarrow> cond_wait (q_env s1) (space_empty (q_mq s1)) (mq_mutex (q_mq s1));
          Some (Sleeping, out, s1\<lparr>q_mq := (q_mq s1)\<lparr>space_empty := c, mq_mutex := m\<rparr>\<rparr>)
        })
     else do {
       let (n, s2) = buffer_used s1;
       if n = 0 \<and> no_writers (q_mq s2) then read_eof ch s2 out
       else read_message ch s2 out len
     }
   }"

definition mq_read ::
  "chance \<Rightarrow> u32 \<Rightarrow> queue_state \<Rightarrow> u8 list \<Rightarrow> u64 \<Rightarrow> (int outcome \<times> u8 list \<times> queue_state) option" where
  "mq_read ch flags s0 out len = do {
     s \<leftarrow> lock_queue s0;
     let (drained, s1) = (if no_writers (q_mq s) then (let (n, s') = buffer_used s in (n = 0, s'))
                          else (False, s));
     if drained then read_eof ch s1 out else read_loop ch flags s1 out len
   }"

text \<open>A thread that was woken in \<open>cond_wait\<close> gets the mutex back and tests the loop
  condition again.\<close>

definition read_resume ::
  "chance \<Rightarrow> u32 \<Rightarrow> queue_state \<Rightarrow> u8 list \<Rightarrow> u64 \<Rightarrow> (int outcome \<times> u8 list \<times> queue_state) option" where
  "read_resume ch flags s out len = do {
     (c, m) \<leftarrow> cond_wakeup (self (q_env s)) (space_empty (q_mq s)) (mq_mutex (q_mq s));
     read_loop ch flags (s\<lparr>q_mq := (q_mq s)\<lparr>space_empty := c, mq_mutex := m\<rparr>\<rparr>) out len
   }"

section \<open>Writing\<close>

text \<open>\<open>src\<close> is the object that the caller's \<open>buffer\<close> points to.\<close>

definition write_message ::
  "chance \<Rightarrow> u32 \<Rightarrow> queue_state \<Rightarrow> u8 list \<Rightarrow> u64 \<Rightarrow> (int outcome \<times> queue_state) option" where
  "write_message ch flags s src len = do {
     (r1, env1, rb1) \<leftarrow> ring_buffer_write (q_env s) (mq_buffer (q_mq s)) (le_bytes 8 len) 8;
     (r2, env2, rb2) \<leftarrow> ring_buffer_write env1 rb1 src len;
     let s1 = signal_empty (ch_pick ch) (s\<lparr>q_env := env2, q_mq := (q_mq s)\<lparr>mq_buffer := rb2\<rparr>\<rparr>);
     if flags AND MSG_QUEUE_NONBLOCK \<noteq> 0 then do {
       s2 \<leftarrow> unlock_queue (set_errno EAGAIN s1);
       Some (Returned (-1), s2)
     } else do {
       let (n, s2) = buffer_free s1;
       let s3 = (if n = 0 \<and> \<not> no_readers (q_mq s2)
                 then set_event (\<lambda>e. e AND NOT MQPOLL_WRITABLE) s2 else s2);
       s4 \<leftarrow> helper_wakeup (ch_pick ch) (set_event (\<lambda>e. e OR MQPOLL_READABLE) s3);
       s5 \<leftarrow> unlock_queue s4;
       Some (Returned 0, s5)
     }
   }"

definition write_loop ::
  "chance \<Rightarrow> u32 \<Rightarrow> queue_state \<Rightarrow> u8 list \<Rightarrow> u64 \<Rightarrow> (int outcome \<times> queue_state) option" where
  "write_loop ch flags s src len = do {
     let (n, s1) = buffer_free s;
     if n < len + 8 then do {
       (c, m) \<leftarrow> cond_wait (q_env s1) (space_full (q_mq s1)) (mq_mutex (q_mq s1));
       Some (Sleeping, s1\<lparr>q_mq := (q_mq s1)\<lparr>space_full := c, mq_mutex := m\<rparr>\<rparr>)
     } else write_message ch flags s1 src len
   }"

definition mq_write ::
  "chance \<Rightarrow> u32 \<Rightarrow> queue_state \<Rightarrow> u8 list \<Rightarrow> u64 \<Rightarrow> (int outcome \<times> queue_state) option" where
  "mq_write ch flags s0 src len = do {
     s \<leftarrow> lock_queue s0;
     if no_readers (q_mq s) then do {
       s1 \<leftarrow> unlock_queue (set_errno EPIPE s);
       Some (Returned (-1), s1)
     } else if rb_size (mq_buffer (q_mq s)) \<le> len + 8 then do {
       s1 \<leftarrow> unlock_queue (set_errno EMSGSIZE s);
       Some (Returned (-1), s1)
     } else write_loop ch flags s src len
   }"

definition write_resume ::
  "chance \<Rightarrow> u32 \<Rightarrow> queue_state \<Rightarrow> u8 list \<Rightarrow> u64 \<Rightarrow> (int outcome \<times> queue_state) option" where
  "write_resume ch flags s src len = do {
     (c, m) \<leftarrow> cond_wakeup (self (q_env s)) (space_full (q_mq s)) (mq_mutex (q_mq s));
     write_loop ch flags (s\<lparr>q_mq := (q_mq s)\<lparr>space_full := c, mq_mutex := m\<rparr>\<rparr>) src len
   }"

section \<open>The API on all queues\<close>

text \<open>The memory all threads share: the backends by address, the list entries and the
  pollers' nodes.\<close>

record queue_mem =
  backends :: "u64 \<Rightarrow> mq_backend option"
  mem_entries :: heap
  mem_nodes :: "u64 \<Rightarrow> waiting_node option"

text \<open>Dereferencing the pointer to a backend, and storing what a call changed.\<close>

definition load_queue :: "thread_env \<Rightarrow> queue_mem \<Rightarrow> u64 \<Rightarrow> queue_state option" where
  "load_queue env w a = do {
     mq \<leftarrow> backends w a;
     Some \<lparr>q_env = env, q_mq = mq, q_heap = mem_entries w, q_nodes = mem_nodes w\<rparr>
   }"

definition store_queue :: "queue_mem \<Rightarrow> u64 \<Rightarrow> queue_state \<Rightarrow> queue_mem" where
  "store_queue w a s =
     w\<lparr>backends := (backends w)(a \<mapsto> q_mq s), mem_entries := q_heap s, mem_nodes := q_nodes s\<rparr>"

definition free_queue :: "queue_mem \<Rightarrow> u64 \<Rightarrow> queue_state \<Rightarrow> queue_mem" where
  "free_queue w a s =
     w\<lparr>backends := (backends w)(a := None),
       mem_entries := (q_heap s)(mq_list_head (q_mq s) := None), mem_nodes := q_nodes s\<rparr>"

text \<open>
  \<open>alloc\<close> is what \<open>malloc(sizeof(mq_backend))\<close> gives: the address and the indeterminate
  contents of the object and of the list head in it.  \<open>buf\<close> is the \<open>malloc\<close> of
  \<open>ring_buffer_init\<close>.  \<open>free\<close> may change \<open>errno\<close> to \<open>free_errno\<close>.
\<close>

definition msg_queue_create ::
  "thread_env \<Rightarrow> queue_mem \<Rightarrow> (u64 \<times> mq_backend \<times> list_entry) option \<Rightarrow> u8 list option \<Rightarrow> int \<Rightarrow>
   u64 \<Rightarrow> u32 \<Rightarrow> (u64 \<times> thread_env \<times> queue_mem) option" where
  "msg_queue_create env w alloc buf free_errno capacity flags =
     (if flags AND NOT ALL_FLAGS \<noteq> 0 then
        Some (MSG_QUEUE_NULL, report_error ''msg_queue.c:180'' ''msg_queue_create'' (env\<lparr>errno := EINVAL\<rparr>), w)
      else if capacity < 8 + 1 then
        Some (MSG_QUEUE_NULL, report_error ''msg_queue.c:188'' ''msg_queue_create'' (env\<lparr>errno := EINVAL\<rparr>), w)
      else case alloc of
        None \<Rightarrow> Some (MSG_QUEUE_NULL, report_error ''msg_queue.c:194'' ''malloc'' (env\<lparr>errno := ENOMEM\<rparr>), w)
      | Some (a, junk, junk_entry) \<Rightarrow>
          if a AND (scast ALL_FLAGS :: u64) \<noteq> 0 then None
          else do {
            let s = \<lparr>q_env = env, q_mq = junk,
                     q_heap = (mem_entries w)(mq_list_head junk \<mapsto> junk_entry), q_nodes = mem_nodes w\<rparr>;
            (r, s1) \<leftarrow> mq_init s buf capacity;
            if r < 0 then do {
              let e = errno (q_env s1);
              let env1 = (q_env s1)\<lparr>errno := free_errno\<rparr>;
              Some (MSG_QUEUE_NULL, env1\<lparr>errno := e\<rparr>, free_queue w a s1)
            } else do {
              (h, mq) \<leftarrow> mq_open a (q_mq s1) flags;
              Some (h, q_env s1, store_queue w a (s1\<lparr>q_mq := mq\<rparr>))
            }
          })"

definition msg_queue_open ::
  "thread_env \<Rightarrow> queue_mem \<Rightarrow> u64 \<Rightarrow> u32 \<Rightarrow> (u64 \<times> thread_env \<times> queue_mem) option" where
  "msg_queue_open env w queue flags =
     (if queue = 0 then
        Some (MSG_QUEUE_NULL, report_error ''msg_queue.c:216'' ''msg_queue_open'' (env\<lparr>errno := EBADF\<rparr>), w)
      else if flags AND NOT ALL_FLAGS \<noteq> 0 then
        Some (MSG_QUEUE_NULL, report_error ''msg_queue.c:222'' ''msg_queue_open'' (env\<lparr>errno := EINVAL\<rparr>), w)
      else do {
        a \<leftarrow> get_backend queue;
        s \<leftarrow> load_queue env w a;
        s1 \<leftarrow> lock_queue s;
        (h, mq) \<leftarrow> mq_open a (q_mq s1) flags;
        s2 \<leftarrow> unlock_queue (s1\<lparr>q_mq := mq\<rparr>);
        Some (h, q_env s2, store_queue w a s2)
      })"

text \<open>The part of \<open>msg_queue_close\<close> after a handle that was not the last one is closed.\<close>

definition close_notify :: "queue_state \<Rightarrow> queue_state" where
  "close_notify s =
     (let s1 = (if no_readers (q_mq s) then
                  (let s' = set_event (\<lambda>e. e OR MQPOLL_WRITABLE OR MQPOLL_NOREADERS) s;
                       (env, c) = cond_broadcast (q_env s') (space_full (q_mq s'))
                   in s'\<lparr>q_env := env, q_mq := (q_mq s')\<lparr>space_full := c\<rparr>\<rparr>)
                else s)
      in if no_writers (q_mq s1) then
           (let s' = set_event (\<lambda>e. e OR MQPOLL_READABLE OR MQPOLL_NOWRITERS) s1;
                (env, c) = cond_broadcast (q_env s') (space_empty (q_mq s'))
            in s'\<lparr>q_env := env, q_mq := (q_mq s')\<lparr>space_empty := c\<rparr>\<rparr>)
         else s1)"

text \<open>\<open>queue\<close> is \<open>None\<close> for the \<open>NULL\<close> pointer, else the handle that is pointed to; the
  new value of the handle is returned.\<close>

definition msg_queue_close ::
  "thread_env \<Rightarrow> queue_mem \<Rightarrow> u64 option \<Rightarrow> (int \<times> u64 option \<times> thread_env \<times> queue_mem) option" where
  "msg_queue_close env w queue =
     (if queue = None \<or> queue = Some 0 then
        Some (-1, queue, report_error ''msg_queue.c:239'' ''msg_queue_close'' (env\<lparr>errno := EBADF\<rparr>), w)
      else do {
        h \<leftarrow> queue;
        a \<leftarrow> get_backend h;
        s \<leftarrow> load_queue env w a;
        s1 \<leftarrow> lock_queue s;
        (last, mq) \<leftarrow> mq_close (q_mq s1) (get_flags h);
        let s2 = s1\<lparr>q_mq := mq\<rparr>;
        if last then do {
          s3 \<leftarrow> unlock_queue s2;
          s4 \<leftarrow> mq_destroy s3;
          Some (0, Some MSG_QUEUE_NULL, q_env s4, free_queue w a s4)
        } else do {
          s3 \<leftarrow> unlock_queue (close_notify s2);
          Some (0, Some MSG_QUEUE_NULL, q_env s3, store_queue w a s3)
        }
      })"

definition msg_queue_read ::
  "chance \<Rightarrow> thread_env \<Rightarrow> queue_mem \<Rightarrow> u64 \<Rightarrow> u8 list \<Rightarrow> u64 \<Rightarrow>
   (int outcome \<times> u8 list \<times> thread_env \<times> queue_mem) option" where
  "msg_queue_read ch env w queue out len =
     (if get_flags queue AND MSG_QUEUE_READER = 0 then
        Some (Returned (-1), out, report_error ''msg_queue.c:290'' ''msg_queue_read'' (env\<lparr>errno := EBADF\<rparr>), w)
      else do {
        a \<leftarrow> get_backend queue;
        s \<leftarrow> load_queue env w a;
        (r, out', s') \<leftarrow> mq_read ch (get_flags queue) s out len;
        Some (r, out', q_env s', store_queue w a s')
      })"

definition msg_queue_write ::
  "chance \<Rightarrow> thread_env \<Rightarrow> queue_mem \<Rightarrow> u64 \<Rightarrow> u8 list \<Rightarrow> u64 \<Rightarrow>
   (int outcome \<times> thread_env \<times> queue_mem) option" where
  "msg_queue_write ch env w queue src len =
     (if get_flags queue AND MSG_QUEUE_WRITER = 0 then
        Some (Returned (-1), report_error ''msg_queue.c:353'' ''msg_queue_write'' (env\<lparr>errno := EBADF\<rparr>), w)
      else if len = 0 then Some (Returned (-1), env\<lparr>errno := EINVAL\<rparr>, w)
      else do {
        a \<leftarrow> get_backend queue;
        s \<leftarrow> load_queue env w a;
        (r, s') \<leftarrow> mq_write ch (get_flags queue) s src len;
        Some (r, q_env s', store_queue w a s')
      })"

section \<open>What the backend holds\<close>

definition q_list :: "queue_state \<Rightarrow> list_state" where
  "q_list s = \<lparr>entries = q_heap s, list_validator = mq_list_validator (q_mq s), caller = q_env s\<rparr>"

text \<open>
  \<open>mq_holds s ps ms\<close>: the queue holds the messages \<open>ms\<close> and the pollers' entries \<open>ps\<close> are
  registered with it; no operation on the buffer or the list is under way.
  \<open>pollers_ready s ps\<close>: their nodes are initialised and their mutexes free.
\<close>

definition mq_holds :: "queue_state \<Rightarrow> u64 list \<Rightarrow> u8 list list \<Rightarrow> bool" where
  "mq_holds s ps ms \<longleftrightarrow>
     rb_holds (mq_buffer (q_mq s)) (messages_bytes ms) \<and> (\<forall>m \<in> set ms. valid_message m) \<and>
     has_tid (q_env s) \<and> list_rep (q_list s) (mq_list_head (q_mq s)) ps"

definition node_ready :: "waiting_node option \<Rightarrow> bool" where
  "node_ready n \<longleftrightarrow> (\<exists>node c. n = Some node \<and> is_ready node = Some c \<and>
                      poll_mutex node = Some \<lparr>mutex_owner = None\<rparr>)"

definition pollers_ready :: "queue_state \<Rightarrow> u64 list \<Rightarrow> bool" where
  "pollers_ready s ps \<longleftrightarrow> (\<forall>p \<in> set ps. node_ready (q_nodes s p))"

definition locked :: "queue_state \<Rightarrow> bool" where
  "locked s \<longleftrightarrow> mutex_owner (mq_mutex (q_mq s)) = Some (self (q_env s))"

definition unlocked :: "queue_state \<Rightarrow> bool" where
  "unlocked s \<longleftrightarrow> mutex_owner (mq_mutex (q_mq s)) = None"

text \<open>What waking the pollers does: a signal for every node of \<open>ps\<close> that asked for one of
  the events \<open>ev\<close>.\<close>

definition signalled ::
  "nat \<Rightarrow> u64 list \<Rightarrow> u32 \<Rightarrow> (u64 \<Rightarrow> waiting_node option) \<Rightarrow> u64 \<Rightarrow> waiting_node option" where
  "signalled pick ps ev nodes =
     (\<lambda>p. map_option (\<lambda>node. if p \<in> set ps \<and> wn_events node AND ev \<noteq> 0
            then node\<lparr>is_ready := map_option (\<lambda>c. snd (pthread_cond_signal pick c)) (is_ready node)\<rparr>
            else node) (nodes p))"

lemma signalled_Nil [simp]: "signalled pick [] ev nodes = nodes"
  by (simp add: signalled_def option.map_ident)

lemma signalled_other: "p \<notin> set ps \<Longrightarrow> signalled pick ps ev nodes p = nodes p"
  by (simp add: signalled_def option.map_ident)

lemma signalled_in:
  "p \<in> set ps \<Longrightarrow> nodes p = Some node \<Longrightarrow> signalled pick ps ev nodes p =
     Some (if wn_events node AND ev \<noteq> 0
           then node\<lparr>is_ready := map_option (\<lambda>c. snd (pthread_cond_signal pick c)) (is_ready node)\<rparr>
           else node)"
  by (simp add: signalled_def)

lemma wake_node_ok:
  assumes "node_ready (q_nodes s p)"
  shows "wake_node pick p s = Some (s\<lparr>q_nodes := signalled pick [p] (queue_event (q_mq s)) (q_nodes s)\<rparr>)"
proof -
  obtain node c where n: "q_nodes s p = Some node" "is_ready node = Some c"
    "poll_mutex node = Some \<lparr>mutex_owner = None\<rparr>" using assms by (auto simp: node_ready_def)
  have "signalled pick [p] (queue_event (q_mq s)) (q_nodes s) =
      (if wn_events node AND queue_event (q_mq s) \<noteq> 0
       then (q_nodes s)(p \<mapsto> node\<lparr>is_ready := Some (snd (pthread_cond_signal pick c)),
                               poll_mutex := Some \<lparr>mutex_owner = None\<rparr>\<rparr>)
       else q_nodes s)"
  proof
    fix x
    show "signalled pick [p] (queue_event (q_mq s)) (q_nodes s) x =
      (if wn_events node AND queue_event (q_mq s) \<noteq> 0
       then (q_nodes s)(p \<mapsto> node\<lparr>is_ready := Some (snd (pthread_cond_signal pick c)),
                               poll_mutex := Some \<lparr>mutex_owner = None\<rparr>\<rparr>)
       else q_nodes s) x"
      using n by (cases "x = p"; cases node) (simp_all add: signalled_in signalled_other)
  qed
  with n show ?thesis
    by (simp add: wake_node_def sync_simps)
qed

lemma wake_nodes_ok:
  assumes "\<forall>p \<in> set ps. node_ready (q_nodes s p)" "distinct ps"
  shows "wake_nodes pick ps s = Some (s\<lparr>q_nodes := signalled pick ps (queue_event (q_mq s)) (q_nodes s)\<rparr>)"
  using assms
proof (induction ps arbitrary: s)
  case (Cons p ps)
  let ?s = "s\<lparr>q_nodes := signalled pick [p] (queue_event (q_mq s)) (q_nodes s)\<rparr>"
  have "\<forall>x \<in> set ps. node_ready (q_nodes ?s x)"
  proof
    fix x assume "x \<in> set ps"
    with Cons.prems show "node_ready (q_nodes ?s x)"
      by (cases "x = p") (auto simp: signalled_other)
  qed
  moreover have "signalled pick ps ev (signalled pick [p] ev nodes) = signalled pick (p # ps) ev nodes" for ev nodes
  proof
    fix x
    show "signalled pick ps ev (signalled pick [p] ev nodes) x = signalled pick (p # ps) ev nodes x"
      using Cons.prems(2) by (cases "x = p"; cases "nodes x") (auto simp: signalled_def)
  qed
  ultimately show ?case using Cons wake_node_ok [of s p] by simp
qed simp

lemma helper_wakeup_ok:
  assumes "list_rep (q_list s) (mq_list_head (q_mq s)) ps" "pollers_ready s ps"
  shows "helper_wakeup pick s = Some (s\<lparr>q_nodes := signalled pick ps (queue_event (q_mq s)) (q_nodes s)\<rparr>)"
  using guarded.visit [OF assms(1)] guarded.rep_distinct [OF assms(1)] assms(2)
    wake_nodes_ok [of ps s pick]
  by (simp add: helper_wakeup_def q_list_def pollers_ready_def)

lemma buffer_used_ok:
  assumes "mq_holds s ps ms"
  shows "buffer_used s = (of_nat (length (messages_bytes ms)), s)"
  using assms rb.used [of "q_env s" "mq_buffer (q_mq s)" "messages_bytes ms"]
  by (simp add: buffer_used_def mq_holds_def)

lemma buffer_free_ok:
  assumes "mq_holds s ps ms"
  shows "buffer_free s =
    (of_nat (rb_capacity (mq_buffer (q_mq s)) - length (messages_bytes ms)), s)"
  using assms rb.free [of "q_env s" "mq_buffer (q_mq s)" "messages_bytes ms"]
  by (simp add: buffer_free_def mq_holds_def)

lemma mq_holds_bounds:
  assumes "mq_holds s ps ms"
  shows "length (messages_bytes ms) \<le> rb_capacity (mq_buffer (q_mq s))"
    and "rb_capacity (mq_buffer (q_mq s)) < 2 ^ 63"
  using assms rb.fits rb.small by (auto simp: mq_holds_def)

lemma messages_bytes_empty: "messages_bytes ms = [] \<longleftrightarrow> ms = []"
  by (cases ms) (auto simp: message_bytes_def)

lemma used_eq_0:
  assumes "mq_holds s ps ms"
  shows "(of_nat (length (messages_bytes ms)) :: u64) = 0 \<longleftrightarrow> ms = []"
proof -
  have "length (messages_bytes ms) < 2 ^ 64" using mq_holds_bounds [OF assms] by simp
  then have "unat (of_nat (length (messages_bytes ms)) :: u64) = length (messages_bytes ms)"
    by (rule unat_of_nat_u64)
  then show ?thesis by (simp flip: messages_bytes_empty unat_eq_0)
qed

lemma mq_holds_cong:
  assumes "mq_holds s ps ms" "mq_buffer (q_mq s') = mq_buffer (q_mq s)"
    "mq_list_head (q_mq s') = mq_list_head (q_mq s)" "mq_list_validator (q_mq s') = mq_list_validator (q_mq s)"
    "self (q_env s') = self (q_env s)" "q_heap s' = q_heap s"
  shows "mq_holds s' ps ms"
  using assms by (simp add: mq_holds_def has_tid_def list_rep_def q_list_def)

section \<open>Reading and writing a message\<close>

text \<open>The state after a message has been read: \<open>rest\<close> says whether messages are left.\<close>

definition after_read :: "chance \<Rightarrow> u64 list \<Rightarrow> ring_buffer \<Rightarrow> bool \<Rightarrow> queue_state \<Rightarrow> queue_state" where
  "after_read ch ps rb rest s =
     (let mq = q_mq s;
          ev = (if \<not> rest \<and> \<not> no_writers mq then queue_event mq AND NOT MQPOLL_READABLE
                else queue_event mq) OR MQPOLL_WRITABLE
      in s\<lparr>q_mq := mq\<lparr>mq_buffer := rb, mq_mutex := (mq_mutex mq)\<lparr>mutex_owner := None\<rparr>,
                     space_full := snd (pthread_cond_signal (ch_pick ch) (space_full mq)),
                     queue_event := ev\<rparr>,
           q_nodes := signalled (ch_pick ch) ps ev (q_nodes s)\<rparr>)"

lemma mq_holds_rb:
  assumes "mq_holds s ps ms" "rb_holds rb (messages_bytes ms')" "\<forall>m \<in> set ms'. valid_message m"
  shows "mq_holds (s\<lparr>q_mq := (q_mq s)\<lparr>mq_buffer := rb\<rparr>\<rparr>) ps ms'"
  using assms by (simp add: mq_holds_def q_list_def)

lemma sint_of_nat_len: "valid_message m \<Longrightarrow> sint (of_nat (length m) :: u64) = int (length m)"
  using signed_take_bit_int_eq_self [of 63 "int (length m)"]
  by (simp add: valid_message_def sint_uint uint_nat unat_of_nat_u64)

lemma unlock_queue_ok:
  "locked s \<Longrightarrow> unlock_queue s =
     Some (s\<lparr>q_mq := (q_mq s)\<lparr>mq_mutex := (mq_mutex (q_mq s))\<lparr>mutex_owner := None\<rparr>\<rparr>\<rparr>)"
  by (simp add: unlock_queue_def locked_def sync_simps)

lemma lock_queue_ok:
  "unlocked s \<Longrightarrow> lock_queue s =
     Some (s\<lparr>q_mq := (q_mq s)\<lparr>mq_mutex := (mq_mutex (q_mq s))\<lparr>mutex_owner := Some (self (q_env s))\<rparr>\<rparr>\<rparr>)"
  by (simp add: lock_queue_def unlocked_def sync_simps)

lemma unlock_queue_not_owner: "\<not> locked s \<Longrightarrow> unlock_queue s = None"
  by (simp add: unlock_queue_def locked_def mutex_unlock_foreign)

lemma helper_wakeup_holds:
  assumes "mq_holds s ps ms" "pollers_ready s ps"
  shows "helper_wakeup pick s = Some (s\<lparr>q_nodes := signalled pick ps (queue_event (q_mq s)) (q_nodes s)\<rparr>)"
  using assms by (intro helper_wakeup_ok) (auto simp: mq_holds_def)

lemma read_message_ok:
  assumes h: "mq_holds s ps (m # ms)" and p: "pollers_ready s ps" and l: "locked s"
    and len: "length m \<le> unat len" "length m \<le> length out"
  shows "\<exists>rb. read_message ch s out len =
           Some (Returned (int (length m)), m @ drop (length m) out, after_read ch ps rb (ms \<noteq> []) s) \<and>
           rb_holds rb (messages_bytes ms) \<and> rb_capacity rb = rb_capacity (mq_buffer (q_mq s))"
proof -
  let ?rb = "mq_buffer (q_mq s)" and ?e = "q_env s" and ?n = "of_nat (length m) :: u64"
  have v: "valid_message m" and e: "has_tid ?e" and vs: "\<forall>m \<in> set ms. valid_message m"
    and r: "rb_holds ?rb (message_bytes m @ messages_bytes ms)"
    using h by (auto simp: mq_holds_def)
  have peek: "ring_buffer_peek ?e ?rb (le_bytes 8 (ch_stack ch)) 8 = Some (True, le_bytes 8 ?n, ?e, ?rb)"
    using rb.peek_header [OF e r] by simp
  obtain r1 r2 where get: "ring_buffer_read ?e ?rb (le_bytes 8 ?n) 8 = Some (True, le_bytes 8 ?n, ?e, r1)"
    "ring_buffer_read ?e r1 out ?n = Some (True, m @ drop (length m) out, ?e, r2)"
    "rb_holds r2 (messages_bytes ms)" "rb_capacity r2 = rb_capacity ?rb"
    using rb.get_message [OF e r v _ len(2), of "le_bytes 8 ?n"] by auto
  let ?s2 = "signal_full (ch_pick ch) (s\<lparr>q_mq := (q_mq s)\<lparr>mq_buffer := r2\<rparr>\<rparr>)"
  have s2: "?s2 = s\<lparr>q_mq := (q_mq s)\<lparr>mq_buffer := r2,
      space_full := snd (pthread_cond_signal (ch_pick ch) (space_full (q_mq s)))\<rparr>\<rparr>"
    by (simp add: signal_full_def sync_simps)
  have h2: "mq_holds ?s2 ps ms"
    by (rule mq_holds_cong [OF mq_holds_rb [OF h get(3) vs]]) (simp_all add: s2)
  let ?f = "(\<lambda>e. (if ms = [] \<and> \<not> no_writers (q_mq s) then e AND NOT MQPOLL_READABLE else e) OR MQPOLL_WRITABLE)"
  let ?s5 = "set_event ?f ?s2"
  have h5: "mq_holds ?s5 ps ms" by (rule mq_holds_cong [OF h2]) (simp_all add: set_event_def)
  have p5: "pollers_ready ?s5 ps" using p by (simp add: pollers_ready_def set_event_def s2)
  have ev: "set_event (\<lambda>e. e OR MQPOLL_WRITABLE)
       (if ms = [] \<and> \<not> no_writers (q_mq ?s2) then set_event (\<lambda>e. e AND NOT MQPOLL_READABLE) ?s2 else ?s2) = ?s5"
    by (simp add: set_event_def s2)
  have nlt: "\<not> len < ?n" using len(1) v by (simp add: word_less_nat_alt unat_of_nat_len)
  have l5: "locked (?s5\<lparr>q_nodes := n\<rparr>)" for n using l by (simp add: locked_def set_event_def s2)
  have "after_read ch ps r2 (ms \<noteq> []) s =
     (let s' = ?s5\<lparr>q_nodes := signalled (ch_pick ch) ps (queue_event (q_mq ?s5)) (q_nodes ?s5)\<rparr>
      in s'\<lparr>q_mq := (q_mq s')\<lparr>mq_mutex := (mq_mutex (q_mq s'))\<lparr>mutex_owner := None\<rparr>\<rparr>\<rparr>)"
    by (simp add: after_read_def Let_def set_event_def s2)
  then have "read_message ch s out len =
      Some (Returned (int (length m)), m @ drop (length m) out, after_read ch ps r2 (ms \<noteq> []) s)"
    using nlt
    by (simp add: read_message_def peek get buffer_used_ok [OF h2] used_eq_0 [OF h2] ev Let_def
        helper_wakeup_holds [OF h5 p5] unlock_queue_ok [OF l5] sint_of_nat_len [OF v])
  with get show ?thesis by blast
qed

text \<open>The states in which the other calls end.\<close>

definition after_eof :: "chance \<Rightarrow> u64 list \<Rightarrow> queue_state \<Rightarrow> queue_state" where
  "after_eof ch ps s =
     (let mq = q_mq s; ev = queue_event mq OR MQPOLL_NOWRITERS
      in s\<lparr>q_mq := mq\<lparr>mq_mutex := (mq_mutex mq)\<lparr>mutex_owner := None\<rparr>, queue_event := ev\<rparr>,
           q_nodes := signalled (ch_pick ch) ps ev (q_nodes s)\<rparr>)"

definition after_error :: "int \<Rightarrow> queue_state \<Rightarrow> queue_state" where
  "after_error e s =
     s\<lparr>q_env := (q_env s)\<lparr>errno := e\<rparr>,
       q_mq := (q_mq s)\<lparr>mq_mutex := (mq_mutex (q_mq s))\<lparr>mutex_owner := None\<rparr>\<rparr>\<rparr>"

definition asleep_reading :: "queue_state \<Rightarrow> queue_state" where
  "asleep_reading s =
     (let mq = q_mq s; c = space_empty mq
      in s\<lparr>q_mq := mq\<lparr>mq_mutex := (mq_mutex mq)\<lparr>mutex_owner := None\<rparr>,
                     space_empty := c\<lparr>waiting := waiting c @ [self (q_env s)]\<rparr>\<rparr>\<rparr>)"

definition asleep_writing :: "queue_state \<Rightarrow> queue_state" where
  "asleep_writing s =
     (let mq = q_mq s; c = space_full mq
      in s\<lparr>q_mq := mq\<lparr>mq_mutex := (mq_mutex mq)\<lparr>mutex_owner := None\<rparr>,
                     space_full := c\<lparr>waiting := waiting c @ [self (q_env s)]\<rparr>\<rparr>\<rparr>)"

lemma unlock_error: "locked s \<Longrightarrow> unlock_queue (set_errno e s) = Some (after_error e s)"
  using unlock_queue_ok [of "set_errno e s"] by (simp add: set_errno_def locked_def after_error_def)

lemma read_eof_ok:
  assumes h: "mq_holds s ps ms" and p: "pollers_ready s ps" and l: "locked s"
  shows "read_eof ch s out = Some (Returned 0, out, after_eof ch ps s)"
proof -
  let ?s = "set_event (\<lambda>e. e OR MQPOLL_NOWRITERS) s"
  have h': "mq_holds ?s ps ms" by (rule mq_holds_cong [OF h]) (simp_all add: set_event_def)
  have p': "pollers_ready ?s ps" using p by (simp add: pollers_ready_def set_event_def)
  have l': "locked (?s\<lparr>q_nodes := n\<rparr>)" for n using l by (simp add: locked_def set_event_def)
  show ?thesis
    by (simp add: read_eof_def helper_wakeup_holds [OF h' p'] unlock_queue_ok [OF l'])
       (simp add: after_eof_def set_event_def Let_def)
qed

lemma read_loop_message:
  assumes h: "mq_holds s ps (m # ms)" and p: "pollers_ready s ps" and l: "locked s"
    and len: "length m \<le> unat len" "length m \<le> length out"
  shows "\<exists>rb. read_loop ch flags s out len =
           Some (Returned (int (length m)), m @ drop (length m) out, after_read ch ps rb (ms \<noteq> []) s) \<and>
           rb_holds rb (messages_bytes ms) \<and> rb_capacity rb = rb_capacity (mq_buffer (q_mq s))"
proof -
  have "read_loop ch flags s out len = read_message ch s out len"
    using buffer_used_ok [OF h] used_eq_0 [OF h] by (simp add: read_loop_def del: messages_bytes_simps)
  with read_message_ok [OF assms] show ?thesis by simp
qed

lemma read_loop_empty:
  assumes h: "mq_holds s ps []" and p: "pollers_ready s ps" and l: "locked s"
  shows "read_loop ch flags s out len =
     Some (if no_writers (q_mq s) then (Returned 0, out, after_eof ch ps s)
           else if flags AND MSG_QUEUE_NONBLOCK \<noteq> 0 then (Returned (-1), out, after_error EAGAIN s)
           else (Sleeping, out, asleep_reading s))"
  using buffer_used_ok [OF h] read_eof_ok [OF h p l] unlock_error [OF l] l
  by (simp add: read_loop_def cond_wait_own locked_def asleep_reading_def Let_def)

text \<open>When the message does not fit the caller's buffer, the call goes on after unlocking
  and unlocks a second time: it never returns in a defined way.\<close>

lemma wake_nodes_mutex: "wake_nodes pick ps s = Some s' \<Longrightarrow> mq_mutex (q_mq s') = mq_mutex (q_mq s)"
proof (induction ps arbitrary: s)
  case (Cons p ps)
  then obtain s1 where "wake_node pick p s = Some s1" "wake_nodes pick ps s1 = Some s'"
    by (auto simp: bind_eq_Some_conv)
  moreover from this(1) have "q_mq s1 = q_mq s"
    by (auto simp: wake_node_def bind_eq_Some_conv cond_signal_eq split: if_splits)
  ultimately show ?case using Cons.IH by simp
qed simp

lemma helper_wakeup_mutex:
  "helper_wakeup pick s = Some s' \<Longrightarrow> mq_mutex (q_mq s') = mq_mutex (q_mq s)"
  by (auto simp: helper_wakeup_def bind_eq_Some_conv dest!: wake_nodes_mutex)

lemma read_message_too_small:
  assumes h: "mq_holds s ps (m # ms)" and l: "locked s" and len: "unat len < length m"
  shows "read_message ch s out len = None"
proof (rule ccontr)
  let ?rb = "mq_buffer (q_mq s)" and ?e = "q_env s" and ?n = "of_nat (length m) :: u64"
  have v: "valid_message m" and e: "has_tid ?e"
    and r: "rb_holds ?rb (message_bytes m @ messages_bytes ms)"
    using h by (auto simp: mq_holds_def)
  have peek: "ring_buffer_peek ?e ?rb (le_bytes 8 (ch_stack ch)) 8 = Some (True, le_bytes 8 ?n, ?e, ?rb)"
    using rb.peek_header [OF e r] by simp
  have lt: "len < ?n" using len v by (simp add: word_less_nat_alt unat_of_nat_len)
  have unl: "unlock_queue (set_errno EMSGSIZE s) = Some (after_error EMSGSIZE s)"
    using l by (rule unlock_error)
  have owner: "mutex_owner (mq_mutex (q_mq (after_error EMSGSIZE s))) = None"
    by (simp add: after_error_def)
  assume "read_message ch s out len \<noteq> None"
  then obtain s5 s6 where s6: "unlock_queue s5 = Some s6"
    and s5: "mq_mutex (q_mq s5) = mq_mutex (q_mq (after_error EMSGSIZE s))"
    using lt by (auto simp: read_message_def peek unl report_info_def Let_def bind_eq_Some_conv
        buffer_used_def signal_full_def set_event_def split: prod.splits if_splits
        dest!: helper_wakeup_mutex)
  from s5 owner have "\<not> locked s5" by (simp add: locked_def)
  with s6 show False by (simp add: unlock_queue_not_owner)
qed

lemma read_loop_too_small:
  assumes h: "mq_holds s ps (m # ms)" and l: "locked s" and len: "unat len < length m"
  shows "read_loop ch flags s out len = None"
  using buffer_used_ok [OF h] used_eq_0 [OF h] read_message_too_small [OF assms]
  by (simp add: read_loop_def del: messages_bytes_simps)

text \<open>The state after a message has been written.  A non-blocking handle neither updates the
  events nor wakes the pollers, and reports \<open>EAGAIN\<close>.\<close>

definition after_write ::
  "chance \<Rightarrow> u64 list \<Rightarrow> ring_buffer \<Rightarrow> bool \<Rightarrow> queue_state \<Rightarrow> queue_state" where
  "after_write ch ps rb full s =
     (let mq = q_mq s;
          ev = (if full \<and> \<not> no_readers mq then queue_event mq AND NOT MQPOLL_WRITABLE
                else queue_event mq) OR MQPOLL_READABLE
      in s\<lparr>q_mq := mq\<lparr>mq_buffer := rb, mq_mutex := (mq_mutex mq)\<lparr>mutex_owner := None\<rparr>,
                     space_empty := snd (pthread_cond_signal (ch_pick ch) (space_empty mq)),
                     queue_event := ev\<rparr>,
           q_nodes := signalled (ch_pick ch) ps ev (q_nodes s)\<rparr>)"

definition after_write_nonblock :: "chance \<Rightarrow> ring_buffer \<Rightarrow> queue_state \<Rightarrow> queue_state" where
  "after_write_nonblock ch rb s =
     after_error EAGAIN (s\<lparr>q_mq := (q_mq s)\<lparr>mq_buffer := rb,
       space_empty := snd (pthread_cond_signal (ch_pick ch) (space_empty (q_mq s)))\<rparr>\<rparr>)"

definition free_bytes :: "queue_state \<Rightarrow> u8 list list \<Rightarrow> nat" where
  "free_bytes s ms = rb_capacity (mq_buffer (q_mq s)) - length (messages_bytes ms)"

lemma free_word:
  assumes "mq_holds s ps ms"
  shows "unat (of_nat (free_bytes s ms) :: u64) = free_bytes s ms"
  using mq_holds_bounds [OF assms] by (intro unat_of_nat_u64) (simp add: free_bytes_def)

lemma write_message_ok:
  assumes h: "mq_holds s ps ms" and p: "pollers_ready s ps" and l: "locked s"
    and len: "len \<noteq> 0" "unat len \<le> length src" and room: "unat len + 8 \<le> free_bytes s ms"
  defines "m \<equiv> take (unat len) src"
  shows "\<exists>rb. write_message ch flags s src len =
           Some (if flags AND MSG_QUEUE_NONBLOCK \<noteq> 0
                 then (Returned (-1), after_write_nonblock ch rb s)
                 else (Returned 0, after_write ch ps rb (unat len + 8 = free_bytes s ms) s)) \<and>
           rb_holds rb (messages_bytes (ms @ [m])) \<and>
           rb_capacity rb = rb_capacity (mq_buffer (q_mq s)) \<and> valid_message m"
proof -
  let ?rb = "mq_buffer (q_mq s)" and ?e = "q_env s"
  have e: "has_tid ?e" and r: "rb_holds ?rb (messages_bytes ms)" and vs: "\<forall>m \<in> set ms. valid_message m"
    using h by (auto simp: mq_holds_def)
  note bounds = mq_holds_bounds [OF h]
  have v: "valid_message m"
    using len room bounds unat_eq_0 [of len] by (auto simp: m_def valid_message_def free_bytes_def intro: gr0I)
  have fits: "length (messages_bytes ms) + 8 + unat len \<le> rb_capacity ?rb"
    using room bounds by (simp add: free_bytes_def)
  obtain r1 r2 where put: "ring_buffer_write ?e ?rb (le_bytes 8 len) 8 = Some (True, ?e, r1)"
    "ring_buffer_write ?e r1 src len = Some (True, ?e, r2)"
    "rb_holds r2 (messages_bytes ms @ message_bytes m)" "rb_capacity r2 = rb_capacity ?rb"
    using rb.put_message [OF e r len fits] unfolding m_def by auto
  have r2: "rb_holds r2 (messages_bytes (ms @ [m]))" using put(3) by simp
  let ?s1 = "signal_empty (ch_pick ch) (s\<lparr>q_mq := (q_mq s)\<lparr>mq_buffer := r2\<rparr>\<rparr>)"
  have s1: "?s1 = s\<lparr>q_mq := (q_mq s)\<lparr>mq_buffer := r2,
      space_empty := snd (pthread_cond_signal (ch_pick ch) (space_empty (q_mq s)))\<rparr>\<rparr>"
    by (simp add: signal_empty_def sync_simps)
  have h1: "mq_holds ?s1 ps (ms @ [m])"
    by (rule mq_holds_cong [OF mq_holds_rb [OF h r2]]) (use vs v in \<open>simp_all add: s1\<close>)
  have f1: "buffer_free ?s1 = (of_nat (free_bytes ?s1 (ms @ [m])), ?s1)"
    using buffer_free_ok [OF h1] by (simp add: free_bytes_def)
  have full: "(of_nat (free_bytes ?s1 (ms @ [m])) :: u64) = 0 \<longleftrightarrow> unat len + 8 = free_bytes s ms"
    using free_word [OF h1] room put(4) len(2)
    by (auto simp: free_bytes_def s1 m_def min_def simp flip: unat_eq_0)
  let ?f = "(\<lambda>e. (if unat len + 8 = free_bytes s ms \<and> \<not> no_readers (q_mq s)
                   then e AND NOT MQPOLL_WRITABLE else e) OR MQPOLL_READABLE)"
  let ?s4 = "set_event ?f ?s1"
  have h4: "mq_holds ?s4 ps (ms @ [m])" by (rule mq_holds_cong [OF h1]) (simp_all add: set_event_def)
  have p4: "pollers_ready ?s4 ps" using p by (simp add: pollers_ready_def set_event_def s1)
  have ev: "set_event (\<lambda>e. e OR MQPOLL_READABLE)
       (if unat len + 8 = free_bytes s ms \<and> \<not> no_readers (q_mq ?s1)
        then set_event (\<lambda>e. e AND NOT MQPOLL_WRITABLE) ?s1 else ?s1) = ?s4"
    by (simp add: set_event_def s1)
  have l4: "locked (?s4\<lparr>q_nodes := n\<rparr>)" for n using l by (simp add: locked_def set_event_def s1)
  have l1: "locked ?s1" using l by (simp add: locked_def s1)
  have aw: "after_write ch ps r2 (unat len + 8 = free_bytes s ms) s =
     (let s' = ?s4\<lparr>q_nodes := signalled (ch_pick ch) ps (queue_event (q_mq ?s4)) (q_nodes ?s4)\<rparr>
      in s'\<lparr>q_mq := (q_mq s')\<lparr>mq_mutex := (mq_mutex (q_mq s'))\<lparr>mutex_owner := None\<rparr>\<rparr>\<rparr>)"
    by (simp add: after_write_def Let_def set_event_def s1)
  have "write_message ch flags s src len =
      Some (if flags AND MSG_QUEUE_NONBLOCK \<noteq> 0 then (Returned (-1), after_error EAGAIN ?s1)
            else (Returned 0, after_write ch ps r2 (unat len + 8 = free_bytes s ms) s))"
    by (simp add: write_message_def put f1 full ev aw Let_def
        helper_wakeup_holds [OF h4 p4] unlock_queue_ok [OF l4] unlock_error [OF l1])
  then show ?thesis using r2 put(4) v by (auto simp: after_write_nonblock_def s1)
qed

lemma len_plus_8: "unat (len :: u64) < 2 ^ 63 \<Longrightarrow> unat (len + 8) = unat len + 8"
  by (simp add: unat_plus_small)

lemma write_loop_room:
  assumes h: "mq_holds s ps ms" and "unat len + 8 \<le> free_bytes s ms"
  shows "write_loop ch flags s src len = write_message ch flags s src len"
proof -
  have "unat len < 2 ^ 63" using assms mq_holds_bounds [OF h] by (simp add: free_bytes_def)
  with assms(2) free_word [OF h] len_plus_8 [of len] have "\<not> of_nat (free_bytes s ms) < len + 8"
    by (simp add: word_less_nat_alt)
  then show ?thesis using buffer_free_ok [OF h] by (simp add: write_loop_def free_bytes_def)
qed

lemma write_loop_wait:
  assumes h: "mq_holds s ps ms" and l: "locked s" and "unat len < 2 ^ 63" "free_bytes s ms < unat len + 8"
  shows "write_loop ch flags s src len = Some (Sleeping, asleep_writing s)"
proof -
  have "of_nat (free_bytes s ms) < len + 8"
    using assms free_word [OF h] len_plus_8 [of len] by (simp add: word_less_nat_alt)
  then show ?thesis using buffer_free_ok [OF h] l
    by (simp add: write_loop_def free_bytes_def cond_wait_own locked_def asleep_writing_def Let_def)
qed
end
