(* ===== verification/Queue_Calls.thy ===== *)
theory Queue_Calls
  imports Msg_Queue
begin

text \<open>
  What the calls of the message queue's API do: every branch of reading, writing and
  waking up, on a queue that holds a given list of messages; handles; opening and closing.
\<close>

section \<open>Calls on a ready queue\<close>

text \<open>Between calls: the backend is consistent, its mutex free, its pollers initialised.\<close>

definition mq_ready :: "queue_state \<Rightarrow> u64 list \<Rightarrow> u8 list list \<Rightarrow> bool" where
  "mq_ready s ps ms \<longleftrightarrow> mq_holds s ps ms \<and> pollers_ready s ps \<and> unlocked s"

definition with_lock :: "queue_state \<Rightarrow> queue_state" where
  "with_lock s =
     s\<lparr>q_mq := (q_mq s)\<lparr>mq_mutex := (mq_mutex (q_mq s))\<lparr>mutex_owner := Some (self (q_env s))\<rparr>\<rparr>\<rparr>"

lemma with_lock_fields [simp]:
  "q_env (with_lock s) = q_env s" "q_nodes (with_lock s) = q_nodes s" "q_heap (with_lock s) = q_heap s"
  "no_writers (q_mq (with_lock s)) = no_writers (q_mq s)"
  "no_readers (q_mq (with_lock s)) = no_readers (q_mq s)"
  "mq_buffer (q_mq (with_lock s)) = mq_buffer (q_mq s)"
  "free_bytes (with_lock s) ms = free_bytes s ms"
  "locked (with_lock s)"
  by (simp_all add: with_lock_def free_bytes_def locked_def)

lemma mq_holds_with_lock [simp]: "mq_holds (with_lock s) ps ms = mq_holds s ps ms"
  by (simp add: with_lock_def mq_holds_def q_list_def)

lemma pollers_ready_with_lock [simp]: "pollers_ready (with_lock s) ps = pollers_ready s ps"
  by (simp add: pollers_ready_def)

lemma after_with_lock [simp]:
  "after_read ch ps rb b (with_lock s) = after_read ch ps rb b s"
  "after_eof ch ps (with_lock s) = after_eof ch ps s"
  "after_error e (with_lock s) = after_error e s"
  "asleep_reading (with_lock s) = asleep_reading s"
  "asleep_writing (with_lock s) = asleep_writing s"
  "after_write ch ps rb b (with_lock s) = after_write ch ps rb b s"
  "after_write_nonblock ch rb (with_lock s) = after_write_nonblock ch rb s"
  by (simp_all add: after_read_def after_eof_def after_error_def asleep_reading_def asleep_writing_def
      after_write_def after_write_nonblock_def with_lock_def Let_def)

lemmas after_defs = after_read_def after_eof_def after_error_def asleep_reading_def
  asleep_writing_def after_write_def after_write_nonblock_def

lemma node_ready_signalled: "node_ready (nodes p) \<Longrightarrow> node_ready (signalled pick ps ev nodes p)"
  by (cases "p \<in> set ps") (auto simp: node_ready_def signalled_in signalled_other)

lemma lock_ready: "mq_ready s ps ms \<Longrightarrow> lock_queue s = Some (with_lock s)"
  by (simp add: mq_ready_def lock_queue_ok with_lock_def)

text \<open>Every call leaves the queue ready.\<close>

lemma mq_readyI:
  assumes "mq_ready s ps ms" "mq_list_head (q_mq s') = mq_list_head (q_mq s)"
    "mq_list_validator (q_mq s') = mq_list_validator (q_mq s)"
    "self (q_env s') = self (q_env s)" "q_heap s' = q_heap s"
    "rb_holds (mq_buffer (q_mq s')) (messages_bytes ms')" "\<forall>m \<in> set ms'. valid_message m"
    "\<forall>p \<in> set ps. node_ready (q_nodes s p) \<longrightarrow> node_ready (q_nodes s' p)"
    "mutex_owner (mq_mutex (q_mq s')) = None"
  shows "mq_ready s' ps ms'"
  using assms by (auto simp: mq_ready_def mq_holds_def has_tid_def list_rep_def q_list_def
      pollers_ready_def unlocked_def)

lemma mq_ready_rb: "mq_ready s ps ms \<Longrightarrow> rb_holds (mq_buffer (q_mq s)) (messages_bytes ms)"
  and mq_ready_valid: "mq_ready s ps ms \<Longrightarrow> \<forall>m \<in> set ms. valid_message m"
  by (simp_all add: mq_ready_def mq_holds_def)

lemma after_ready:
  assumes r: "mq_ready s ps ms"
  shows "mq_ready (after_eof ch ps s) ps ms" "mq_ready (after_error e s) ps ms"
    "mq_ready (asleep_reading s) ps ms" "mq_ready (asleep_writing s) ps ms"
  using mq_ready_rb [OF r] mq_ready_valid [OF r]
  by (auto intro!: mq_readyI [OF r] simp: after_defs Let_def node_ready_signalled)

lemma after_read_ready:
  assumes "mq_ready s ps (m # ms)" "rb_holds rb (messages_bytes ms)"
  shows "mq_ready (after_read ch ps rb b s) ps ms"
  using assms(2) mq_ready_valid [OF assms(1)]
  by (auto intro!: mq_readyI [OF assms(1)] simp: after_defs Let_def node_ready_signalled)

lemma after_write_ready:
  assumes "mq_ready s ps ms" "rb_holds rb (messages_bytes (ms @ [m]))" "valid_message m"
  shows "mq_ready (after_write ch ps rb b s) ps (ms @ [m])"
    and "mq_ready (after_write_nonblock ch rb s) ps (ms @ [m])"
  using assms(2,3) mq_ready_valid [OF assms(1)]
  by (auto intro!: mq_readyI [OF assms(1)] simp: after_defs Let_def node_ready_signalled
      simp del: messages_bytes_simps)

subsection \<open>Reading\<close>

lemma mq_read_loop:
  assumes "mq_ready s ps ms" and "ms \<noteq> [] \<or> \<not> no_writers (q_mq s)"
  shows "mq_read ch flags s out len = read_loop ch flags (with_lock s) out len"
proof -
  have h: "mq_holds (with_lock s) ps ms" and "lock_queue s = Some (with_lock s)"
    using assms(1) lock_ready [OF assms(1)] by (simp_all add: mq_ready_def)
  then show ?thesis
    using assms(2) buffer_used_ok [OF h] used_eq_0 [OF h] by (auto simp: mq_read_def)
qed

lemma mq_read_message:
  assumes r: "mq_ready s ps (m # ms)" and len: "length m \<le> unat len" "length m \<le> length out"
  shows "\<exists>rb. mq_read ch flags s out len =
           Some (Returned (int (length m)), m @ drop (length m) out, after_read ch ps rb (ms \<noteq> []) s) \<and>
           rb_holds rb (messages_bytes ms) \<and> rb_capacity rb = rb_capacity (mq_buffer (q_mq s))"
  using mq_read_loop [OF r] read_loop_message [of "with_lock s" ps m ms len out ch flags] assms
  by (simp add: mq_ready_def)

lemma mq_read_empty:
  assumes r: "mq_ready s ps []"
  shows "mq_read ch flags s out len =
     Some (if no_writers (q_mq s) then (Returned 0, out, after_eof ch ps s)
           else if flags AND MSG_QUEUE_NONBLOCK \<noteq> 0 then (Returned (-1), out, after_error EAGAIN s)
           else (Sleeping, out, asleep_reading s))"
proof (cases "no_writers (q_mq s)")
  case True
  have h: "mq_holds (with_lock s) ps []" and p: "pollers_ready (with_lock s) ps"
    and "lock_queue s = Some (with_lock s)"
    using r lock_ready [OF r] by (simp_all add: mq_ready_def)
  with True show ?thesis
    using buffer_used_ok [OF h] read_eof_ok [OF h p] by (simp add: mq_read_def)
next
  case False
  then show ?thesis
    using mq_read_loop [OF r] read_loop_empty [of "with_lock s" ps ch flags out len] r
    by (simp add: mq_ready_def)
qed

lemma mq_read_too_small:
  assumes r: "mq_ready s ps (m # ms)" and len: "unat len < length m"
  shows "mq_read ch flags s out len = None"
  using mq_read_loop [OF r] read_loop_too_small [of "with_lock s" ps m ms len ch flags out] assms
  by (simp add: mq_ready_def)

text \<open>A woken reader: \<open>t\<close> leaves the woken threads and runs the loop.\<close>

definition woken_reader :: "queue_state \<Rightarrow> queue_state" where
  "woken_reader s =
     s\<lparr>q_mq := (q_mq s)\<lparr>space_empty := (space_empty (q_mq s))
          \<lparr>woken := remove1 (self (q_env s)) (woken (space_empty (q_mq s)))\<rparr>\<rparr>\<rparr>"

definition woken_writer :: "queue_state \<Rightarrow> queue_state" where
  "woken_writer s =
     s\<lparr>q_mq := (q_mq s)\<lparr>space_full := (space_full (q_mq s))
          \<lparr>woken := remove1 (self (q_env s)) (woken (space_full (q_mq s)))\<rparr>\<rparr>\<rparr>"

lemma woken_ready [simp]:
  "mq_ready (woken_reader s) ps ms = mq_ready s ps ms"
  "mq_ready (woken_writer s) ps ms = mq_ready s ps ms"
  by (simp_all add: woken_reader_def woken_writer_def mq_ready_def mq_holds_def q_list_def
      pollers_ready_def unlocked_def)

lemma read_resume_loop:
  assumes "mq_ready s ps ms" "self (q_env s) \<in> set (woken (space_empty (q_mq s)))"
  shows "read_resume ch flags s out len = read_loop ch flags (with_lock (woken_reader s)) out len"
  using assms by (simp add: read_resume_def cond_wakeup_def pthread_mutex_lock_def mq_ready_def
      unlocked_def with_lock_def woken_reader_def)

lemma write_resume_loop:
  assumes "mq_ready s ps ms" "self (q_env s) \<in> set (woken (space_full (q_mq s)))"
  shows "write_resume ch flags s src len = write_loop ch flags (with_lock (woken_writer s)) src len"
  using assms by (simp add: write_resume_def cond_wakeup_def pthread_mutex_lock_def mq_ready_def
      unlocked_def with_lock_def woken_writer_def)

subsection \<open>Writing\<close>

lemma write_loop_ready:
  assumes r: "mq_ready s ps ms" and len: "len \<noteq> 0" "unat len \<le> length src" "unat len < 2 ^ 63"
  defines "m \<equiv> take (unat len) src"
  shows "if unat len + 8 \<le> free_bytes s ms
         then \<exists>rb. write_loop ch flags (with_lock s) src len =
                Some (if flags AND MSG_QUEUE_NONBLOCK \<noteq> 0
                      then (Returned (-1), after_write_nonblock ch rb s)
                      else (Returned 0, after_write ch ps rb (unat len + 8 = free_bytes s ms) s)) \<and>
                rb_holds rb (messages_bytes (ms @ [m])) \<and>
                rb_capacity rb = rb_capacity (mq_buffer (q_mq s)) \<and> valid_message m
         else write_loop ch flags (with_lock s) src len = Some (Sleeping, asleep_writing s)"
proof (cases "unat len + 8 \<le> free_bytes s ms")
  case True
  then show ?thesis
    using write_loop_room [of "with_lock s" ps ms len ch flags src]
      write_message_ok [of "with_lock s" ps ms len src ch flags] r len
    by (simp add: mq_ready_def m_def cong: if_cong split del: if_split)
next
  case False
  then show ?thesis
    using write_loop_wait [of "with_lock s" ps ms len ch flags src] r len by (simp add: mq_ready_def)
qed

text \<open>The checks at the start of a write.\<close>

lemma mq_write_no_readers:
  assumes "mq_ready s ps ms" "no_readers (q_mq s)"
  shows "mq_write ch flags s src len = Some (Returned (-1), after_error EPIPE s)"
proof -
  have "lock_queue s = Some (with_lock s)" using assms(1) by (rule lock_ready)
  then show ?thesis using assms(2) unlock_error [of "with_lock s" EPIPE] by (simp add: mq_write_def)
qed

lemma mq_write_too_large:
  assumes "mq_ready s ps ms" "\<not> no_readers (q_mq s)" "unat len < 2 ^ 63"
    and "rb_capacity (mq_buffer (q_mq s)) \<le> unat len + 8"
  shows "mq_write ch flags s src len = Some (Returned (-1), after_error EMSGSIZE s)"
proof -
  have "lock_queue s = Some (with_lock s)" using assms(1) by (rule lock_ready)
  moreover have "rb_size (mq_buffer (q_mq s)) \<le> len + 8"
    using assms(3,4) len_plus_8 [of len] by (simp add: word_le_nat_alt rb_capacity_def)
  ultimately show ?thesis using assms(2) unlock_error [of "with_lock s" EMSGSIZE] by (simp add: mq_write_def)
qed

lemma mq_write_loop:
  assumes "mq_ready s ps ms" "\<not> no_readers (q_mq s)" "unat len < 2 ^ 63"
    and "unat len + 8 < rb_capacity (mq_buffer (q_mq s))"
  shows "mq_write ch flags s src len = write_loop ch flags (with_lock s) src len"
proof -
  have "lock_queue s = Some (with_lock s)" using assms(1) by (rule lock_ready)
  moreover have "\<not> rb_size (mq_buffer (q_mq s)) \<le> len + 8"
    using assms(3,4) len_plus_8 [of len] by (simp add: word_le_nat_alt rb_capacity_def)
  ultimately show ?thesis using assms(2) by (simp add: mq_write_def)
qed

section \<open>Handles\<close>

lemma scast_flags: "(scast (NOT ALL_FLAGS) :: u64) = NOT 7" "(scast ALL_FLAGS :: u64) = 7" "ALL_FLAGS = 7"
  by (simp_all add: ALL_FLAGS_def)

lemma bits_7: "bit (7 :: 'a::len word) n \<longleftrightarrow> n < 3 \<and> n < LENGTH('a)"
proof -
  have "(7 :: 'a::len word) = mask 3" by (simp add: mask_eq_exp_minus_1)
  then have "bit (7 :: 'a word) n = bit (mask 3 :: 'a word) n" by (rule arg_cong)
  also have "\<dots> \<longleftrightarrow> n < 3 \<and> n < LENGTH('a)" by (auto simp only: bit_mask_iff possible_bit_word)
  finally show ?thesis .
qed

lemma bits_m8: "bit (- 8 :: u64) n \<longleftrightarrow> 3 \<le> n \<and> n < 64"
proof -
  have "(- 8 :: u64) = NOT 7" by simp
  then have "bit (- 8 :: u64) n = bit (NOT 7 :: u64) n" by (rule arg_cong)
  also have "\<dots> \<longleftrightarrow> 3 \<le> n \<and> n < 64"
    using bits_7 [where 'a = 64, of n] by (auto simp only: bit_not_iff possible_bit_word) auto
  finally show ?thesis .
qed

lemma flags_low: "(flags :: u32) AND NOT 7 = 0 \<Longrightarrow> bit flags n \<Longrightarrow> n < 3"
  using bit_imp_le_length [of flags n]
  by (metis bit_and_iff bit_not_iff bits_7 bit_0_eq bot_apply bot_bool_def bit_imp_possible_bit)

lemma handle_bits:
  assumes a: "(a::u64) AND 7 = 0" and f: "(flags :: u32) AND NOT 7 = 0"
  shows "(a OR scast flags) AND NOT 7 = a" "ucast ((a OR scast flags) AND 7) = flags"
proof -
  have a3: "\<not> bit a n" if "n < 3" for n
  proof -
    have "bit (7 :: u64) n" using that bits_7 [where 'a = 64, of n] by simp
    moreover have "\<not> bit (a AND 7) n" by (simp add: a)
    ultimately show ?thesis by (simp add: bit_and_iff)
  qed
  have sc: "bit (scast flags :: u64) n \<longleftrightarrow> bit flags n" for n
    using flags_low [OF f, of n] flags_low [OF f, of 31] by (cases "n < 31") (auto simp: bit_simps min_def)
  show "(a OR scast flags) AND NOT 7 = a"
  proof (rule bit_word_eqI)
    fix n show "bit ((a OR scast flags) AND NOT 7) n = bit a n" if "n < LENGTH(64)"
      using a3 [of n] flags_low [OF f, of n] that bits_m8 [of n] by (auto simp: bit_and_iff bit_or_iff sc)
  qed
  show "ucast ((a OR scast flags) AND 7) = flags"
  proof (rule bit_word_eqI)
    fix n show "bit (ucast ((a OR scast flags) AND 7) :: u32) n = bit flags n" if "n < LENGTH(32)"
      using a3 [of n] flags_low [OF f, of n] that bits_7 [where 'a = 64, of n]
      by (auto simp: bit_and_iff bit_or_iff sc bit_ucast_iff)
  qed
qed

lemma make_handle_ok:
  assumes "a AND 7 = 0" "a \<noteq> 0" "flags AND NOT ALL_FLAGS = 0"
  shows "\<exists>h. make_handle a flags = Some h \<and> get_backend h = Some a \<and> get_flags h = flags \<and> h \<noteq> 0"
proof -
  have f: "flags AND NOT 7 = 0" using assms(3) by (simp only: scast_flags)
  note bits = handle_bits [OF assms(1) f]
  have "make_handle a flags = Some (a OR scast flags)"
    using assms(1) f by (simp only: make_handle_def scast_flags) simp
  moreover have "get_backend (a OR scast flags) = Some a"
    using bits(1) assms(2) by (simp only: get_backend_def scast_flags Let_def) simp
  moreover have "get_flags (a OR scast flags) = flags"
    using bits(2) by (simp only: get_flags_def scast_flags(2))
  moreover have "a OR scast flags \<noteq> 0" using bits(1) assms(2) by auto
  ultimately show ?thesis by blast
qed

section \<open>Opening and closing\<close>

text \<open>\<open>counts mq fs\<close>: the flags of the open handles are \<open>fs\<close>.\<close>

definition reads :: "u32 \<Rightarrow> bool" where
  "reads f \<longleftrightarrow> f AND MSG_QUEUE_READER \<noteq> 0"

definition writes :: "u32 \<Rightarrow> bool" where
  "writes f \<longleftrightarrow> f AND MSG_QUEUE_WRITER \<noteq> 0"

definition counts :: "mq_backend \<Rightarrow> u32 list \<Rightarrow> bool" where
  "counts mq fs \<longleftrightarrow> unat (refs mq) = length fs \<and> unat (readers mq) = length (filter reads fs) \<and>
                   unat (writers mq) = length (filter writes fs)"

text \<open>Nothing but the counters and the two closed-flags differs.\<close>

definition same_queue :: "mq_backend \<Rightarrow> mq_backend \<Rightarrow> bool" where
  "same_queue mq mq' \<longleftrightarrow>
     mq' = mq\<lparr>refs := refs mq', readers := readers mq', writers := writers mq',
              no_readers := no_readers mq', no_writers := no_writers mq'\<rparr>"

lemma unat_Suc: "unat (x :: u64) < 2 ^ 64 - 1 \<Longrightarrow> unat (x + 1) = Suc (unat x)"
  using unat_plus_small [of x 1] by simp

lemma unat_pred: "0 < unat (x :: u64) \<Longrightarrow> unat (x - 1) = unat x - 1"
  by (rule unat_minus_one) auto

lemma length_filter_remove1:
  "x \<in> set xs \<Longrightarrow> length (filter P (remove1 x xs)) = length (filter P xs) - (if P x then 1 else 0)"
  by (simp add: filter_remove1 length_remove1)


lemma mq_open_counts:
  assumes "counts mq fs" "length fs < 2 ^ 64 - 1" "a AND 7 = 0" "a \<noteq> 0" "f AND NOT ALL_FLAGS = 0"
  shows "\<exists>h mq'. mq_open a mq f = Some (h, mq') \<and> get_backend h = Some a \<and> get_flags h = f \<and>
           counts mq' (f # fs) \<and> same_queue mq mq' \<and>
           no_readers mq' = (no_readers mq \<and> \<not> reads f) \<and> no_writers mq' = (no_writers mq \<and> \<not> writes f)"
proof -
  obtain h where h: "make_handle a f = Some h" "get_backend h = Some a" "get_flags h = f"
    using make_handle_ok assms(3-5) by blast
  have small: "length (filter P fs) < 2 ^ 64 - 1" for P
    by (rule le_less_trans [OF length_filter_le assms(2)])
  show ?thesis
    using assms(1,2) small [of reads] small [of writes] h
    by (simp add: mq_open_def counts_def same_queue_def unat_Suc Let_def flip: reads_def writes_def)
qed

lemma mq_close_counts:
  assumes c: "counts mq fs" and f: "f \<in> set fs"
  shows "\<exists>mq'. mq_close mq f = Some (fs = [f], mq') \<and> counts mq' (remove1 f fs) \<and> same_queue mq mq' \<and>
           no_readers mq' = (no_readers mq \<or> reads f \<and> filter reads (remove1 f fs) = []) \<and>
           no_writers mq' = (no_writers mq \<or> writes f \<and> filter writes (remove1 f fs) = [])"
proof -
  have pos: "P f \<Longrightarrow> 0 < length (filter P fs)" for P
    using f by (auto simp: filter_empty_conv)
  have len: "length (remove1 f fs) = length fs - 1" using f by (simp add: length_remove1)
  have r: "reads f \<Longrightarrow> unat (readers mq - 1) = length (filter reads fs) - 1"
    and w: "writes f \<Longrightarrow> unat (writers mq - 1) = length (filter writes fs) - 1"
    and n: "unat (refs mq - 1) = length fs - 1"
    using c pos [of reads] pos [of writes] length_pos_if_in_set [OF f] unat_pred [of "readers mq"]
      unat_pred [of "writers mq"] unat_pred [of "refs mq"]
    by (simp_all only: counts_def)
  have r0: "reads f \<Longrightarrow> readers mq - 1 = 0 \<longleftrightarrow> filter reads (remove1 f fs) = []"
    unfolding unat_eq_0 [symmetric] length_0_conv [symmetric] by (simp only: r length_filter_remove1 [OF f] if_True)
  have w0: "writes f \<Longrightarrow> writers mq - 1 = 0 \<longleftrightarrow> filter writes (remove1 f fs) = []"
    unfolding unat_eq_0 [symmetric] length_0_conv [symmetric] by (simp only: w length_filter_remove1 [OF f] if_True)
  have n0: "refs mq - 1 = 0 \<longleftrightarrow> fs = [f]"
    unfolding unat_eq_0 [symmetric] n using f by (cases fs) (auto simp: length_Suc_conv)
  have "refs mq \<noteq> 0" "readers mq \<le> refs mq" "writers mq \<le> refs mq"
    using c f by (auto simp: counts_def word_le_nat_alt)
  moreover have "fs = [f] \<Longrightarrow> \<not> reads f \<Longrightarrow> readers mq = 0" "fs = [f] \<Longrightarrow> \<not> writes f \<Longrightarrow> writers mq = 0"
    using c by (auto simp: counts_def simp flip: unat_eq_0)
  moreover have "fs = [f] \<Longrightarrow> reads f \<Longrightarrow> readers mq - 1 = 0" "fs = [f] \<Longrightarrow> writes f \<Longrightarrow> writers mq - 1 = 0"
    using r0 w0 by auto
  ultimately have eq: "mq_close mq f = Some (fs = [f], mq\<lparr>refs := refs mq - 1,
      readers := (if reads f then readers mq - 1 else readers mq),
      writers := (if writes f then writers mq - 1 else writers mq),
      no_readers := no_readers mq \<or> reads f \<and> readers mq - 1 = 0,
      no_writers := no_writers mq \<or> writes f \<and> writers mq - 1 = 0\<rparr>)"
    unfolding mq_close_def reads_def [symmetric] writes_def [symmetric] Let_def
    using n0 by (cases "reads f"; cases "writes f"; cases "fs = [f]"; cases "readers mq - 1 = 0"; cases "writers mq - 1 = 0"; simp)
  show ?thesis
    using c r w n len length_filter_remove1 [OF f, of reads] length_filter_remove1 [OF f, of writes] r0 w0
    by (cases "reads f"; cases "writes f") (simp_all add: eq counts_def same_queue_def)
qed


section \<open>The calls of the API\<close>

text \<open>A new queue is empty, has one handle and no pollers.\<close>

lemma mq_init_ok:
  assumes "length mem = unat cap" "0 < cap" "cap < 2 ^ 63" "mq_list_head (q_mq s) \<in> dom (q_heap s)"
    "mq_list_head (q_mq s) \<noteq> 0" "has_tid (q_env s)"
  shows "\<exists>s'. mq_init s (Some mem) cap = Some (0, s') \<and> mq_ready s' [] [] \<and> counts (q_mq s') [] \<and>
           rb_size (mq_buffer (q_mq s')) = cap \<and> \<not> no_readers (q_mq s') \<and> \<not> no_writers (q_mq s') \<and>
           q_env s' = q_env s \<and> queue_event (q_mq s') = queue_event (q_mq s) \<and>
           space_full (q_mq s') = \<lparr>waiting = [], woken = []\<rparr> \<and> space_empty (q_mq s') = \<lparr>waiting = [], woken = []\<rparr>"
proof -
  obtain rb where rb: "ring_buffer_init (q_env s) (Some mem) (mq_buffer (q_mq s)) cap = Some (0, q_env s, rb)"
    "rb_holds rb []" "rb_size rb = cap"
    using ring_buffer_init_ok [OF assms(1-3)] by blast
  let ?l = "\<lparr>entries = q_heap s, list_validator = mq_list_validator (q_mq s), caller = q_env s\<rparr>"
  obtain ls where ls: "list_init ?l (mq_list_head (q_mq s)) = Some ls"
    "list_rep ls (mq_list_head (q_mq s)) []" "caller ls = q_env s"
    using list_init_rep [of ?l "mq_list_head (q_mq s)"] assms(4-6) by (auto simp: entry_in_def has_tid_def)
  show ?thesis
    using rb ls assms(6)
    by (simp add: mq_init_def mutex_init_def pthread_mutex_init_def cond_init_def pthread_cond_init_def
        mq_ready_def mq_holds_def q_list_def pollers_ready_def unlocked_def counts_def list_rep_def)
qed

lemma after_env [simp]:
  "q_env (after_read ch ps rb b s) = q_env s" "q_env (after_eof ch ps s) = q_env s"
  "q_env (after_error e s) = (q_env s)\<lparr>errno := e\<rparr>" "q_env (asleep_reading s) = q_env s"
  "q_env (asleep_writing s) = q_env s" "q_env (after_write ch ps rb b s) = q_env s"
  "q_env (after_write_nonblock ch rb s) = (q_env s)\<lparr>errno := EAGAIN\<rparr>"
  by (simp_all add: after_defs Let_def)

lemma load_env: "load_queue env w a = Some s \<Longrightarrow> q_env s = env"
  by (auto simp: load_queue_def bind_eq_Some_conv)

lemma msg_queue_open_at:
  assumes "get_backend h = Some a" "load_queue env w a = Some s" "unlocked s"
    and "mq_open a (q_mq (with_lock s)) f = Some (h', mq)" "same_queue (q_mq (with_lock s)) mq"
    and "h \<noteq> 0" "f AND NOT ALL_FLAGS = 0"
  shows "msg_queue_open env w h f =
    Some (h', env, store_queue w a (s\<lparr>q_mq := mq\<lparr>mq_mutex := mq_mutex (q_mq s)\<rparr>\<rparr>))"
proof -
  have "mq_mutex mq = (mq_mutex (q_mq s))\<lparr>mutex_owner := Some (self (q_env s))\<rparr>"
    using arg_cong [OF assms(5) [unfolded same_queue_def], of mq_mutex] by (simp add: with_lock_def)
  moreover have "(mq_mutex (q_mq s))\<lparr>mutex_owner := None\<rparr> = mq_mutex (q_mq s)"
    using assms(3) by (cases "mq_mutex (q_mq s)") (simp add: unlocked_def)
  moreover have "q_env s = env" using assms(2) by (rule load_env)
  moreover have "lock_queue s = Some (with_lock s)" using assms(3) by (simp add: lock_queue_ok with_lock_def)
  ultimately show ?thesis
    using assms(1,2,4,6,7) by (simp add: msg_queue_open_def unlock_queue_def mutex_unlock_own with_lock_def
        store_queue_def)
qed

text \<open>C13. \<open>make_handle\<close>, \<open>get_backend\<close> and \<open>get_flags\<close>: for every aligned non-null backend
  address and all valid flags, a handle can be made, it is not the null handle, and the address
  and the flags are read back from it unchanged.\<close>

theorem handle_roundtrip:
  assumes "a AND 7 = 0" "a \<noteq> 0" "flags AND NOT ALL_FLAGS = 0"
  shows "\<exists>h. make_handle a flags = Some h \<and> h \<noteq> MSG_QUEUE_NULL \<and>
           get_backend h = Some a \<and> get_flags h = flags"
  using make_handle_ok [OF assms] by blast

theorem handle_roundtrip_witness:
  "\<exists>h. make_handle 0x55d0c0ffee40 6 = Some h \<and> h \<noteq> MSG_QUEUE_NULL \<and>
     get_backend h = Some 0x55d0c0ffee40 \<and> get_flags h = 6"
  by (rule handle_roundtrip) (simp_all add: ALL_FLAGS_def)

text \<open>C5. \<open>msg_queue_read\<close> on a reader handle of a queue whose first message \<open>m\<close> fits the
  caller's buffer returns the length of \<open>m\<close>, copies \<open>m\<close> (and nothing else) into the buffer,
  leaves the other messages in their order, signals one sleeping writer, records the queue as
  writable, wakes the pollers that asked for it, and leaves the queue ready for the next call.\<close>

theorem msg_queue_read_message:
  assumes "get_backend h = Some a" "reads (get_flags h)" "load_queue env w a = Some s"
    and r: "mq_ready s ps (m # ms)" and len: "length m \<le> unat len" "length m \<le> length out"
  shows "\<exists>rb. let s' = after_read ch ps rb (ms \<noteq> []) s in
           msg_queue_read ch env w h out len =
             Some (Returned (int (length m)), m @ drop (length m) out, env, store_queue w a s') \<and>
           mq_ready s' ps ms \<and> rb_capacity rb = rb_capacity (mq_buffer (q_mq s))"
proof -
  obtain rb where rb: "mq_read ch (get_flags h) s out len =
       Some (Returned (int (length m)), m @ drop (length m) out, after_read ch ps rb (ms \<noteq> []) s)"
     "rb_holds rb (messages_bytes ms)" "rb_capacity rb = rb_capacity (mq_buffer (q_mq s))"
    using mq_read_message [OF r len] by blast
  with load_env [OF assms(3)] assms after_read_ready [OF r rb(2)] show ?thesis
    by (intro exI [of _ rb]) (simp add: msg_queue_read_def reads_def Let_def)
qed

text \<open>C6. \<open>msg_queue_read\<close> on a reader handle of an empty queue: end of file (result 0) when
  all writers have closed, \<open>EAGAIN\<close> for a non-blocking handle, and otherwise the thread goes to
  sleep on \<open>space_empty\<close> with the mutex released; the queue stays ready in each case.\<close>

theorem msg_queue_read_empty:
  assumes "get_backend h = Some a" "reads (get_flags h)" "load_queue env w a = Some s" "mq_ready s ps []"
  shows "msg_queue_read ch env w h out len =
     (if no_writers (q_mq s)
      then Some (Returned 0, out, env, store_queue w a (after_eof ch ps s))
      else if get_flags h AND MSG_QUEUE_NONBLOCK \<noteq> 0
      then Some (Returned (-1), out, env\<lparr>errno := EAGAIN\<rparr>, store_queue w a (after_error EAGAIN s))
      else Some (Sleeping, out, env, store_queue w a (asleep_reading s))) \<and>
     mq_ready (after_eof ch ps s) ps [] \<and> mq_ready (after_error EAGAIN s) ps [] \<and>
     mq_ready (asleep_reading s) ps []"
proof -
  have "q_env s = env" using assms(3) by (rule load_env)
  with assms have "msg_queue_read ch env w h out len =
     (if no_writers (q_mq s)
      then Some (Returned 0, out, env, store_queue w a (after_eof ch ps s))
      else if get_flags h AND MSG_QUEUE_NONBLOCK \<noteq> 0
      then Some (Returned (-1), out, env\<lparr>errno := EAGAIN\<rparr>, store_queue w a (after_error EAGAIN s))
      else Some (Sleeping, out, env, store_queue w a (asleep_reading s)))"
    by (simp add: msg_queue_read_def reads_def mq_read_empty)
  with after_ready [OF assms(4)] show ?thesis by blast
qed

text \<open>C7. \<open>msg_queue_read\<close> with a buffer shorter than the first message, which the interface
  documents as \<open>EMSGSIZE\<close> with the message left in the queue, never returns in a defined way:
  after setting \<open>errno\<close> and unlocking, the code goes on reading and unlocks again.\<close>

theorem msg_queue_read_too_small:
  assumes "get_backend h = Some a" "reads (get_flags h)" "load_queue env w a = Some s"
    and "mq_ready s ps (m # ms)" "unat len < length m"
  shows "msg_queue_read ch env w h out len = None"
  using assms mq_read_too_small [OF assms(4,5)] by (simp add: msg_queue_read_def reads_def)

text \<open>C4. \<open>msg_queue_write\<close> of a message of \<open>len > 0\<close> bytes on a writer handle, all branches:
  \<open>EPIPE\<close> when all readers have closed; \<open>EMSGSIZE\<close> when the message and its header do not
  leave at least one byte of the capacity; sleep on \<open>space_full\<close> when there is not enough free
  space; and otherwise the message is appended behind the others and one sleeping reader is
  signalled.  In that last case a blocking handle returns 0 and wakes the pollers; a
  non-blocking one returns -1 with \<open>EAGAIN\<close> although the message has been queued.\<close>

theorem msg_queue_write_message:
  assumes "get_backend h = Some a" "writes (get_flags h)" "load_queue env w a = Some s"
    and r: "mq_ready s ps ms" and len: "len \<noteq> 0" "unat len \<le> length src" "unat len < 2 ^ 63"
  shows "if no_readers (q_mq s)
         then msg_queue_write ch env w h src len =
                Some (Returned (-1), env\<lparr>errno := EPIPE\<rparr>, store_queue w a (after_error EPIPE s))
         else if rb_capacity (mq_buffer (q_mq s)) \<le> unat len + 8
         then msg_queue_write ch env w h src len =
                Some (Returned (-1), env\<lparr>errno := EMSGSIZE\<rparr>, store_queue w a (after_error EMSGSIZE s))
         else if free_bytes s ms < unat len + 8
         then msg_queue_write ch env w h src len =
                Some (Sleeping, env, store_queue w a (asleep_writing s)) \<and> mq_ready (asleep_writing s) ps ms
         else \<exists>rb. let m = take (unat len) src;
                       s' = (if get_flags h AND MSG_QUEUE_NONBLOCK \<noteq> 0 then after_write_nonblock ch rb s
                             else after_write ch ps rb (unat len + 8 = free_bytes s ms) s)
              in msg_queue_write ch env w h src len =
                   Some (Returned (if get_flags h AND MSG_QUEUE_NONBLOCK \<noteq> 0 then -1 else 0),
                         if get_flags h AND MSG_QUEUE_NONBLOCK \<noteq> 0 then env\<lparr>errno := EAGAIN\<rparr> else env,
                         store_queue w a s') \<and>
                 mq_ready s' ps (ms @ [m]) \<and> rb_capacity rb = rb_capacity (mq_buffer (q_mq s))"
proof -
  have env: "q_env s = env" using assms(3) by (rule load_env)
  have wr: "msg_queue_write ch env w h src len =
      map_option (\<lambda>(r, s'). (r, q_env s', store_queue w a s')) (mq_write ch (get_flags h) s src len)"
    using assms(1-3) len(1) by (simp add: msg_queue_write_def writes_def map_conv_bind_option comp_def split_def)
  consider (pipe) "no_readers (q_mq s)"
    | (large) "\<not> no_readers (q_mq s)" "rb_capacity (mq_buffer (q_mq s)) \<le> unat len + 8"
    | (loop) "\<not> no_readers (q_mq s)" "unat len + 8 < rb_capacity (mq_buffer (q_mq s))" by linarith
  then show ?thesis
  proof cases
    case pipe
    then show ?thesis using mq_write_no_readers [OF r] by (simp add: wr env)
  next
    case large
    then show ?thesis using mq_write_too_large [OF r _ len(3)] by (simp add: wr env)
  next
    case loop
    note w = mq_write_loop [OF r loop(1) len(3) loop(2), of ch "get_flags h" src]
    note spec = write_loop_ready [OF r len, of ch "get_flags h"]
    show ?thesis
    proof (cases "unat len + 8 \<le> free_bytes s ms")
      case False
      with spec loop show ?thesis
        using after_ready(4) [OF r] by (simp add: wr w env)
    next
      case True
      with spec obtain rb where rb: "write_loop ch (get_flags h) (with_lock s) src len =
           Some (if get_flags h AND MSG_QUEUE_NONBLOCK \<noteq> 0
                 then (Returned (-1), after_write_nonblock ch rb s)
                 else (Returned 0, after_write ch ps rb (unat len + 8 = free_bytes s ms) s))"
        "rb_holds rb (messages_bytes (ms @ [take (unat len) src]))"
        "rb_capacity rb = rb_capacity (mq_buffer (q_mq s))" "valid_message (take (unat len) src)"
        by auto
      show ?thesis
        unfolding if_not_P [OF loop(1)] if_not_P [OF loop(2) [unfolded not_le [symmetric]]] if_not_P [OF leD [OF True]]
        by (rule exI [of _ rb]) (use rb(1,3) after_write_ready [OF r rb(2,4)] in
             \<open>simp_all add: wr w env Let_def del: messages_bytes_simps\<close>)
    qed
  qed
qed

text \<open>A concrete queue of 32 bytes for the examples: it holds the messages \<open>ms\<close> (at most 32
  bytes of them), and a reader and a writer handle are open.\<close>

definition demo_rb :: "u8 list \<Rightarrow> ring_buffer" where
  "demo_rb bs = \<lparr>rb_buffer = bs @ replicate (32 - length bs) poison, rb_size = 32, rb_head = 0,
     rb_tail = of_nat (length bs), rb_full = False, rb_validator = \<lparr>vname = ''ring_buffer'', owner = 0\<rparr>\<rparr>"

definition demo_mq :: "u8 list \<Rightarrow> mq_backend" where
  "demo_mq bs = \<lparr>mq_buffer = demo_rb bs, refs = 2, readers = 1, writers = 1, no_readers = False,
     no_writers = False, mq_mutex = \<lparr>mutex_owner = None\<rparr>, space_full = \<lparr>waiting = [], woken = []\<rparr>,
     space_empty = \<lparr>waiting = [], woken = []\<rparr>, queue_event = 0, mq_list_head = 0x1040,
     mq_list_validator = \<lparr>vname = ''list_head'', owner = 0\<rparr>\<rparr>"

definition demo_mem :: "u8 list \<Rightarrow> queue_mem" where
  "demo_mem bs = \<lparr>backends = [0x1000 \<mapsto> demo_mq bs],
     mem_entries = [0x1040 \<mapsto> \<lparr>le_next = 0x1040, le_prev = 0x1040\<rparr>], mem_nodes = Map.empty\<rparr>"

definition demo_state :: "u8 list \<Rightarrow> queue_state" where
  "demo_state bs = \<lparr>q_env = fresh_env 7, q_mq = demo_mq bs,
     q_heap = [0x1040 \<mapsto> \<lparr>le_next = 0x1040, le_prev = 0x1040\<rparr>], q_nodes = Map.empty\<rparr>"

lemma demo_load: "load_queue (fresh_env 7) (demo_mem bs) 0x1000 = Some (demo_state bs)"
  by (simp add: load_queue_def demo_mem_def demo_state_def)

lemma demo_rb_holds:
  assumes "length bs < 32"
  shows "rb_holds (demo_rb bs) bs"
  using assms by (simp add: rb_holds_def demo_rb_def rb_rep_def Let_def unat_of_nat_u64)

lemma demo_ready:
  assumes "length (messages_bytes ms) < 32" "\<forall>m \<in> set ms. valid_message m"
  shows "mq_ready (demo_state (messages_bytes ms)) [] ms"
  using assms demo_rb_holds [of "messages_bytes ms"]
  by (simp add: mq_ready_def mq_holds_def demo_state_def demo_mq_def has_tid_def fresh_env_def list_rep_def
      q_list_def dll_def get_next_def get_prev_def pollers_ready_def unlocked_def)

lemma demo_fields [simp]:
  "no_readers (q_mq (demo_state bs)) = False" "no_writers (q_mq (demo_state bs)) = False"
  "rb_capacity (mq_buffer (q_mq (demo_state bs))) = 32"
  by (simp_all add: demo_state_def demo_mq_def demo_rb_def rb_capacity_def)

lemma demo_handle:
  "get_backend 0x1001 = Some 0x1000" "get_flags 0x1001 = 1" "get_backend 0x1002 = Some 0x1000"
  "get_flags 0x1002 = 2" "get_backend 0x1006 = Some 0x1000" "get_flags 0x1006 = 6"
  by (simp_all add: get_backend_def get_flags_def ALL_FLAGS_def)

definition demo_chance :: chance where
  "demo_chance = \<lparr>ch_pick = 0, ch_stack = 0xDEADBEEF\<rparr>"

definition demo_msgs :: "u8 list list" where
  "demo_msgs = [[1, 2, 3]]"

lemma demo_msgs_ready: "mq_ready (demo_state (messages_bytes demo_msgs)) [] ([1, 2, 3] # [])"
  using demo_ready [of demo_msgs] by (simp add: demo_msgs_def valid_message_def)

lemma demo_empty_ready: "mq_ready (demo_state []) [] []"
  using demo_ready [of "[]"] by simp

lemma demo_free: "free_bytes (demo_state (messages_bytes demo_msgs)) [[1, 2, 3]] = 21"
  by (simp add: free_bytes_def)

theorem msg_queue_read_message_witness:
  "\<exists>rb. let s' = after_read demo_chance [] rb False (demo_state (messages_bytes demo_msgs)) in
     msg_queue_read demo_chance (fresh_env 7) (demo_mem (messages_bytes demo_msgs)) 0x1001 [0, 0, 0, 9] 4 =
       Some (Returned 3, [1, 2, 3, 9], fresh_env 7,
             store_queue (demo_mem (messages_bytes demo_msgs)) 0x1000 s') \<and> mq_ready s' [] [] \<and>
     rb_capacity rb = 32"
  using msg_queue_read_message [OF demo_handle(1) _ demo_load demo_msgs_ready,
      of 4 "[0, 0, 0, 9]" demo_chance]
  by (simp add: demo_handle reads_def)

theorem msg_queue_read_empty_witness:
  "msg_queue_read demo_chance (fresh_env 7) (demo_mem []) 0x1001 [0] 1 =
     Some (Sleeping, [0], fresh_env 7, store_queue (demo_mem []) 0x1000 (asleep_reading (demo_state [])))"
  using msg_queue_read_empty [OF demo_handle(1) _ demo_load demo_empty_ready, of demo_chance "[0]" 1]
  by (simp add: demo_handle reads_def)

theorem msg_queue_read_too_small_witness:
  "msg_queue_read demo_chance (fresh_env 7) (demo_mem (messages_bytes demo_msgs)) 0x1001 [0, 0] 2 = None"
  using msg_queue_read_too_small [OF demo_handle(1) _ demo_load demo_msgs_ready, of 2 demo_chance]
  by (simp add: demo_handle reads_def)

theorem msg_queue_write_message_witness:
  "(\<exists>rb. let s' = after_write_nonblock demo_chance rb (demo_state (messages_bytes demo_msgs)) in
      msg_queue_write demo_chance (fresh_env 7) (demo_mem (messages_bytes demo_msgs)) 0x1006 [8, 9] 2 =
        Some (Returned (-1), (fresh_env 7)\<lparr>errno := EAGAIN\<rparr>,
              store_queue (demo_mem (messages_bytes demo_msgs)) 0x1000 s') \<and>
      mq_ready s' [] [[1, 2, 3], [8, 9]] \<and> rb_capacity rb = 32) \<and>
   msg_queue_write demo_chance (fresh_env 7) (demo_mem (messages_bytes demo_msgs)) 0x1006 (replicate 14 0) 14 =
     Some (Sleeping, fresh_env 7, store_queue (demo_mem (messages_bytes demo_msgs)) 0x1000
             (asleep_writing (demo_state (messages_bytes demo_msgs))))"
  using msg_queue_write_message [OF demo_handle(5) _ demo_load demo_msgs_ready, of 2 "[8, 9]" demo_chance]
    msg_queue_write_message [OF demo_handle(5) _ demo_load demo_msgs_ready, of 14 "replicate 14 0" demo_chance]
  by (simp add: demo_handle writes_def demo_free)

section \<open>Creating, opening and closing queues\<close>

lemma same_queue_fields:
  assumes "same_queue mq mq'"
  shows "mq_buffer mq' = mq_buffer mq" "mq_mutex mq' = mq_mutex mq" "space_full mq' = space_full mq"
    "space_empty mq' = space_empty mq" "queue_event mq' = queue_event mq"
    "mq_list_head mq' = mq_list_head mq" "mq_list_validator mq' = mq_list_validator mq"
  using arg_cong [OF assms [unfolded same_queue_def], of mq_buffer]
    arg_cong [OF assms [unfolded same_queue_def], of mq_mutex]
    arg_cong [OF assms [unfolded same_queue_def], of space_full]
    arg_cong [OF assms [unfolded same_queue_def], of space_empty]
    arg_cong [OF assms [unfolded same_queue_def], of queue_event]
    arg_cong [OF assms [unfolded same_queue_def], of mq_list_head]
    arg_cong [OF assms [unfolded same_queue_def], of mq_list_validator]
  by simp_all

lemma same_queue_ready:
  "mq_ready s ps ms \<Longrightarrow> same_queue (q_mq s) mq \<Longrightarrow> mq_ready (s\<lparr>q_mq := mq\<rparr>) ps ms"
  by (simp add: mq_ready_def mq_holds_def q_list_def pollers_ready_def unlocked_def same_queue_fields)

lemma queue_create_effect:
  assumes "flags AND NOT ALL_FLAGS = 0" "9 \<le> capacity" "capacity < 2 ^ 63" "length mem = unat capacity"
    and "a AND 7 = 0" "a \<noteq> 0" "mq_list_head junk \<noteq> 0" "has_tid env"
  shows "\<exists>h s. msg_queue_create env w (Some (a, junk, junk_entry)) (Some mem) free_errno capacity flags =
             Some (h, env, store_queue w a s) \<and>
           get_backend h = Some a \<and> get_flags h = flags \<and> mq_ready s [] [] \<and> counts (q_mq s) [flags] \<and>
           rb_capacity (mq_buffer (q_mq s)) = unat capacity \<and>
           \<not> no_readers (q_mq s) \<and> \<not> no_writers (q_mq s) \<and> queue_event (q_mq s) = queue_event junk \<and>
           space_full (q_mq s) = \<lparr>waiting = [], woken = []\<rparr> \<and> space_empty (q_mq s) = \<lparr>waiting = [], woken = []\<rparr>"
proof -
  let ?s = "\<lparr>q_env = env, q_mq = junk, q_heap = (mem_entries w)(mq_list_head junk \<mapsto> junk_entry),
             q_nodes = mem_nodes w\<rparr>"
  have pos: "0 < capacity" using assms(2) by (simp add: word_less_nat_alt word_le_nat_alt)
  obtain s1 where s1: "mq_init ?s (Some mem) capacity = Some (0, s1)" "mq_ready s1 [] []" "counts (q_mq s1) []"
    "rb_size (mq_buffer (q_mq s1)) = capacity" "\<not> no_readers (q_mq s1)" "\<not> no_writers (q_mq s1)"
    "q_env s1 = env" "queue_event (q_mq s1) = queue_event junk"
    "space_full (q_mq s1) = \<lparr>waiting = [], woken = []\<rparr>" "space_empty (q_mq s1) = \<lparr>waiting = [], woken = []\<rparr>"
    using mq_init_ok [of mem capacity ?s] assms pos by auto
  obtain h mq where mq: "mq_open a (q_mq s1) flags = Some (h, mq)" "get_backend h = Some a"
    "get_flags h = flags" "counts mq [flags]" "same_queue (q_mq s1) mq" "\<not> no_readers mq" "\<not> no_writers mq"
    using mq_open_counts [OF s1(3) _ assms(5,6,1)] s1(5,6) by auto
  have "a AND scast ALL_FLAGS = 0" using assms(5) by (simp only: scast_flags(2))
  moreover have "\<not> capacity < 8 + 1" using assms(2) by simp
  ultimately show ?thesis
    using assms(1) s1 mq same_queue_ready [OF s1(2) mq(5)] same_queue_fields [OF mq(5)]
    by (intro exI [of _ h] exI [of _ "s1\<lparr>q_mq := mq\<rparr>"])
       (simp add: msg_queue_create_def rb_capacity_def Let_def)
qed

text \<open>C14. \<open>msg_queue_create\<close> with valid flags, a capacity of at least 9 bytes and enough memory
  returns a handle to a new queue: its address and flags can be read back, the queue is empty
  and ready, has the given capacity and exactly this one handle open, and is neither at end of
  file nor a broken pipe.  Its event word keeps the indeterminate bytes of \<open>malloc\<close>.\<close>

theorem msg_queue_create_new:
  assumes "flags AND NOT ALL_FLAGS = 0" "9 \<le> capacity" "capacity < 2 ^ 63" "length mem = unat capacity"
    and "a AND 7 = 0" "a \<noteq> 0" "mq_list_head junk \<noteq> 0" "has_tid env"
  shows "\<exists>h s. msg_queue_create env w (Some (a, junk, junk_entry)) (Some mem) free_errno capacity flags =
             Some (h, env, store_queue w a s) \<and>
           get_backend h = Some a \<and> get_flags h = flags \<and> mq_ready s [] [] \<and> counts (q_mq s) [flags] \<and>
           rb_capacity (mq_buffer (q_mq s)) = unat capacity \<and>
           \<not> no_readers (q_mq s) \<and> \<not> no_writers (q_mq s) \<and> queue_event (q_mq s) = queue_event junk"
  using queue_create_effect [OF assms] by blast

theorem msg_queue_create_new_witness:
  "\<exists>h s. msg_queue_create (fresh_env 7) (demo_mem []) (Some (0x2000, (demo_mq [])\<lparr>mq_list_head := 0x2040\<rparr>, \<lparr>le_next = 5, le_prev = 6\<rparr>))
           (Some (replicate 9 0xAA)) 0 9 3 = Some (h, fresh_env 7, store_queue (demo_mem []) 0x2000 s) \<and>
         get_backend h = Some 0x2000 \<and> get_flags h = 3 \<and> mq_ready s [] [] \<and> counts (q_mq s) [3]"
  using msg_queue_create_new [where flags = 3 and capacity = 9 and mem = "replicate 9 0xAA" and a = "0x2000" and
      junk = "(demo_mq [])\<lparr>mq_list_head := 0x2040\<rparr>" and env = "fresh_env 7" and w = "demo_mem []" and
      junk_entry = "\<lparr>le_next = 5, le_prev = 6\<rparr>" and free_errno = 0]
  by (auto simp: ALL_FLAGS_def has_tid_def fresh_env_def)

lemma queue_create_fails_effect:
  assumes "flags AND NOT ALL_FLAGS \<noteq> 0 \<or> capacity < 9 \<or> alloc = None \<or>
           (\<exists>a junk e. alloc = Some (a, junk, e) \<and> a AND 7 = 0 \<and> backends w a = None) \<and> buf = None"
  shows "\<exists>env' w'. msg_queue_create env w alloc buf free_errno capacity flags =
             Some (MSG_QUEUE_NULL, env', w') \<and>
           errno env' = (if flags AND NOT ALL_FLAGS \<noteq> 0 \<or> capacity < 9 then EINVAL else ENOMEM) \<and>
           length (stderr_log env') = Suc (length (stderr_log env)) \<and> backends w' = backends w"
proof -
  have [simp]: "a AND scast ALL_FLAGS = a AND 7" for a :: u64 by (simp only: scast_flags(2))
  show ?thesis
    using assms
    by (cases alloc) (auto simp: msg_queue_create_def mq_init_def ring_buffer_init_def report_error_log_grows
        Let_def free_queue_def fun_eq_iff)
qed

text \<open>C15. Every failure of \<open>msg_queue_create\<close> returns the null handle with \<open>errno\<close> set
  (\<open>EINVAL\<close> for invalid flags or a capacity under 9 bytes, \<open>ENOMEM\<close> when either allocation
  fails, whatever \<open>free\<close> does to \<open>errno\<close>), prints one report, and leaves no queue behind.\<close>

theorem msg_queue_create_fails:
  assumes "flags AND NOT ALL_FLAGS \<noteq> 0 \<or> capacity < 9 \<or> alloc = None \<or>
           (\<exists>a junk e. alloc = Some (a, junk, e) \<and> a AND 7 = 0 \<and> backends w a = None) \<and> buf = None"
  shows "\<exists>env' w'. msg_queue_create env w alloc buf free_errno capacity flags =
             Some (MSG_QUEUE_NULL, env', w') \<and>
           errno env' = (if flags AND NOT ALL_FLAGS \<noteq> 0 \<or> capacity < 9 then EINVAL else ENOMEM) \<and>
           length (stderr_log env') = Suc (length (stderr_log env)) \<and> backends w' = backends w"
  using queue_create_fails_effect [OF assms] .

theorem msg_queue_create_fails_witness:
  "\<exists>env' w'. msg_queue_create (fresh_env 7) (demo_mem []) (Some (0x2000, demo_mq [], \<lparr>le_next = 5, le_prev = 6\<rparr>)) None 22 9 3 =
      Some (MSG_QUEUE_NULL, env', w') \<and> errno env' = ENOMEM \<and> length (stderr_log env') = 1 \<and>
      backends w' = backends (demo_mem [])"
  using msg_queue_create_fails [where flags = 3 and capacity = 9 and w = "demo_mem []" and buf = None and
      alloc = "Some (0x2000, demo_mq [], \<lparr>le_next = 5, le_prev = 6\<rparr>)" and env = "fresh_env 7" and free_errno = 22]
  by (simp add: ALL_FLAGS_def demo_mem_def fresh_env_def)

lemma queue_open_effect:
  assumes "get_backend h = Some a" "h \<noteq> 0" "load_queue env w a = Some s" "a AND 7 = 0" "a \<noteq> 0"
    and "f AND NOT ALL_FLAGS = 0" "length fs < 2 ^ 64 - 1" "mq_ready s ps ms" "counts (q_mq s) fs"
  shows "\<exists>h' mq. msg_queue_open env w h f = Some (h', env, store_queue w a (s\<lparr>q_mq := mq\<rparr>)) \<and>
           get_backend h' = Some a \<and> get_flags h' = f \<and> counts mq (f # fs) \<and>
           mq_ready (s\<lparr>q_mq := mq\<rparr>) ps ms \<and> same_queue (q_mq s) mq \<and>
           no_readers mq = (no_readers (q_mq s) \<and> \<not> reads f) \<and>
           no_writers mq = (no_writers (q_mq s) \<and> \<not> writes f)"
proof -
  have u: "unlocked s" using assms(8) by (simp add: mq_ready_def)
  have c: "counts (q_mq (with_lock s)) fs" using assms(9) by (simp add: counts_def with_lock_def)
  obtain h' mq where mq: "mq_open a (q_mq (with_lock s)) f = Some (h', mq)" "get_backend h' = Some a"
    "get_flags h' = f" "counts mq (f # fs)" "same_queue (q_mq (with_lock s)) mq"
    "no_readers mq = (no_readers (q_mq s) \<and> \<not> reads f)" "no_writers mq = (no_writers (q_mq s) \<and> \<not> writes f)"
    using mq_open_counts [OF c assms(7,4,5,6)] by auto
  let ?mq = "mq\<lparr>mq_mutex := mq_mutex (q_mq s)\<rparr>"
  have same: "same_queue (q_mq s) ?mq"
    using mq(5) by (cases mq; cases "q_mq s"; simp add: same_queue_def with_lock_def)
  show ?thesis
    using msg_queue_open_at [OF assms(1,3) u mq(1,5) assms(2,6)] mq same
      same_queue_ready [OF assms(8) same]
    by (intro exI [of _ h'] exI [of _ ?mq]) (simp add: counts_def)
qed

text \<open>C16. \<open>msg_queue_open\<close> on a valid handle with valid flags returns a handle with these flags
  to the same queue, counts it, and ends end-of-file or broken-pipe when the new handle is a
  writer or a reader; the messages, the sleeping threads and the pollers are untouched.\<close>

theorem msg_queue_open_handle:
  assumes "get_backend h = Some a" "h \<noteq> 0" "load_queue env w a = Some s" "a AND 7 = 0" "a \<noteq> 0"
    and "f AND NOT ALL_FLAGS = 0" "length fs < 2 ^ 64 - 1" "mq_ready s ps ms" "counts (q_mq s) fs"
  shows "\<exists>h' mq. msg_queue_open env w h f = Some (h', env, store_queue w a (s\<lparr>q_mq := mq\<rparr>)) \<and>
           get_backend h' = Some a \<and> get_flags h' = f \<and> counts mq (f # fs) \<and>
           mq_ready (s\<lparr>q_mq := mq\<rparr>) ps ms \<and> same_queue (q_mq s) mq \<and>
           no_readers mq = (no_readers (q_mq s) \<and> \<not> reads f) \<and>
           no_writers mq = (no_writers (q_mq s) \<and> \<not> writes f)"
  using queue_open_effect [OF assms] .

lemma demo_counts: "counts (q_mq (demo_state bs)) [1, 6]"
  by (simp add: counts_def demo_state_def demo_mq_def reads_def writes_def)

theorem msg_queue_open_handle_witness:
  "\<exists>h' mq. msg_queue_open (fresh_env 7) (demo_mem []) 0x1001 3 =
       Some (h', fresh_env 7, store_queue (demo_mem []) 0x1000 ((demo_state [])\<lparr>q_mq := mq\<rparr>)) \<and>
     get_backend h' = Some 0x1000 \<and> get_flags h' = 3 \<and> counts mq [3, 1, 6]"
  using msg_queue_open_handle [OF demo_handle(1) _ demo_load _ _ _ _ demo_empty_ready demo_counts, of 3]
  by (auto simp: ALL_FLAGS_def)

lemma close_notify_eq:
  "close_notify s = s\<lparr>q_mq := (q_mq s)
     \<lparr>space_full := (if no_readers (q_mq s) then snd (pthread_cond_broadcast (space_full (q_mq s)))
                     else space_full (q_mq s)),
      space_empty := (if no_writers (q_mq s) then snd (pthread_cond_broadcast (space_empty (q_mq s)))
                      else space_empty (q_mq s)),
      queue_event := (let ev = (if no_readers (q_mq s)
                                then queue_event (q_mq s) OR MQPOLL_WRITABLE OR MQPOLL_NOREADERS
                                else queue_event (q_mq s))
                      in if no_writers (q_mq s) then ev OR MQPOLL_READABLE OR MQPOLL_NOWRITERS else ev)\<rparr>\<rparr>"
  by (cases "no_readers (q_mq s)"; cases "no_writers (q_mq s)")
     (simp_all add: close_notify_def set_event_def cond_broadcast_def pthread_cond_broadcast_def)

lemma close_start:
  assumes "get_backend h = Some a" "h \<noteq> 0" "load_queue env w a = Some s" "mq_ready s ps ms"
    and "counts (q_mq s) fs" "get_flags h \<in> set fs"
  shows "\<exists>mq. lock_queue s = Some (with_lock s) \<and>
      mq_close (q_mq (with_lock s)) (get_flags h) = Some (fs = [get_flags h], mq) \<and>
      counts mq (remove1 (get_flags h) fs) \<and> same_queue (q_mq (with_lock s)) mq \<and>
      no_readers mq = (no_readers (q_mq s) \<or> reads (get_flags h) \<and> filter reads (remove1 (get_flags h) fs) = []) \<and>
      no_writers mq = (no_writers (q_mq s) \<or> writes (get_flags h) \<and> filter writes (remove1 (get_flags h) fs) = [])"
proof -
  have "counts (q_mq (with_lock s)) fs" using assms(5) by (simp add: counts_def with_lock_def)
  from mq_close_counts [OF this assms(6)] lock_ready [OF assms(4)] show ?thesis by auto
qed

lemma queue_close_effect:
  assumes "get_backend h = Some a" "h \<noteq> 0" "load_queue env w a = Some s" "mq_ready s ps ms"
    and "counts (q_mq s) fs" "get_flags h \<in> set fs" "fs \<noteq> [get_flags h]"
  shows "\<exists>mq. msg_queue_close env w (Some h) =
             Some (0, Some MSG_QUEUE_NULL, env, store_queue w a (s\<lparr>q_mq := mq\<rparr>)) \<and>
           mq_ready (s\<lparr>q_mq := mq\<rparr>) ps ms \<and> counts mq (remove1 (get_flags h) fs) \<and>
           no_readers mq = (no_readers (q_mq s) \<or>
              reads (get_flags h) \<and> filter reads (remove1 (get_flags h) fs) = []) \<and>
           no_writers mq = (no_writers (q_mq s) \<or>
              writes (get_flags h) \<and> filter writes (remove1 (get_flags h) fs) = []) \<and>
           space_full mq = (if no_readers mq then snd (pthread_cond_broadcast (space_full (q_mq s)))
                            else space_full (q_mq s)) \<and>
           space_empty mq = (if no_writers mq then snd (pthread_cond_broadcast (space_empty (q_mq s)))
                             else space_empty (q_mq s)) \<and>
           (no_readers mq \<longrightarrow> queue_event mq AND MQPOLL_NOREADERS \<noteq> 0) \<and>
           (no_writers mq \<longrightarrow> queue_event mq AND MQPOLL_NOWRITERS \<noteq> 0)"
proof -
  obtain mq where mq: "lock_queue s = Some (with_lock s)"
      "mq_close (q_mq (with_lock s)) (get_flags h) = Some (False, mq)"
      "counts mq (remove1 (get_flags h) fs)" "same_queue (q_mq (with_lock s)) mq"
      "no_readers mq = (no_readers (q_mq s) \<or> reads (get_flags h) \<and> filter reads (remove1 (get_flags h) fs) = [])"
      "no_writers mq = (no_writers (q_mq s) \<or> writes (get_flags h) \<and> filter writes (remove1 (get_flags h) fs) = [])"
    using close_start [OF assms(1-6)] assms(7) by auto
  have un: "(mq_mutex (q_mq s))\<lparr>mutex_owner := None\<rparr> = mq_mutex (q_mq s)"
    using assms(4) by (cases "mq_mutex (q_mq s)") (simp add: mq_ready_def unlocked_def)
  let ?s2 = "(with_lock s)\<lparr>q_mq := mq\<rparr>"
  let ?mq = "(q_mq (close_notify ?s2))\<lparr>mq_mutex := mq_mutex (q_mq s)\<rparr>"
  have f: "mq_mutex mq = (mq_mutex (q_mq s))\<lparr>mutex_owner := Some (self (q_env s))\<rparr>"
    using same_queue_fields [OF mq(4)] by (simp add: with_lock_def)
  have l: "locked (close_notify ?s2)" by (simp add: locked_def close_notify_eq f)
  have s2: "store_queue w a ((close_notify ?s2)\<lparr>q_mq := x\<rparr>) = store_queue w a (s\<lparr>q_mq := x\<rparr>)"
    "q_env ((close_notify ?s2)\<lparr>q_mq := x\<rparr>) = env" for x
    by (simp_all add: close_notify_eq store_queue_def with_lock_def load_env [OF assms(3)])
  have "unlock_queue (close_notify ?s2) = Some ((close_notify ?s2)\<lparr>q_mq := ?mq\<rparr>)"
    using unlock_queue_ok [OF l] by (simp add: close_notify_eq f un)
  then have call: "msg_queue_close env w (Some h) =
      Some (0, Some MSG_QUEUE_NULL, env, store_queue w a (s\<lparr>q_mq := ?mq\<rparr>))"
    using assms(1-3) mq(1,2) by (simp add: msg_queue_close_def s2)
  have ready: "mq_ready (s\<lparr>q_mq := ?mq\<rparr>) ps ms"
  proof (rule mq_readyI [OF assms(4)])
    show "rb_holds (mq_buffer (q_mq (s\<lparr>q_mq := ?mq\<rparr>))) (messages_bytes ms)"
      using mq_ready_rb [OF assms(4)] same_queue_fields(1) [OF mq(4)] by (simp add: close_notify_eq)
    show "mutex_owner (mq_mutex (q_mq (s\<lparr>q_mq := ?mq\<rparr>))) = None"
      using assms(4) by (simp add: mq_ready_def unlocked_def)
  qed (use same_queue_fields(6,7) [OF mq(4)] mq_ready_valid [OF assms(4)] in
        \<open>simp_all add: close_notify_eq with_lock_def\<close>)
  have flags: "no_readers ?mq = no_readers mq" "no_writers ?mq = no_writers mq"
    by (simp_all add: close_notify_eq)
  have c: "counts ?mq (remove1 (get_flags h) fs)"
    using mq(3) by (simp add: close_notify_eq counts_def)
  have conds: "space_full ?mq = (if no_readers ?mq then snd (pthread_cond_broadcast (space_full (q_mq s)))
                            else space_full (q_mq s))"
    "space_empty ?mq = (if no_writers ?mq then snd (pthread_cond_broadcast (space_empty (q_mq s)))
                             else space_empty (q_mq s))"
    using same_queue_fields(3,4) [OF mq(4)] by (simp_all add: close_notify_eq with_lock_def)
  have ev: "no_readers ?mq \<longrightarrow> queue_event ?mq AND MQPOLL_NOREADERS \<noteq> 0"
    "no_writers ?mq \<longrightarrow> queue_event ?mq AND MQPOLL_NOWRITERS \<noteq> 0"
    by (simp_all add: close_notify_eq Let_def bit.conj_disj_distrib2 or_eq_0_iff)
  show ?thesis
    by (rule exI [of _ ?mq]) (intro conjI call ready c conds ev flags(1) [unfolded mq(5)] flags(2) [unfolded mq(6)])
qed

text \<open>C17. \<open>msg_queue_close\<close> of a handle that is not the last one returns 0, invalidates the
  handle and takes it off the counts.  When it was the last reader (or writer), the queue is
  marked so, its event word says so, and every thread asleep in \<open>msg_queue_write\<close> (or
  \<open>msg_queue_read\<close>) is woken.  The messages stay; the pollers' nodes are not touched, so no
  thread in \<open>msg_queue_poll\<close> is woken.\<close>

theorem msg_queue_close_handle:
  assumes "get_backend h = Some a" "h \<noteq> 0" "load_queue env w a = Some s" "mq_ready s ps ms"
    and "counts (q_mq s) fs" "get_flags h \<in> set fs" "fs \<noteq> [get_flags h]"
  shows "\<exists>mq. msg_queue_close env w (Some h) =
             Some (0, Some MSG_QUEUE_NULL, env, store_queue w a (s\<lparr>q_mq := mq\<rparr>)) \<and>
           mq_ready (s\<lparr>q_mq := mq\<rparr>) ps ms \<and> counts mq (remove1 (get_flags h) fs) \<and>
           no_readers mq = (no_readers (q_mq s) \<or>
              reads (get_flags h) \<and> filter reads (remove1 (get_flags h) fs) = []) \<and>
           no_writers mq = (no_writers (q_mq s) \<or>
              writes (get_flags h) \<and> filter writes (remove1 (get_flags h) fs) = []) \<and>
           space_full mq = (if no_readers mq then snd (pthread_cond_broadcast (space_full (q_mq s)))
                            else space_full (q_mq s)) \<and>
           space_empty mq = (if no_writers mq then snd (pthread_cond_broadcast (space_empty (q_mq s)))
                             else space_empty (q_mq s)) \<and>
           (no_readers mq \<longrightarrow> queue_event mq AND MQPOLL_NOREADERS \<noteq> 0) \<and>
           (no_writers mq \<longrightarrow> queue_event mq AND MQPOLL_NOWRITERS \<noteq> 0)"
  using queue_close_effect [OF assms] .

theorem msg_queue_close_handle_witness:
  "\<exists>mq. msg_queue_close (fresh_env 7) (demo_mem (messages_bytes demo_msgs)) (Some 0x1001) =
       Some (0, Some MSG_QUEUE_NULL, fresh_env 7,
         store_queue (demo_mem (messages_bytes demo_msgs)) 0x1000
           ((demo_state (messages_bytes demo_msgs))\<lparr>q_mq := mq\<rparr>)) \<and>
     no_readers mq \<and> \<not> no_writers mq \<and> counts mq [6]"
  using msg_queue_close_handle [OF demo_handle(1) _ demo_load demo_msgs_ready demo_counts]
  by (auto simp: demo_handle reads_def writes_def)

lemma queue_close_last_effect:
  assumes "get_backend h = Some a" "h \<noteq> 0" "load_queue env w a = Some s" "mq_ready s ps ms"
    and "counts (q_mq s) [get_flags h]"
    and "waiting (space_full (q_mq s)) = []" "waiting (space_empty (q_mq s)) = []"
  shows "\<exists>w'. msg_queue_close env w (Some h) = Some (0, Some MSG_QUEUE_NULL, env, w') \<and>
           backends w' = (backends w)(a := None)"
proof -
  obtain mq where mq: "lock_queue s = Some (with_lock s)"
      "mq_close (q_mq (with_lock s)) (get_flags h) = Some (True, mq)"
      "counts mq []" "same_queue (q_mq (with_lock s)) mq"
    using close_start [OF assms(1-5)] by auto
  note f = same_queue_fields [OF mq(4)]
  have l: "locked ((with_lock s)\<lparr>q_mq := mq\<rparr>)" using f(2) by (simp add: locked_def with_lock_def)
  let ?s = "(with_lock s)\<lparr>q_mq := mq\<lparr>mq_mutex := (mq_mutex mq)\<lparr>mutex_owner := None\<rparr>\<rparr>\<rparr>"
  have "owner (rb_validator (mq_buffer mq)) = 0" "owner (mq_list_validator mq) = 0"
    using assms(4) f by (simp_all add: mq_ready_def mq_holds_def rb_holds_def list_rep_def q_list_def with_lock_def)
  moreover have "refs mq = 0" "readers mq = 0" "writers mq = 0"
    using mq(3) by (simp_all add: counts_def unat_eq_0)
  moreover have "waiting (space_full mq) = []" "waiting (space_empty mq) = []"
    using f assms(6,7) by (simp_all add: with_lock_def)
  ultimately have "mq_destroy ?s = Some ?s"
    by (simp add: mq_destroy_def ring_buffer_destroy_def validator_destroy_def mutex_destroy_def
        pthread_mutex_destroy_def cond_destroy_def pthread_cond_destroy_def list_destroy_def)
  with assms(1-3) mq(1,2) unlock_queue_ok [OF l] load_env [OF assms(3)] show ?thesis
    by (simp add: msg_queue_close_def free_queue_def)
qed

text \<open>C18. \<open>msg_queue_close\<close> of the only open handle, with no thread asleep in the queue, passes
  all assertions, destroys the queue, frees its memory and returns 0 with the handle
  invalidated.\<close>

theorem msg_queue_close_last:
  assumes "get_backend h = Some a" "h \<noteq> 0" "load_queue env w a = Some s" "mq_ready s ps ms"
    and "counts (q_mq s) [get_flags h]"
    and "waiting (space_full (q_mq s)) = []" "waiting (space_empty (q_mq s)) = []"
  shows "\<exists>w'. msg_queue_close env w (Some h) = Some (0, Some MSG_QUEUE_NULL, env, w') \<and>
           backends w' = (backends w)(a := None)"
  using queue_close_last_effect [OF assms] .

theorem msg_queue_close_last_witness:
  "\<exists>w'. msg_queue_close (fresh_env 7) (store_queue (demo_mem []) 0x1000
            ((demo_state [])\<lparr>q_mq := (demo_mq [])\<lparr>refs := 1, writers := 0\<rparr>\<rparr>)) (Some 0x1001) =
          Some (0, Some MSG_QUEUE_NULL, fresh_env 7, w') \<and> backends w' = Map.empty"
proof -
  let ?s = "(demo_state [])\<lparr>q_mq := (demo_mq [])\<lparr>refs := 1, writers := 0\<rparr>\<rparr>"
  have l: "load_queue (fresh_env 7) (store_queue (demo_mem []) 0x1000 ?s) 0x1000 = Some ?s"
    by (simp add: load_queue_def store_queue_def demo_state_def)
  have r: "mq_ready ?s [] []"
    using same_queue_ready [OF demo_empty_ready] by (simp add: same_queue_def demo_state_def)
  show ?thesis
    using msg_queue_close_last [OF demo_handle(1) _ l r]
    by (simp add: counts_def demo_handle reads_def writes_def demo_mq_def demo_mem_def store_queue_def)
qed

section \<open>Sizes at the limits\<close>


definition tiny_state :: queue_state where
  "tiny_state = (demo_state [])\<lparr>q_mq := (demo_mq [])\<lparr>mq_buffer := \<lparr>rb_buffer = replicate 9 poison,
     rb_size = 9, rb_head = 0, rb_tail = 0, rb_full = False,
     rb_validator = \<lparr>vname = ''ring_buffer'', owner = 0\<rparr>\<rparr>\<rparr>\<rparr>"

lemma tiny_ready: "mq_ready tiny_state [] []"
  by (rule mq_readyI [OF demo_empty_ready])
     (simp_all add: tiny_state_def demo_state_def demo_mq_def rb_holds_def rb_rep_def)


end
