(* ===== verification/Queue_Machine.thy ===== *)
theory Queue_Machine
  imports Queue_Calls "HOL-Library.Sublist"
begin

text \<open>
  Many threads on one message queue.  A step of the machine is a critical section of
  \<open>msg_queue.c\<close> run by one thread: a call up to its return or its \<open>cond_wait\<close>, a woken thread
  going on, a spurious wakeup, or the opening or closing of a handle.  Rule induction over the
  reachable states shows that messages are delivered once and in order, and that no wakeup
  is lost.
\<close>

section \<open>The machine\<close>

datatype status =
    Idle
  | Reading u32 "u8 list" u64
  | Writing u32 "u8 list" u64

text \<open>The shared queue, what each thread is doing, the flags of the open handles, and two
  histories: the messages put into the queue and those handed to readers.\<close>

record machine =
  m_mq :: mq_backend
  m_heap :: heap
  m_status :: "u64 \<Rightarrow> status"
  m_open :: "u32 list"
  sent :: "u8 list list"
  received :: "u8 list list"

text \<open>The queue as the thread with the environment \<open>env\<close> sees it (no poller is registered).\<close>

definition view :: "thread_env \<Rightarrow> machine \<Rightarrow> queue_state" where
  "view env m = \<lparr>q_env = env, q_mq = m_mq m, q_heap = m_heap m, q_nodes = Map.empty\<rparr>"

definition read_done ::
  "u64 \<Rightarrow> u32 \<Rightarrow> u64 \<Rightarrow> int outcome \<Rightarrow> u8 list \<Rightarrow> queue_state \<Rightarrow> machine \<Rightarrow> machine" where
  "read_done t f len r out s m =
     (let m1 = m\<lparr>m_mq := q_mq s, m_heap := q_heap s\<rparr>
      in case r of
           Sleeping \<Rightarrow> m1\<lparr>m_status := (m_status m)(t := Reading f out len)\<rparr>
         | Returned n \<Rightarrow> m1\<lparr>m_status := (m_status m)(t := Idle),
                           received := received m @ (if 0 < n then [take (nat n) out] else [])\<rparr>)"

text \<open>A write has put its message into the queue when it returns 0, or fails with \<open>EAGAIN\<close>.\<close>

definition write_done ::
  "u64 \<Rightarrow> u32 \<Rightarrow> u8 list \<Rightarrow> u64 \<Rightarrow> int outcome \<Rightarrow> queue_state \<Rightarrow> machine \<Rightarrow> machine" where
  "write_done t f src len r s m =
     (let m1 = m\<lparr>m_mq := q_mq s, m_heap := q_heap s\<rparr>
      in case r of
           Sleeping \<Rightarrow> m1\<lparr>m_status := (m_status m)(t := Writing f src len)\<rparr>
         | Returned n \<Rightarrow> m1\<lparr>m_status := (m_status m)(t := Idle),
                           sent := sent m @ (if n = 0 \<or> errno (q_env s) = EAGAIN
                                             then [take (unat len) src] else [])\<rparr>)"

text \<open>The backend lies at the address \<open>a\<close>; threads call with buffers of the size they say.\<close>

inductive qstep :: "u64 \<Rightarrow> machine \<Rightarrow> machine \<Rightarrow> bool" for a where
  call_read: "m_status m t = Idle \<Longrightarrow> t \<noteq> 0 \<Longrightarrow> self env = t \<Longrightarrow> f \<in> set (m_open m) \<Longrightarrow> reads f \<Longrightarrow>
     unat len \<le> length out \<Longrightarrow> mq_read ch f (view env m) out len = Some (r, out', s) \<Longrightarrow>
     qstep a m (read_done t f len r out' s m)"
| wake_read: "m_status m t = Reading f out len \<Longrightarrow> t \<noteq> 0 \<Longrightarrow> self env = t \<Longrightarrow>
     read_resume ch f (view env m) out len = Some (r, out', s) \<Longrightarrow>
     qstep a m (read_done t f len r out' s m)"
| call_write: "m_status m t = Idle \<Longrightarrow> t \<noteq> 0 \<Longrightarrow> self env = t \<Longrightarrow> f \<in> set (m_open m) \<Longrightarrow> writes f \<Longrightarrow>
     len \<noteq> 0 \<Longrightarrow> unat len \<le> length src \<Longrightarrow> unat len < 2 ^ 63 \<Longrightarrow>
     mq_write ch f (view env m) src len = Some (r, s) \<Longrightarrow>
     qstep a m (write_done t f src len r s m)"
| wake_write: "m_status m t = Writing f src len \<Longrightarrow> t \<noteq> 0 \<Longrightarrow> self env = t \<Longrightarrow>
     write_resume ch f (view env m) src len = Some (r, s) \<Longrightarrow>
     qstep a m (write_done t f src len r s m)"
| spurious_read: "cond_spurious t (space_empty (m_mq m)) = Some c \<Longrightarrow>
     qstep a m (m\<lparr>m_mq := (m_mq m)\<lparr>space_empty := c\<rparr>\<rparr>)"
| spurious_write: "cond_spurious t (space_full (m_mq m)) = Some c \<Longrightarrow>
     qstep a m (m\<lparr>m_mq := (m_mq m)\<lparr>space_full := c\<rparr>\<rparr>)"
| open_handle: "m_open m \<noteq> [] \<Longrightarrow> length (m_open m) < 2 ^ 64 - 1 \<Longrightarrow> f AND NOT ALL_FLAGS = 0 \<Longrightarrow>
     self env \<noteq> 0 \<Longrightarrow> lock_queue (view env m) = Some s \<Longrightarrow> mq_open a (q_mq s) f = Some (h, mq) \<Longrightarrow>
     unlock_queue (s\<lparr>q_mq := mq\<rparr>) = Some s' \<Longrightarrow>
     qstep a m (m\<lparr>m_mq := q_mq s', m_open := f # m_open m\<rparr>)"
| close_handle: "f \<in> set (m_open m) \<Longrightarrow> self env \<noteq> 0 \<Longrightarrow> lock_queue (view env m) = Some s \<Longrightarrow>
     mq_close (q_mq s) f = Some (False, mq) \<Longrightarrow>
     unlock_queue (close_notify (s\<lparr>q_mq := mq\<rparr>)) = Some s' \<Longrightarrow>
     qstep a m (m\<lparr>m_mq := q_mq s', m_open := remove1 f (m_open m)\<rparr>)"

inductive_cases qstepE: "qstep a m m'"

text \<open>A queue as \<open>msg_queue_create\<close> leaves it, with all threads idle.\<close>

definition initial :: "u64 \<Rightarrow> machine \<Rightarrow> bool" where
  "initial a m \<longleftrightarrow> a AND 7 = 0 \<and> a \<noteq> 0 \<and> mq_ready (view (fresh_env 1) m) [] [] \<and> counts (m_mq m) (m_open m) \<and>
     space_full (m_mq m) = \<lparr>waiting = [], woken = []\<rparr> \<and> space_empty (m_mq m) = \<lparr>waiting = [], woken = []\<rparr> \<and>
     m_status m = (\<lambda>t. Idle) \<and> sent m = [] \<and> received m = []"

inductive reachable :: "u64 \<Rightarrow> machine \<Rightarrow> bool" for a where
  start: "initial a m \<Longrightarrow> reachable a m"
| step: "reachable a m \<Longrightarrow> qstep a m m' \<Longrightarrow> reachable a m'"

section \<open>Outcomes of the critical sections\<close>

text \<open>Every way a read can end, on a queue that holds \<open>ms\<close>.\<close>

inductive read_result ::
  "queue_state \<Rightarrow> u64 \<Rightarrow> u8 list list \<Rightarrow> u8 list list \<Rightarrow> int outcome \<Rightarrow> u8 list \<Rightarrow> queue_state \<Rightarrow> bool"
  for s len where
  got: "length x \<le> unat len \<Longrightarrow> x \<noteq> [] \<Longrightarrow> take (length x) out = x \<Longrightarrow> rb_holds rb (messages_bytes ms) \<Longrightarrow>
     rb_capacity rb = rb_capacity (mq_buffer (q_mq s)) \<Longrightarrow>
     read_result s len (x # ms) ms (Returned (int (length x))) out (after_read ch [] rb b s)"
| eof: "read_result s len [] [] (Returned 0) out (after_eof ch [] s)"
| again: "read_result s len [] [] (Returned (-1)) out (after_error EAGAIN s)"
| sleep: "\<not> no_writers (q_mq s) \<Longrightarrow> unat len \<le> length out \<Longrightarrow>
     read_result s len [] [] Sleeping out (asleep_reading s)"

inductive write_result ::
  "queue_state \<Rightarrow> u8 list \<Rightarrow> u64 \<Rightarrow> u8 list list \<Rightarrow> u8 list list \<Rightarrow> int outcome \<Rightarrow> queue_state \<Rightarrow> bool"
  for s src len ms where
  put: "valid_message (take (unat len) src) \<Longrightarrow> rb_holds rb (messages_bytes (ms @ [take (unat len) src])) \<Longrightarrow>
     rb_capacity rb = rb_capacity (mq_buffer (q_mq s)) \<Longrightarrow>
     write_result s src len ms (ms @ [take (unat len) src]) (Returned 0) (after_write ch [] rb b s)"
| put_again: "valid_message (take (unat len) src) \<Longrightarrow> rb_holds rb (messages_bytes (ms @ [take (unat len) src])) \<Longrightarrow>
     rb_capacity rb = rb_capacity (mq_buffer (q_mq s)) \<Longrightarrow>
     write_result s src len ms (ms @ [take (unat len) src]) (Returned (-1)) (after_write_nonblock ch rb s)"
| full: "free_bytes s ms < unat len + 8 \<Longrightarrow> unat len + 8 < rb_capacity (mq_buffer (q_mq s)) \<Longrightarrow>
     write_result s src len ms ms Sleeping (asleep_writing s)"

lemma read_loop_outcome:
  assumes r: "mq_ready s [] ms" and len: "unat len \<le> length out"
    and call: "read_loop ch f (with_lock s) out len = Some (r, out', s')"
  shows "\<exists>ms'. read_result s len ms ms' r out' s'"
proof (cases ms)
  case Nil
  have "mq_holds (with_lock s) [] []" "pollers_ready (with_lock s) []"
    using r Nil by (simp_all add: mq_ready_def)
  from read_loop_empty [OF this, of ch f out len] call Nil len show ?thesis
    by (auto split: if_splits intro: read_result.intros)
next
  case (Cons x xs)
  have h: "mq_holds (with_lock s) [] (x # xs)" "pollers_ready (with_lock s) []"
    using r Cons by (simp_all add: mq_ready_def)
  have fits: "length x \<le> unat len"
    using read_loop_too_small [OF h(1), of len ch f out] call by (cases "unat len < length x") auto
  obtain rb where rb: "read_loop ch f (with_lock s) out len =
       Some (Returned (int (length x)), x @ drop (length x) out, after_read ch [] rb (xs \<noteq> []) s)"
      "rb_holds rb (messages_bytes xs)" "rb_capacity rb = rb_capacity (mq_buffer (q_mq s))"
    using read_loop_message [OF h _ fits, of out ch f] fits len by auto
  have "x \<noteq> []" using mq_ready_valid [OF r] Cons by (auto simp: valid_message_def)
  with call rb fits Cons show ?thesis by (auto intro!: read_result.got exI [of _ xs])
qed

lemma read_outcome:
  assumes r: "mq_ready s [] ms" and len: "unat len \<le> length out"
    and call: "mq_read ch f s out len = Some (r, out', s')"
  shows "\<exists>ms'. read_result s len ms ms' r out' s'"
proof (cases "ms = [] \<and> no_writers (q_mq s)")
  case True
  with mq_read_empty [of s "[]" ch f out len] r call show ?thesis by (auto intro: read_result.eof)
next
  case False
  then show ?thesis
    using mq_read_loop [OF r] read_loop_outcome [OF r len] call by simp
qed

lemma read_resume_outcome:
  assumes r: "mq_ready s [] ms" and len: "unat len \<le> length out"
    and call: "read_resume ch f s out len = Some (r, out', s')"
  shows "self (q_env s) \<in> set (woken (space_empty (q_mq s)))"
    and "\<exists>ms'. read_result (woken_reader s) len ms ms' r out' s'"
proof -
  show w: "self (q_env s) \<in> set (woken (space_empty (q_mq s)))"
    using call by (auto simp: read_resume_def cond_wakeup_def bind_eq_Some_conv split: if_splits)
  show "\<exists>ms'. read_result (woken_reader s) len ms ms' r out' s'"
    using read_resume_loop [OF r w] read_loop_outcome [of "woken_reader s" ms len out] r len call by simp
qed

lemma write_loop_outcome:
  assumes r: "mq_ready s [] ms" and len: "len \<noteq> 0" "unat len \<le> length src" "unat len < 2 ^ 63"
    and cap: "unat len + 8 < rb_capacity (mq_buffer (q_mq s))"
    and call: "write_loop ch f (with_lock s) src len = Some (r, s')"
  shows "\<exists>ms'. write_result s src len ms ms' r s'"
  using write_loop_ready [OF r len, of ch f] call cap
  by (auto split: if_splits intro: write_result.intros simp: not_le simp del: messages_bytes_simps)

lemma write_outcome:
  assumes r: "mq_ready s [] ms" and len: "len \<noteq> 0" "unat len \<le> length src" "unat len < 2 ^ 63"
    and call: "mq_write ch f s src len = Some (r, s')"
  shows "(\<exists>ms'. write_result s src len ms ms' r s') \<or>
         (\<exists>e. r = Returned (-1) \<and> s' = after_error e s \<and> e \<noteq> EAGAIN)"
proof -
  consider (pipe) "no_readers (q_mq s)"
    | (large) "\<not> no_readers (q_mq s)" "rb_capacity (mq_buffer (q_mq s)) \<le> unat len + 8"
    | (loop) "\<not> no_readers (q_mq s)" "unat len + 8 < rb_capacity (mq_buffer (q_mq s))" by linarith
  then show ?thesis
  proof cases
    case loop
    with mq_write_loop [OF r loop(1) len(3) loop(2), of ch f src] call show ?thesis
      using write_loop_outcome [OF r len loop(2)] by simp
  qed (use mq_write_no_readers [OF r] mq_write_too_large [OF r _ len(3)] call in
        \<open>auto\<close>)
qed

lemma write_resume_outcome:
  assumes r: "mq_ready s [] ms" and len: "len \<noteq> 0" "unat len \<le> length src" "unat len < 2 ^ 63"
    and cap: "unat len + 8 < rb_capacity (mq_buffer (q_mq s))"
    and call: "write_resume ch f s src len = Some (r, s')"
  shows "self (q_env s) \<in> set (woken (space_full (q_mq s)))"
    and "\<exists>ms'. write_result (woken_writer s) src len ms ms' r s'"
proof -
  show w: "self (q_env s) \<in> set (woken (space_full (q_mq s)))"
    using call by (auto simp: write_resume_def cond_wakeup_def bind_eq_Some_conv split: if_splits)
  have "unat len + 8 < rb_capacity (mq_buffer (q_mq (woken_writer s)))"
    using cap by (simp add: woken_writer_def)
  then show "\<exists>ms'. write_result (woken_writer s) src len ms ms' r s'"
    using write_resume_loop [OF r w] write_loop_outcome [of "woken_writer s" ms len src] r len call by simp
qed

section \<open>Wakeups\<close>

text \<open>
  No wakeup is lost.  No reader sleeps on a queue without writers; if readers sleep, at least
  as many have been woken as there are messages; if writers sleep on an empty queue, one has
  been woken.
\<close>

definition wake_inv :: "mq_backend \<Rightarrow> u8 list list \<Rightarrow> bool" where
  "wake_inv mq ms \<longleftrightarrow>
     (no_writers mq \<longrightarrow> waiting (space_empty mq) = []) \<and>
     (waiting (space_empty mq) \<noteq> [] \<longrightarrow> length ms \<le> length (woken (space_empty mq))) \<and>
     (ms = [] \<and> waiting (space_full mq) \<noteq> [] \<longrightarrow> woken (space_full mq) \<noteq> [])"

lemma signal_waiting_Nil: "waiting c = [] \<Longrightarrow> waiting (snd (pthread_cond_signal pick c)) = []"
  by (simp add: signal_none)

lemma signal_woken_pos: "waiting c \<noteq> [] \<Longrightarrow> woken (snd (pthread_cond_signal pick c)) \<noteq> []"
  using signal_moves_one [of c pick] by auto

lemma read_result_wake:
  assumes "read_result s len ms ms' r out s'"
    and "no_writers (q_mq s) \<longrightarrow> waiting (space_empty (q_mq s)) = []"
    and "waiting (space_empty (q_mq s)) \<noteq> [] \<longrightarrow> length ms \<le> Suc (length (woken (space_empty (q_mq s))))"
    and "ms = [] \<and> waiting (space_full (q_mq s)) \<noteq> [] \<longrightarrow> woken (space_full (q_mq s)) \<noteq> []"
  shows "wake_inv (q_mq s') ms'"
  using assms(1)
proof cases
  case (got x rb ch b)
  then show ?thesis
    using assms(2-4) signal_waiting_Nil signal_woken_pos
    by (auto simp: wake_inv_def after_read_def Let_def)
qed (use assms(2-4) in \<open>auto simp: wake_inv_def after_defs Let_def\<close>)

lemma write_result_wake:
  assumes "write_result s src len ms ms' r s'" "mq_ready s [] ms"
    and "no_writers (q_mq s) \<longrightarrow> waiting (space_empty (q_mq s)) = []"
    and "waiting (space_empty (q_mq s)) \<noteq> [] \<longrightarrow> length ms \<le> length (woken (space_empty (q_mq s)))"
  shows "wake_inv (q_mq s') ms'"
proof -
  have sig: "wake_inv (mq\<lparr>space_empty := snd (pthread_cond_signal p (space_empty mq))\<rparr>) (ms @ [x])"
    if "no_writers mq \<longrightarrow> waiting (space_empty mq) = []"
      "waiting (space_empty mq) \<noteq> [] \<longrightarrow> length ms \<le> length (woken (space_empty mq))" for mq p x
    using that signal_moves_one [of "space_empty mq" p] signal_waiting_Nil [of "space_empty mq" p]
    by (cases "waiting (space_empty mq) = []") (auto simp: wake_inv_def)
  from assms(1) show ?thesis
  proof cases
    case (full)
    then have "ms \<noteq> []" using assms(2) by (auto simp: free_bytes_def)
    with full assms(3,4) show ?thesis by (simp add: wake_inv_def after_defs Let_def)
  qed (use sig [of "q_mq s"] assms(3,4) in \<open>auto simp: wake_inv_def after_defs Let_def\<close>)
qed

section \<open>The invariant\<close>

fun status_ok :: "nat \<Rightarrow> status \<Rightarrow> bool" where
  "status_ok cap Idle = True"
| "status_ok cap (Reading f out len) = (unat len \<le> length out)"
| "status_ok cap (Writing f src len) =
     (len \<noteq> 0 \<and> unat len \<le> length src \<and> unat len < 2 ^ 63 \<and> unat len + 8 < cap)"

definition m_cap :: "machine \<Rightarrow> nat" where
  "m_cap m = rb_capacity (mq_buffer (m_mq m))"

definition qinv :: "machine \<Rightarrow> u8 list list \<Rightarrow> bool" where
  "qinv m ms \<longleftrightarrow> sent m = received m @ ms \<and> mq_ready (view (fresh_env 1) m) [] ms \<and>
     counts (m_mq m) (m_open m) \<and> wake_inv (m_mq m) ms \<and> (\<forall>t. status_ok (m_cap m) (m_status m t))"

lemma ready_view:
  assumes "mq_ready s [] ms" "m_mq m = q_mq s" "m_heap m = q_heap s" "self env \<noteq> 0"
  shows "mq_ready (view env m) [] ms"
  using assms by (simp add: mq_ready_def mq_holds_def view_def has_tid_def list_rep_def q_list_def
      pollers_ready_def unlocked_def)

lemma view_fields [simp]:
  "q_mq (view env m) = m_mq m" "q_env (view env m) = env" "q_heap (view env m) = m_heap m"
  by (simp_all add: view_def)

lemma qinv_ready: "qinv m ms \<Longrightarrow> self env \<noteq> 0 \<Longrightarrow> mq_ready (view env m) [] ms"
  using ready_view [of "view (fresh_env 1) m" ms m env] by (simp add: qinv_def)

text \<open>What a critical section of a read or a write leaves alone.\<close>

definition keeps :: "queue_state \<Rightarrow> queue_state \<Rightarrow> bool" where
  "keeps s s' \<longleftrightarrow> refs (q_mq s') = refs (q_mq s) \<and> readers (q_mq s') = readers (q_mq s) \<and>
     writers (q_mq s') = writers (q_mq s) \<and> 
     rb_capacity (mq_buffer (q_mq s')) = rb_capacity (mq_buffer (q_mq s))"

lemma keeps_counts: "keeps s s' \<Longrightarrow> counts (q_mq s') fs = counts (q_mq s) fs"
  by (simp add: keeps_def counts_def)

lemma keeps_after [simp]:
  "keeps s (after_read ch ps rb b s) \<longleftrightarrow> rb_capacity rb = rb_capacity (mq_buffer (q_mq s))"
  "keeps s (after_write ch ps rb b s) \<longleftrightarrow> rb_capacity rb = rb_capacity (mq_buffer (q_mq s))"
  "keeps s (after_write_nonblock ch rb s) \<longleftrightarrow> rb_capacity rb = rb_capacity (mq_buffer (q_mq s))"
  "keeps s (after_eof ch ps s)" "keeps s (after_error e s)" "keeps s (asleep_reading s)"
  "keeps s (asleep_writing s)" "keeps s (woken_reader s)" "keeps s (woken_writer s)"
  by (simp_all add: keeps_def after_defs woken_reader_def woken_writer_def Let_def)

lemma keeps_trans: "keeps s s1 \<Longrightarrow> keeps s1 s2 \<Longrightarrow> keeps s s2"
  by (simp add: keeps_def)

lemma read_result_frame:
  assumes "read_result s len ms ms' r out s'" "mq_ready s [] ms"
  shows "mq_ready s' [] ms' \<and> keeps s s' \<and> (r = Sleeping \<longrightarrow> unat len \<le> length out) \<and>
    ms = (case r of Sleeping \<Rightarrow> [] | Returned n \<Rightarrow> if 0 < n then [take (nat n) out] else []) @ ms'"
  using assms
proof cases
  case (got x rb ch b)
  with assms(2) show ?thesis
    by (auto intro: after_read_ready)
qed (use after_ready [of s "[]" ms] assms(2) in auto)

lemma write_result_frame:
  assumes "write_result s src len ms ms' r s'" "mq_ready s [] ms"
  shows "mq_ready s' [] ms' \<and> keeps s s' \<and>
    (r = Sleeping \<longrightarrow> unat len + 8 < rb_capacity (mq_buffer (q_mq s))) \<and>
    ms' = ms @ (case r of Sleeping \<Rightarrow> []
                | Returned n \<Rightarrow> if n = 0 \<or> errno (q_env s') = EAGAIN then [take (unat len) src] else [])"
  using assms
proof cases
  case (put rb ch b)
  with assms(2) after_write_ready(1) [OF assms(2) put(5) put(4)] show ?thesis
    by simp
next
  case (put_again rb ch)
  with assms(2) after_write_ready(2) [OF assms(2) put_again(5) put_again(4)] show ?thesis
    by simp
next
  case full
  with after_ready(4) [OF assms(2)] show ?thesis by simp
qed

lemma read_done_inv:
  assumes inv: "qinv m ms" and s: "mq_ready s [] ms" "keeps (view env m) s"
    and res: "read_result s len ms ms' r out s'"
    and wake: "wake_inv (q_mq s') ms'"
  shows "qinv (read_done t f len r out s' m) ms'"
proof -
  note frame = read_result_frame [OF res s(1)]
  have k: "keeps (view env m) s'" using s(2) frame keeps_trans by blast
  then have cap: "rb_capacity (mq_buffer (q_mq s')) = m_cap m" by (simp add: keeps_def m_cap_def)
  have "sent (read_done t f len r out s' m) = received (read_done t f len r out s' m) @ ms'"
    using inv frame by (auto simp: qinv_def read_done_def Let_def split: outcome.splits)
  moreover have "mq_ready (view (fresh_env 1) (read_done t f len r out s' m)) [] ms'"
    by (rule ready_view [of s']) (use frame in \<open>auto simp: read_done_def Let_def split: outcome.splits\<close>)
  moreover have "counts (m_mq (read_done t f len r out s' m)) (m_open (read_done t f len r out s' m))"
    using inv keeps_counts [OF k] by (auto simp: qinv_def read_done_def Let_def split: outcome.splits)
  moreover have "\<forall>x. status_ok (m_cap (read_done t f len r out s' m)) (m_status (read_done t f len r out s' m) x)"
    using inv frame cap
    by (auto simp: qinv_def read_done_def Let_def m_cap_def split: outcome.splits)
  moreover have "m_mq (read_done t f len r out s' m) = q_mq s'"
    by (auto simp: read_done_def Let_def split: outcome.splits)
  ultimately show ?thesis using wake by (simp add: qinv_def)
qed

lemma write_done_inv:
  assumes inv: "qinv m ms" and ready: "mq_ready s' [] ms'" and k: "keeps (view env m) s'"
    and grow: "ms' = ms @ (case r of Sleeping \<Rightarrow> []
                | Returned n \<Rightarrow> if n = 0 \<or> errno (q_env s') = EAGAIN then [take (unat len) src] else [])"
    and sleep: "r = Sleeping \<Longrightarrow> status_ok (m_cap m) (Writing f src len)"
    and wake: "wake_inv (q_mq s') ms'"
  shows "qinv (write_done t f src len r s' m) ms'"
proof -
  have cap: "rb_capacity (mq_buffer (q_mq s')) = m_cap m" using k by (simp add: keeps_def m_cap_def)
  have "sent (write_done t f src len r s' m) = received (write_done t f src len r s' m) @ ms'"
    using inv grow by (auto simp: qinv_def write_done_def Let_def split: outcome.splits)
  moreover have "mq_ready (view (fresh_env 1) (write_done t f src len r s' m)) [] ms'"
    by (rule ready_view [of s']) (use ready in \<open>auto simp: write_done_def Let_def split: outcome.splits\<close>)
  moreover have "counts (m_mq (write_done t f src len r s' m)) (m_open (write_done t f src len r s' m))"
    using inv keeps_counts [OF k] by (auto simp: qinv_def write_done_def Let_def split: outcome.splits)
  moreover have "\<forall>x. status_ok (m_cap (write_done t f src len r s' m)) (m_status (write_done t f src len r s' m) x)"
    using inv sleep cap
    by (auto simp: qinv_def write_done_def Let_def m_cap_def split: outcome.splits)
  moreover have "m_mq (write_done t f src len r s' m) = q_mq s'"
    by (auto simp: write_done_def Let_def split: outcome.splits)
  ultimately show ?thesis using wake by (simp add: qinv_def)
qed

lemma keeps_refl [simp]: "keeps s s"
  by (simp add: keeps_def)

lemma woken_fields [simp]:
  "no_writers (q_mq (woken_reader s)) = no_writers (q_mq s)"
  "space_full (q_mq (woken_reader s)) = space_full (q_mq s)"
  "waiting (space_empty (q_mq (woken_reader s))) = waiting (space_empty (q_mq s))"
  "woken (space_empty (q_mq (woken_reader s))) = remove1 (self (q_env s)) (woken (space_empty (q_mq s)))"
  "no_writers (q_mq (woken_writer s)) = no_writers (q_mq s)"
  "space_empty (q_mq (woken_writer s)) = space_empty (q_mq s)"
  "rb_capacity (mq_buffer (q_mq (woken_writer s))) = rb_capacity (mq_buffer (q_mq s))"
  by (simp_all add: woken_reader_def woken_writer_def)

text \<open>Every step preserves the invariant.\<close>

lemma step_call_read:
  assumes "qinv m ms" "self env \<noteq> 0" "unat len \<le> length out"
    "mq_read ch f (view env m) out len = Some (r, out', s)"
  shows "\<exists>ms'. qinv (read_done t f len r out' s m) ms'"
proof -
  note rd = qinv_ready [OF assms(1,2)]
  obtain ms' where res: "read_result (view env m) len ms ms' r out' s"
    using read_outcome [OF rd assms(3,4)] by blast
  have "wake_inv (q_mq s) ms'"
    by (rule read_result_wake [OF res]) (use assms(1) in \<open>auto simp: qinv_def wake_inv_def\<close>)
  from read_done_inv [OF assms(1) rd keeps_refl res this] show ?thesis by blast
qed

lemma step_wake_read:
  assumes "qinv m ms" "self env \<noteq> 0" "unat len \<le> length out"
    "read_resume ch f (view env m) out len = Some (r, out', s)"
  shows "\<exists>ms'. qinv (read_done t f len r out' s m) ms'"
proof -
  note rd = qinv_ready [OF assms(1,2)]
  obtain ms' where res: "read_result (woken_reader (view env m)) len ms ms' r out' s"
    and w: "self env \<in> set (woken (space_empty (m_mq m)))"
    using read_resume_outcome [OF rd assms(3,4)] by auto
  have "Suc (length (remove1 (self env) (woken (space_empty (m_mq m))))) = length (woken (space_empty (m_mq m)))"
    using w length_pos_if_in_set [OF w] by (simp add: length_remove1)
  then have "wake_inv (q_mq s) ms'"
    by (intro read_result_wake [OF res]) (use assms(1) in \<open>auto simp: qinv_def wake_inv_def\<close>)
  from read_done_inv [OF assms(1) _ _ res this, of env] rd show ?thesis by auto
qed

lemma step_call_write:
  assumes "qinv m ms" "self env \<noteq> 0" and len: "len \<noteq> 0" "unat len \<le> length src" "unat len < 2 ^ 63"
    and "mq_write ch f (view env m) src len = Some (r, s)"
  shows "\<exists>ms'. qinv (write_done t f src len r s m) ms'"
proof -
  note rd = qinv_ready [OF assms(1,2)]
  from write_outcome [OF rd len assms(6)] show ?thesis
  proof (elim disjE exE conjE)
    fix ms' assume res: "write_result (view env m) src len ms ms' r s"
    note frame = write_result_frame [OF res rd]
    have wake: "wake_inv (q_mq s) ms'"
      by (rule write_result_wake [OF res rd]) (use assms(1) in \<open>auto simp: qinv_def wake_inv_def\<close>)
    have sleep: "r = Sleeping \<Longrightarrow> status_ok (m_cap m) (Writing f src len)"
      using frame len by (simp add: m_cap_def)
    show ?thesis
      using write_done_inv [OF assms(1) _ _ _ sleep wake, of env] frame by blast
  next
    fix e assume e: "r = Returned (- 1)" "s = after_error e (view env m)" "e \<noteq> EAGAIN"
    have "wake_inv (q_mq s) ms" using assms(1) by (simp add: e after_error_def qinv_def wake_inv_def)
    then have "qinv (write_done t f src len r s m) ms"
      using e after_ready(2) [OF rd, of e]
      by (intro write_done_inv [OF assms(1), of s ms env]) simp_all
    then show ?thesis ..
  qed
qed

lemma step_wake_write:
  assumes "qinv m ms" "self env \<noteq> 0" and st: "status_ok (m_cap m) (Writing f src len)"
    and "write_resume ch f (view env m) src len = Some (r, s)"
  shows "\<exists>ms'. qinv (write_done t f src len r s m) ms'"
proof -
  note rd = qinv_ready [OF assms(1,2)]
  have len: "len \<noteq> 0" "unat len \<le> length src" "unat len < 2 ^ 63"
    and cap: "unat len + 8 < rb_capacity (mq_buffer (q_mq (view env m)))"
    using st by (auto simp: m_cap_def)
  obtain ms' where res: "write_result (woken_writer (view env m)) src len ms ms' r s"
    using write_resume_outcome(2) [OF rd len cap assms(4)] by blast
  have rd': "mq_ready (woken_writer (view env m)) [] ms" using rd by simp
  note frame = write_result_frame [OF res rd']
  have wake: "wake_inv (q_mq s) ms'"
    by (rule write_result_wake [OF res rd']) (use assms(1) in \<open>auto simp: qinv_def wake_inv_def\<close>)
  have "keeps (view env m) s" using frame keeps_trans keeps_after(9) by blast
  then show ?thesis
    using write_done_inv [OF assms(1) _ _ _ st wake, of env] frame by blast
qed

lemma qinv_update:
  assumes inv: "qinv m ms" and "mq_buffer mq = mq_buffer (m_mq m)" "mq_list_head mq = mq_list_head (m_mq m)"
    "mq_list_validator mq = mq_list_validator (m_mq m)" "mutex_owner (mq_mutex mq) = None"
    "counts mq fs" "wake_inv mq ms"
  shows "qinv (m\<lparr>m_mq := mq, m_open := fs\<rparr>) ms"
proof -
  let ?m = "m\<lparr>m_mq := mq, m_open := fs\<rparr>"
  have rd: "mq_ready (view (fresh_env 1) m) [] ms" using inv by (simp add: qinv_def)
  have "mq_ready (view (fresh_env 1) ?m) [] ms"
    by (rule mq_readyI [OF rd]) (use assms(2-5) mq_ready_rb [OF rd] mq_ready_valid [OF rd] in simp_all)
  with assms show ?thesis by (simp add: qinv_def m_cap_def)
qed

lemma view_unlocked: "qinv m ms \<Longrightarrow> mutex_owner (mq_mutex (m_mq m)) = None"
  by (simp add: qinv_def mq_ready_def unlocked_def)

lemma spurious_wake:
  assumes "cond_spurious t c = Some c'"
  shows "length (woken c') = Suc (length (woken c))" "waiting c' \<noteq> [] \<longrightarrow> waiting c \<noteq> []" "woken c' \<noteq> []"
  using assms by (auto simp: cond_spurious_def split: if_splits)

lemma step_spurious:
  assumes "qinv m ms"
  shows "cond_spurious t (space_empty (m_mq m)) = Some c \<Longrightarrow> qinv (m\<lparr>m_mq := (m_mq m)\<lparr>space_empty := c\<rparr>\<rparr>) ms"
    and "cond_spurious t (space_full (m_mq m)) = Some c \<Longrightarrow> qinv (m\<lparr>m_mq := (m_mq m)\<lparr>space_full := c\<rparr>\<rparr>) ms"
proof -
  have c: "counts (m_mq m) (m_open m)" and w: "wake_inv (m_mq m) ms" using assms by (simp_all add: qinv_def)
  show "qinv (m\<lparr>m_mq := (m_mq m)\<lparr>space_empty := c\<rparr>\<rparr>) ms" if sp: "cond_spurious t (space_empty (m_mq m)) = Some c"
  proof -
    have "wake_inv ((m_mq m)\<lparr>space_empty := c\<rparr>) ms"
      using w spurious_wake [OF sp] by (auto simp: wake_inv_def)
    from qinv_update [OF assms, of "(m_mq m)\<lparr>space_empty := c\<rparr>" "m_open m"] this c view_unlocked [OF assms]
    show ?thesis by (simp add: counts_def)
  qed
  show "qinv (m\<lparr>m_mq := (m_mq m)\<lparr>space_full := c\<rparr>\<rparr>) ms" if sp: "cond_spurious t (space_full (m_mq m)) = Some c"
  proof -
    have "wake_inv ((m_mq m)\<lparr>space_full := c\<rparr>) ms"
      using w spurious_wake [OF sp] by (auto simp: wake_inv_def)
    from qinv_update [OF assms, of "(m_mq m)\<lparr>space_full := c\<rparr>" "m_open m"] this c view_unlocked [OF assms]
    show ?thesis by (simp add: counts_def)
  qed
qed

lemma unlock_mq: "unlock_queue s = Some s' \<Longrightarrow> q_mq s' = (q_mq s)\<lparr>mq_mutex := (mq_mutex (q_mq s))\<lparr>mutex_owner := None\<rparr>\<rparr>"
  by (cases "locked s") (auto simp: unlock_queue_ok unlock_queue_not_owner)

lemma view_counts: "qinv m ms \<Longrightarrow> counts (q_mq (with_lock (view env m))) (m_open m)"
  by (simp add: qinv_def counts_def with_lock_def)

lemma step_open:
  assumes inv: "qinv m ms" and a: "a AND 7 = 0" "a \<noteq> 0" and env: "self env \<noteq> 0"
    and f: "length (m_open m) < 2 ^ 64 - 1" "f AND NOT ALL_FLAGS = 0"
    and call: "lock_queue (view env m) = Some s" "mq_open a (q_mq s) f = Some (h, mq)"
      "unlock_queue (s\<lparr>q_mq := mq\<rparr>) = Some s'"
  shows "qinv (m\<lparr>m_mq := q_mq s', m_open := f # m_open m\<rparr>) ms"
proof -
  have s: "s = with_lock (view env m)" using call(1) lock_ready [OF qinv_ready [OF inv env]] by simp
  have mq: "counts mq (f # m_open m)" "same_queue (q_mq s) mq"
    "no_writers mq = (no_writers (q_mq s) \<and> \<not> writes f)"
    using mq_open_counts [OF view_counts [OF inv] f(1) a f(2), of env] call(2) s by auto
  note fields = same_queue_fields [OF mq(2)]
  have "wake_inv mq ms"
    using inv mq(3) fields by (simp add: qinv_def wake_inv_def s with_lock_def)
  then show ?thesis
    using qinv_update [OF inv, of "q_mq s'" "f # m_open m"] unlock_mq [OF call(3)] fields mq(1)
    by (simp add: s with_lock_def counts_def wake_inv_def)
qed

lemma step_close:
  assumes inv: "qinv m ms" and env: "self env \<noteq> 0" and f: "f \<in> set (m_open m)"
    and call: "lock_queue (view env m) = Some s" "mq_close (q_mq s) f = Some (False, mq)"
      "unlock_queue (close_notify (s\<lparr>q_mq := mq\<rparr>)) = Some s'"
  shows "qinv (m\<lparr>m_mq := q_mq s', m_open := remove1 f (m_open m)\<rparr>) ms"
proof -
  have s: "s = with_lock (view env m)" using call(1) lock_ready [OF qinv_ready [OF inv env]] by simp
  have mq: "counts mq (remove1 f (m_open m))" "same_queue (q_mq s) mq"
    using mq_close_counts [OF view_counts [OF inv] f, of env] call(2) s by auto
  note fields = same_queue_fields [OF mq(2)]
  let ?mq = "q_mq (close_notify (s\<lparr>q_mq := mq\<rparr>))"
  have keep: "mq_buffer ?mq = mq_buffer mq" "mq_list_head ?mq = mq_list_head mq"
    "mq_list_validator ?mq = mq_list_validator mq" "counts ?mq fs = counts mq fs" for fs
    by (simp_all add: close_notify_eq counts_def)
  have "wake_inv ?mq ms"
    using inv fields by (auto simp: qinv_def wake_inv_def close_notify_eq s with_lock_def
        pthread_cond_broadcast_def)
  then show ?thesis
    using qinv_update [OF inv, of "q_mq s'" "remove1 f (m_open m)"] unlock_mq [OF call(3)] fields mq(1) keep
    by (simp add: s with_lock_def counts_def wake_inv_def)
qed

lemma qinv_step:
  assumes "qstep a m m'" "qinv m ms" "a AND 7 = 0" "a \<noteq> 0"
  shows "\<exists>ms'. qinv m' ms'"
  using assms(1)
proof cases
  case (wake_read t f out len env ch r out' s)
  moreover have "status_ok (m_cap m) (Reading f out len)"
    using assms(2) wake_read(2) by (metis qinv_def)
  ultimately show ?thesis using step_wake_read [OF assms(2), of env len out ch f r out' s t] by simp
next
  case (wake_write t f src len env ch r s)
  moreover have "status_ok (m_cap m) (Writing f src len)"
    using assms(2) wake_write(2) by (metis qinv_def)
  ultimately show ?thesis using step_wake_write [OF assms(2)] by blast
next
  case (call_read t env f len out ch r out' s)
  then show ?thesis using step_call_read [OF assms(2), of env len out ch f r out' s t] by simp
next
  case (call_write t env f len src ch r s)
  then show ?thesis using step_call_write [OF assms(2), of env len src ch f r s t] by simp
next
  case (spurious_read t c)
  with step_spurious(1) [OF assms(2), of t c] show ?thesis by blast
next
  case (spurious_write t c)
  with step_spurious(2) [OF assms(2), of t c] show ?thesis by blast
next
  case (open_handle f env s h mq s')
  with step_open [OF assms(2-4), of env f s h mq s'] show ?thesis by blast
next
  case (close_handle f env s mq s')
  with step_close [OF assms(2), of env f s mq s'] show ?thesis by blast
qed

lemma reachable_inv: "reachable a m \<Longrightarrow> a AND 7 = 0 \<and> a \<noteq> 0 \<and> (\<exists>ms. qinv m ms)"
proof (induction rule: reachable.induct)
  case (start m)
  then show ?case
    by (auto simp: initial_def qinv_def wake_inv_def)
next
  case (step m m')
  then show ?case using qinv_step by blast
qed

section \<open>Delivery and wakeups in every interleaving\<close>

text \<open>C2. In every interleaving of any number of readers and writers of a queue, with spurious
  wakeups and handles opened and closed at any time, what has been received is a prefix of what
  has been sent, and the queue holds exactly the remaining messages in their order: no message
  is lost, duplicated, reordered or split.\<close>

theorem queue_delivers_in_order:
  assumes "reachable a m"
  shows "prefix (received m) (sent m) \<and>
    (\<exists>ms. sent m = received m @ ms \<and> rb_holds (mq_buffer (m_mq m)) (messages_bytes ms) \<and>
          (\<forall>x \<in> set ms. valid_message x))"
proof -
  obtain ms where "qinv m ms" using reachable_inv [OF assms] by blast
  then show ?thesis using mq_ready_rb [of "view (fresh_env 1) m" "[]" ms]
      mq_ready_valid [of "view (fresh_env 1) m" "[]" ms] by (auto simp: qinv_def)
qed

text \<open>C3. No wakeup is lost.  In every reachable state: if a reader is blocked and the queue has
  a message, then some reader has been woken and will run; if a writer is blocked and the queue
  is empty, then some writer has been woken and will run; and no reader stays blocked once the
  last writer has closed.  So readers and writers never block each other for ever.\<close>

theorem queue_no_lost_wakeup:
  assumes "reachable a m"
  shows "(waiting (space_empty (m_mq m)) \<noteq> [] \<and> received m \<noteq> sent m \<longrightarrow> woken (space_empty (m_mq m)) \<noteq> []) \<and>
    (waiting (space_full (m_mq m)) \<noteq> [] \<and> received m = sent m \<longrightarrow> woken (space_full (m_mq m)) \<noteq> []) \<and>
    (no_writers (m_mq m) \<longrightarrow> waiting (space_empty (m_mq m)) = [])"
proof -
  obtain ms where "qinv m ms" using reachable_inv [OF assms] by blast
  then show ?thesis by (auto simp: qinv_def wake_inv_def)
qed

text \<open>C20. The queue's counts are exact in every reachable state: the reference count is the
  number of open handles, and the reader and writer counts are the numbers of those that read
  and write; the mutex is free between critical sections.\<close>

theorem queue_counts_exact:
  assumes "reachable a m"
  shows "unat (refs (m_mq m)) = length (m_open m) \<and>
    unat (readers (m_mq m)) = length (filter reads (m_open m)) \<and>
    unat (writers (m_mq m)) = length (filter writes (m_open m)) \<and> mutex_owner (mq_mutex (m_mq m)) = None"
proof -
  obtain ms where "qinv m ms" using reachable_inv [OF assms] by blast
  with view_unlocked show ?thesis by (auto simp: qinv_def counts_def)
qed

text \<open>A queue of the examples with all threads idle.\<close>

definition demo_machine :: machine where
  "demo_machine = \<lparr>m_mq = demo_mq [], m_heap = [0x1040 \<mapsto> \<lparr>le_next = 0x1040, le_prev = 0x1040\<rparr>],
     m_status = (\<lambda>t. Idle), m_open = [1, 6], sent = [], received = []\<rparr>"

lemma demo_initial: "initial 0x1000 demo_machine"
proof -
  have "mq_ready (view (fresh_env 1) demo_machine) [] []"
    by (rule ready_view [OF demo_empty_ready]) (simp_all add: demo_machine_def demo_state_def)
  then show ?thesis
    using demo_counts [of "[]"] by (simp add: initial_def demo_machine_def demo_mq_def demo_state_def)
qed

lemma demo_reaches: "\<exists>m. reachable 0x1000 m \<and> sent m = [[8, 9]] \<and> received m = []"
proof -
  let ?s = "view (fresh_env 7) demo_machine"
  have r: "mq_ready ?s [] []"
    by (rule ready_view [OF demo_empty_ready]) (simp_all add: demo_machine_def demo_state_def)
  have cap: "rb_capacity (mq_buffer (q_mq ?s)) = 32" and nr: "\<not> no_readers (q_mq ?s)"
    by (simp_all add: demo_machine_def demo_mq_def demo_rb_def rb_capacity_def)
  obtain rb where "mq_write demo_chance 6 ?s [8, 9] 2 = Some (Returned (-1), after_write_nonblock demo_chance rb ?s)"
    using mq_write_loop [OF r nr, of 2 demo_chance 6 "[8, 9]"] cap
      write_loop_ready [OF r, of 2 "[8, 9]" demo_chance 6] by (auto simp: free_bytes_def)
  then have "qstep 0x1000 demo_machine
      (write_done 7 6 [8, 9] 2 (Returned (-1)) (after_write_nonblock demo_chance rb ?s) demo_machine)"
    by (intro qstep.call_write [where env = "fresh_env 7" and ch = demo_chance])
       (simp_all add: demo_machine_def writes_def)
  with demo_initial have "reachable 0x1000
      (write_done 7 6 [8, 9] 2 (Returned (-1)) (after_write_nonblock demo_chance rb ?s) demo_machine)"
    by (blast intro: reachable.intros)
  then show ?thesis by (intro exI conjI, assumption) (simp_all add: write_done_def demo_machine_def)
qed

theorem queue_delivers_in_order_witness:
  "\<exists>m. reachable 0x1000 m \<and> sent m = [[8, 9]] \<and> prefix (received m) (sent m)"
  using demo_reaches queue_delivers_in_order by blast

theorem queue_no_lost_wakeup_witness:
  "\<exists>m. reachable 0x1000 m \<and> received m \<noteq> sent m \<and>
     (waiting (space_empty (m_mq m)) \<noteq> [] \<longrightarrow> woken (space_empty (m_mq m)) \<noteq> [])"
  using demo_reaches queue_no_lost_wakeup by fastforce

theorem queue_counts_exact_witness:
  "unat (refs (m_mq demo_machine)) = 2 \<and> mutex_owner (mq_mutex (m_mq demo_machine)) = None"
  using queue_counts_exact [OF reachable.start [OF demo_initial]] by (simp add: demo_machine_def)

text \<open>C21. A writer that is woken again tests only for free space: with not enough of it, it goes
  back to sleep, and otherwise it writes its message, even when all readers have closed their
  handles in the meantime; the \<open>EPIPE\<close> that the interface promises is not reported.\<close>

theorem woken_writer_ignores_readers:
  assumes r: "mq_ready s [] ms" and "self (q_env s) \<in> set (woken (space_full (q_mq s)))"
    and len: "len \<noteq> 0" "unat len \<le> length src" "unat len < 2 ^ 63"
  shows "\<exists>r' s'. write_resume ch f s src len = Some (r', s') \<and>
     (if free_bytes s ms < unat len + 8
      then r' = Sleeping \<and> self (q_env s) \<in> set (waiting (space_full (q_mq s'))) \<and> mq_ready s' [] ms
      else mq_ready s' [] (ms @ [take (unat len) src]))"
proof -
  have w: "mq_ready (woken_writer s) [] ms" using r by simp
  have free: "free_bytes (woken_writer s) ms = free_bytes s ms" by (simp add: free_bytes_def)
  note loop = write_resume_loop [OF r assms(2), of ch f src len] write_loop_ready [OF w len, of ch f, unfolded free]
  show ?thesis
  proof (cases "unat len + 8 \<le> free_bytes s ms")
    case False
    then show ?thesis
      using loop after_ready(4) [OF w] by (simp add: asleep_writing_def woken_writer_def Let_def)
  next
    case True
    with loop obtain rb where "write_resume ch f s src len =
           Some (if f AND MSG_QUEUE_NONBLOCK \<noteq> 0 then (Returned (-1), after_write_nonblock ch rb (woken_writer s))
                 else (Returned 0, after_write ch [] rb (unat len + 8 = free_bytes s ms) (woken_writer s)))"
      and "rb_holds rb (messages_bytes (ms @ [take (unat len) src]))" "valid_message (take (unat len) src)"
      by auto
    with True after_write_ready [OF w this(2,3)] show ?thesis by (simp del: messages_bytes_simps)
  qed
qed

definition stuck_state :: queue_state where
  "stuck_state = (demo_state (messages_bytes demo_msgs))\<lparr>q_mq := (demo_mq (messages_bytes demo_msgs))
     \<lparr>no_readers := True, space_full := \<lparr>waiting = [], woken = [7]\<rparr>\<rparr>\<rparr>"

lemma stuck_ready: "mq_ready stuck_state [] [[1, 2, 3]]"
  by (rule mq_readyI [OF demo_msgs_ready])
     (use demo_msgs_ready [THEN mq_ready_rb] demo_msgs_ready [THEN mq_ready_valid] in
       \<open>simp_all add: stuck_state_def demo_state_def demo_mq_def\<close>)

theorem woken_writer_ignores_readers_witness:
  "\<exists>s'. write_resume demo_chance 2 stuck_state (replicate 14 0) 14 = Some (Sleeping, s') \<and>
        7 \<in> set (waiting (space_full (q_mq s')))"
proof -
  have "free_bytes stuck_state [[1, 2, 3]] = 21"
    using demo_free by (simp add: free_bytes_def stuck_state_def demo_state_def demo_mq_def)
  then show ?thesis
    using woken_writer_ignores_readers [OF stuck_ready, of 14 "replicate 14 0" demo_chance 2]
    by (auto simp: stuck_state_def demo_state_def fresh_env_def)
qed

end
