(* ===== verification/Poll.thy ===== *)
theory Poll
  imports Queue_Calls
begin

text \<open>
  \<open>msg_queue_poll\<close> (\<open>a2_message_queue/msg_queue.c\<close>): the checks of the arguments, the
  registration of one node per queue, counting the queues with events, sleeping, and the
  clean-up.  The call is modelled without interference between its critical sections; it
  may sleep once in between.
\<close>

section \<open>Arguments\<close>

record pollfd =
  pf_queue :: u64
  pf_events :: u32
  pf_revents :: u32

text \<open>The tests on one entry whose queue is not null.\<close>

definition poll_invalid :: "pollfd \<Rightarrow> bool" where
  "poll_invalid p \<longleftrightarrow> pf_events p = 0 \<or>
     pf_events p AND MQPOLL_READABLE \<noteq> 0 \<and> get_flags (pf_queue p) AND MSG_QUEUE_READER = 0 \<or>
     pf_events p AND MQPOLL_WRITABLE \<noteq> 0 \<and> get_flags (pf_queue p) AND MSG_QUEUE_WRITER = 0"

text \<open>The first loop: whether all entries passed, how many are null, and the entries with
  \<open>revents\<close> cleared as far as the loop got.\<close>

fun poll_check :: "pollfd list \<Rightarrow> bool \<times> nat \<times> pollfd list" where
  "poll_check [] = (True, 0, [])"
| "poll_check (p # ps) =
     (let p' = p\<lparr>pf_revents := 0\<rparr>
      in if pf_queue p = MSG_QUEUE_NULL
         then (let (ok, n, ps') = poll_check ps in (ok, Suc n, p' # ps'))
         else if poll_invalid p then (False, 0, p' # ps)
         else (let (ok, n, ps') = poll_check ps in (ok, n, p' # ps')))"

section \<open>Counting events\<close>

fun helper_count :: "queue_mem \<Rightarrow> pollfd list \<Rightarrow> (int \<times> pollfd list) option" where
  "helper_count w [] = Some (0, [])"
| "helper_count w (p # ps) =
     (if pf_queue p = MSG_QUEUE_NULL then do {
        (n, ps') \<leftarrow> helper_count w ps;
        Some (n, p # ps')
      } else do {
        a \<leftarrow> get_backend (pf_queue p);
        mq \<leftarrow> backends w a;
        let current_event = queue_event mq;
        let rev = current_event AND pf_events p;
        let ready = (if sint rev > 0 then 1 else 0);
        let rev' = (if get_flags (pf_queue p) AND (MSG_QUEUE_READER OR MSG_QUEUE_WRITER) \<noteq> 0
                    then rev OR (current_event AND (MQPOLL_NOWRITERS OR MQPOLL_NOREADERS)) else rev);
        (n, ps') \<leftarrow> helper_count w ps;
        Some (ready + n, p\<lparr>pf_revents := rev'\<rparr> # ps')
      })"

section \<open>Registration\<close>

text \<open>The critical section that files the node with the entry \<open>e\<close> in the queue's list.\<close>

definition register_node ::
  "thread_env \<Rightarrow> queue_mem \<Rightarrow> u64 \<Rightarrow> pollfd \<Rightarrow> (thread_env \<times> queue_mem) option" where
  "register_node env w e p = do {
     node \<leftarrow> mem_nodes w e;
     let w1 = w\<lparr>mem_nodes := (mem_nodes w)(e \<mapsto> node\<lparr>wn_events := pf_events p\<rparr>)\<rparr>;
     a \<leftarrow> get_backend (pf_queue p);
     s \<leftarrow> load_queue env w1 a;
     s1 \<leftarrow> lock_queue s;
     h \<leftarrow> list_entry_init (q_heap s1) e;
     ls \<leftarrow> list_add_tail (q_list (s1\<lparr>q_heap := h\<rparr>)) (mq_list_head (q_mq s1)) e;
     s2 \<leftarrow> unlock_queue (s1\<lparr>q_env := caller ls, q_heap := entries ls,
              q_mq := (q_mq s1)\<lparr>mq_list_validator := list_validator ls\<rparr>\<rparr>);
     Some (q_env s2, store_queue w1 a s2)
   }"

fun register_nodes ::
  "thread_env \<Rightarrow> queue_mem \<Rightarrow> u64 list \<Rightarrow> pollfd list \<Rightarrow> (thread_env \<times> queue_mem) option" where
  "register_nodes env w (e # es) (p # ps) =
     (if pf_queue p \<noteq> MSG_QUEUE_NULL then do {
        (env1, w1) \<leftarrow> register_node env w e p;
        register_nodes env1 w1 es ps
      } else register_nodes env w es ps)"
| "register_nodes env w es ps = Some (env, w)"

definition unregister_node ::
  "thread_env \<Rightarrow> queue_mem \<Rightarrow> u64 \<Rightarrow> pollfd \<Rightarrow> (thread_env \<times> queue_mem) option" where
  "unregister_node env w e p = do {
     a \<leftarrow> get_backend (pf_queue p);
     s \<leftarrow> load_queue env w a;
     s1 \<leftarrow> lock_queue s;
     ls \<leftarrow> list_del (q_list s1) (mq_list_head (q_mq s1)) e;
     s2 \<leftarrow> unlock_queue (s1\<lparr>q_env := caller ls, q_heap := entries ls,
              q_mq := (q_mq s1)\<lparr>mq_list_validator := list_validator ls\<rparr>\<rparr>);
     Some (q_env s2, store_queue w a s2)
   }"

fun unregister_nodes ::
  "thread_env \<Rightarrow> queue_mem \<Rightarrow> u64 list \<Rightarrow> pollfd list \<Rightarrow> (thread_env \<times> queue_mem) option" where
  "unregister_nodes env w (e # es) (p # ps) =
     (if pf_queue p \<noteq> MSG_QUEUE_NULL then do {
        (env1, w1) \<leftarrow> unregister_node env w e p;
        unregister_nodes env1 w1 es ps
      } else unregister_nodes env w es ps)"
| "unregister_nodes env w es ps = Some (env, w)"

section \<open>msg\_queue\_poll\<close>

text \<open>
  \<open>malloc\<close> of the array of nodes: the addresses of their entries, with indeterminate list
  pointers and no initialised synchronisation object.
\<close>

definition alloc_nodes :: "queue_mem \<Rightarrow> u64 list \<Rightarrow> list_entry \<Rightarrow> u32 \<Rightarrow> queue_mem" where
  "alloc_nodes w es junk junk_events =
     w\<lparr>mem_entries := (\<lambda>e. if e \<in> set es then Some junk else mem_entries w e),
       mem_nodes := (\<lambda>e. if e \<in> set es
          then Some \<lparr>is_ready = None, poll_mutex = None, wn_events = junk_events\<rparr> else mem_nodes w e)\<rparr>"

definition free_nodes :: "queue_mem \<Rightarrow> u64 list \<Rightarrow> queue_mem" where
  "free_nodes w es =
     w\<lparr>mem_entries := (\<lambda>e. if e \<in> set es then None else mem_entries w e),
       mem_nodes := (\<lambda>e. if e \<in> set es then None else mem_nodes w e)\<rparr>"

text \<open>Initialising and locking \<open>wt_nodes[0]\<close>, the only node that is initialised.\<close>

definition init_first_node :: "thread_env \<Rightarrow> queue_mem \<Rightarrow> u64 \<Rightarrow> (thread_env \<times> queue_mem) option" where
  "init_first_node env w e = do {
     node \<leftarrow> mem_nodes w e;
     let (env1, c) = cond_init env;
     let (env2, m) = mutex_init env1;
     (env3, m1) \<leftarrow> mutex_lock env2 m;
     Some (env3, w\<lparr>mem_nodes := (mem_nodes w)(e \<mapsto> node\<lparr>is_ready := Some c, poll_mutex := Some m1\<rparr>)\<rparr>)
   }"

definition unlock_first_node :: "thread_env \<Rightarrow> queue_mem \<Rightarrow> u64 \<Rightarrow> (thread_env \<times> queue_mem) option" where
  "unlock_first_node env w e = do {
     node \<leftarrow> mem_nodes w e;
     m \<leftarrow> poll_mutex node;
     (env1, m1) \<leftarrow> mutex_unlock env m;
     Some (env1, w\<lparr>mem_nodes := (mem_nodes w)(e \<mapsto> node\<lparr>poll_mutex := Some m1\<rparr>)\<rparr>)
   }"

text \<open>After the events have been counted (a second time, if the thread slept).\<close>

definition poll_finish ::
  "thread_env \<Rightarrow> queue_mem \<Rightarrow> u64 list \<Rightarrow> pollfd list \<Rightarrow> int \<Rightarrow>
   (int outcome \<times> pollfd list \<times> thread_env \<times> queue_mem) option" where
  "poll_finish env w es fds num_ready = do {
     (env1, w1) \<leftarrow> unlock_first_node env w (hd es);
     (env2, w2) \<leftarrow> unregister_nodes env1 w1 es fds;
     node \<leftarrow> mem_nodes w2 (hd es);
     c \<leftarrow> is_ready node;
     env3 \<leftarrow> cond_destroy env2 c;
     (env4, w3) \<leftarrow> unlock_first_node env3 w2 (hd es);
     Some (Returned num_ready, fds, env4, free_nodes w3 es)
   }"

text \<open>The sleep of the polling thread on \<open>wt_nodes[0]\<close>.\<close>

definition poll_sleep :: "thread_env \<Rightarrow> queue_mem \<Rightarrow> u64 \<Rightarrow> queue_mem option" where
  "poll_sleep env w e = do {
     node \<leftarrow> mem_nodes w e;
     c \<leftarrow> is_ready node;
     m \<leftarrow> poll_mutex node;
     (c1, m1) \<leftarrow> cond_wait env c m;
     Some (w\<lparr>mem_nodes := (mem_nodes w)(e \<mapsto> node\<lparr>is_ready := Some c1, poll_mutex := Some m1\<rparr>)\<rparr>)
   }"

text \<open>A poller that was woken counts once more and finishes, whatever it finds.\<close>

definition poll_resume ::
  "thread_env \<Rightarrow> queue_mem \<Rightarrow> u64 list \<Rightarrow> pollfd list \<Rightarrow>
   (int outcome \<times> pollfd list \<times> thread_env \<times> queue_mem) option" where
  "poll_resume env w es fds = do {
     node \<leftarrow> mem_nodes w (hd es);
     c \<leftarrow> is_ready node;
     m \<leftarrow> poll_mutex node;
     (c1, m1) \<leftarrow> cond_wakeup (self env) c m;
     let w1 = w\<lparr>mem_nodes := (mem_nodes w)(hd es \<mapsto> node\<lparr>is_ready := Some c1, poll_mutex := Some m1\<rparr>)\<rparr>;
     (n, fds1) \<leftarrow> helper_count w1 fds;
     poll_finish env w1 es fds1 n
   }"

text \<open>\<open>alloc\<close> is the result of \<open>malloc\<close>: \<open>None\<close> for \<open>NULL\<close>, else one entry address per node.\<close>

definition msg_queue_poll ::
  "thread_env \<Rightarrow> queue_mem \<Rightarrow> (u64 list \<times> list_entry \<times> u32) option \<Rightarrow> pollfd list \<Rightarrow>
   (int outcome \<times> pollfd list \<times> thread_env \<times> queue_mem) option" where
  "msg_queue_poll env w alloc fds0 =
     (let (ok, num_null, fds) = poll_check fds0
      in if \<not> ok then Some (Returned (-1), fds, env\<lparr>errno := EINVAL\<rparr>, w)
         else if num_null = length fds \<or> length fds = 0 then
           Some (Returned (-1), fds,
                 report_error ''msg_queue.c:445'' ''msg_queue_poll'' (env\<lparr>errno := EINVAL\<rparr>), w)
         else case alloc of
           None \<Rightarrow> Some (Returned (-1), fds,
                         report_error ''msg_queue.c:452'' ''malloc'' (env\<lparr>errno := ENOMEM\<rparr>), w)
         | Some (es, junk, junk_events) \<Rightarrow> do {
             let w0 = alloc_nodes w es junk junk_events;
             (env1, w1) \<leftarrow> init_first_node env w0 (hd es);
             (env2, w2) \<leftarrow> register_nodes env1 w1 es fds;
             (n, fds1) \<leftarrow> helper_count w2 fds;
             if n = 0 then do {
               w3 \<leftarrow> poll_sleep env2 w2 (hd es);
               Some (Sleeping, fds1, env2, w3)
             } else poll_finish env2 w2 es fds1 n
           })"
section \<open>Properties\<close>

lemma poll_check_ok:
  "fst (poll_check fds) \<longleftrightarrow> (\<forall>p \<in> set fds. pf_queue p = 0 \<or> \<not> poll_invalid p)"
  by (induction fds) (auto simp: Let_def split: prod.splits)

lemma poll_check_nulls:
  "fst (poll_check fds) \<Longrightarrow> fst (snd (poll_check fds)) = length (filter (\<lambda>p. pf_queue p = 0) fds) \<and>
     snd (snd (poll_check fds)) = map (\<lambda>p. p\<lparr>pf_revents := 0\<rparr>) fds"
  by (induction fds) (auto simp: Let_def split: prod.splits if_splits)

lemma all_null_count: "length (filter P fds) = length fds \<longleftrightarrow> (\<forall>p \<in> set fds. P p)"
  by (metis filter_True length_filter_less less_irrefl)


text \<open>The current events of the queue that an entry names.\<close>

definition event_of :: "queue_mem \<Rightarrow> pollfd \<Rightarrow> u32" where
  "event_of w p = (case get_backend (pf_queue p) of None \<Rightarrow> 0 | Some a \<Rightarrow>
     (case backends w a of None \<Rightarrow> 0 | Some mq \<Rightarrow> queue_event mq))"

definition has_queue :: "queue_mem \<Rightarrow> pollfd \<Rightarrow> bool" where
  "has_queue w p \<longleftrightarrow> (\<exists>a mq. get_backend (pf_queue p) = Some a \<and> backends w a = Some mq)"

definition poll_report :: "queue_mem \<Rightarrow> pollfd \<Rightarrow> pollfd" where
  "poll_report w p =
     (if pf_queue p = 0 then p
      else p\<lparr>pf_revents := (event_of w p AND pf_events p) OR
              (if reads (get_flags (pf_queue p)) \<or> writes (get_flags (pf_queue p))
               then event_of w p AND 12 else 0)\<rparr>)"

lemma sint_pos:
  assumes "unat (v :: u32) < 2 ^ 31"
  shows "0 < sint v \<longleftrightarrow> v \<noteq> 0"
  unfolding sint_small [OF assms] by (simp only: of_nat_0_less_iff neq0_conv [symmetric] unat_eq_0)

lemma flags_rw: "(f :: u32) AND 3 = 0 \<longleftrightarrow> \<not> reads f \<and> \<not> writes f"
proof -
  have "(3 :: u32) = 1 OR 2" by simp
  then have "f AND 3 = (f AND 1) OR (f AND 2)" by (simp only: bit.conj_disj_distrib)
  then show ?thesis by (simp only: or_eq_0_iff reads_def writes_def) blast
qed

text \<open>C23. \<open>helper_count\<close> returns the number of entries for which a requested event is pending,
  and reports for every entry the pending events it asked for, together with
  \<open>MQPOLL_NOREADERS\<close> and \<open>MQPOLL_NOWRITERS\<close> (both, whether the handle reads or writes);
  an entry without a queue stays as it is.  So an entry may get events without being counted,
  although \<open>msg_queue.h\<close> documents the number of queues with non-zero \<open>revents\<close>.\<close>

theorem helper_count_exact:
  assumes "\<forall>p \<in> set fds. pf_queue p \<noteq> 0 \<longrightarrow> has_queue w p \<and> pf_events p \<le> 15"
  shows "helper_count w fds =
    Some (int (length (filter (\<lambda>p. pf_queue p \<noteq> 0 \<and> event_of w p AND pf_events p \<noteq> 0) fds)),
          map (poll_report w) fds)"
  using assms
proof (induction fds)
  case (Cons p fds)
  show ?case
  proof (cases "pf_queue p = 0")
    case True
    with Cons show ?thesis by (simp add: poll_report_def)
  next
    case False
    then obtain a mq where mq: "get_backend (pf_queue p) = Some a" "backends w a = Some mq"
      and le: "pf_events p \<le> 15" using Cons.prems by (auto simp: has_queue_def)
    have "unat (queue_event mq AND pf_events p) \<le> 15"
      using order_trans [OF word_and_le1 le] by (simp add: word_le_nat_alt)
    then have "0 < sint (queue_event mq AND pf_events p) \<longleftrightarrow> queue_event mq AND pf_events p \<noteq> 0"
      by (intro sint_pos) simp
    moreover have "event_of w p = queue_event mq" using mq by (simp add: event_of_def)
    ultimately show ?thesis
      using False Cons mq by (simp add: poll_report_def flags_rw Let_def)
  qed
qed simp

text \<open>Finishing a poll: the second \<open>mutex_unlock\<close> of \<open>wt_nodes->poll_mutex\<close>.\<close>

lemma unregister_nodes_keep: "unregister_nodes env w es fds = Some (env', w') \<Longrightarrow> mem_nodes w' = mem_nodes w"
proof (induction env w es fds rule: unregister_nodes.induct)
  case (1 env w e es p ps)
  have one: "mem_nodes w1 = mem_nodes w" if "unregister_node env w e p = Some (env1, w1)" for env1 w1
    using that by (auto simp: unregister_node_def load_queue_def lock_queue_def unlock_queue_def store_queue_def
        bind_eq_Some_conv split: prod.splits)
  from 1 show ?case by (auto simp: bind_eq_Some_conv split: if_splits dest: one)
qed auto

lemma poll_finish_undefined: "poll_finish env w es fds n = None"
proof (rule ccontr)
  assume "poll_finish env w es fds n \<noteq> None"
  then obtain env1 w1 env2 w2 env3 x where s: "unlock_first_node env w (hd es) = Some (env1, w1)"
    "unregister_nodes env1 w1 es fds = Some (env2, w2)" "unlock_first_node env3 w2 (hd es) = Some x"
    by (auto simp: poll_finish_def bind_eq_Some_conv)
  from s(1) obtain node where "mem_nodes w1 (hd es) = Some node" "poll_mutex node = Some \<lparr>mutex_owner = None\<rparr>"
    by (auto simp: unlock_first_node_def mutex_unlock_def pthread_mutex_unlock_def bind_eq_Some_conv split: if_splits)
  with s(2) unregister_nodes_keep have "mem_nodes w2 (hd es) = Some node" by metis
  with s(3) \<open>poll_mutex node = _\<close> show False
    by (simp add: unlock_first_node_def mutex_unlock_foreign)
qed

lemma poll_results:
  "(case msg_queue_poll env w alloc fds of
      Some (Returned n, fds', env', w') \<Rightarrow> n = -1 | Some (Sleeping, fds', env', w') \<Rightarrow> True | None \<Rightarrow> True) \<and>
   poll_resume env w es fds = None"
proof -
  have "poll_resume env w es fds = None"
    by (cases "poll_resume env w es fds") (auto simp: poll_resume_def bind_eq_Some_conv poll_finish_undefined)
  moreover have "n = -1" if "msg_queue_poll env w alloc fds = Some (Returned n, fds', env', w')" for n fds' env' w'
    using that by (auto simp: msg_queue_poll_def poll_finish_undefined bind_eq_Some_conv
        split: prod.splits if_splits option.splits)
  ultimately show ?thesis by (auto split: option.splits outcome.splits)
qed

text \<open>C24. A call of \<open>msg_queue_poll\<close> that passes the checks and gets its memory never returns a
  count in a defined way, neither at once nor after having slept: it unlocks \<open>poll_mutex\<close> a
  second time when it no longer holds it.\<close>

theorem poll_never_returns:
  "(case msg_queue_poll env w alloc fds of
      Some (Returned n, fds', env', w') \<Rightarrow> n = -1 | Some (Sleeping, fds', env', w') \<Rightarrow> True | None \<Rightarrow> True) \<and>
   poll_resume env w es fds = None"
  by (rule poll_results)

section \<open>Registration and waking\<close>

lemma list_entry_init_dll:
  assumes "dll h l xs" "entry_in h e" "e \<notin> set (l # xs)"
  shows "\<exists>h'. list_entry_init h e = Some h' \<and> dll h' l xs \<and> entry_in h' = entry_in h"
proof -
  have "e \<in> dom h" using assms(2) by (simp add: entry_in_def)
  from list_entry_init_ok [OF this] obtain h' where h': "list_entry_init h e = Some h'"
    "get_next h' = (get_next h)(e \<mapsto> 0)" "get_prev h' = (get_prev h)(e \<mapsto> 0)" "dom h' = dom h" by blast
  have "chain (get_next h') (get_prev h') l xs l"
    by (rule chain_cong [of "get_next h" "get_prev h"]) (use assms h' in \<open>auto simp: dll_def\<close>)
  with h' assms(1) show ?thesis by (auto simp: dll_def dest: entry_in_cong)
qed

lemma list_add_tail_frame:
  "owner (list_validator s) = 0 \<Longrightarrow> list_add_tail s l e = Some s' \<Longrightarrow> s' = s\<lparr>entries := entries s'\<rparr>"
  by (auto simp: list_add_tail_def list_insert_raw bind_eq_Some_conv)

lemma list_del_frame:
  "owner (list_validator s) = 0 \<Longrightarrow> list_del s l e = Some s' \<Longrightarrow> s' = s\<lparr>entries := entries s'\<rparr>"
  by (auto simp: list_del_def exit_enter_list bind_eq_Some_conv)

lemma mutex_relock: "mutex_owner m = None \<Longrightarrow> m\<lparr>mutex_owner := None\<rparr> = m" for m :: mutex_t
  by (cases m) simp

lemma q_list_fields [simp]:
  "entries (q_list s) = q_heap s" "list_validator (q_list s) = mq_list_validator (q_mq s)" "caller (q_list s) = q_env s"
  by (simp_all add: q_list_def)

lemma register_node_ready:
  assumes a: "get_backend (pf_queue p) = Some a" "load_queue env w a = Some s" "mq_ready s ps ms"
    and e: "mem_nodes w e = Some node" "entry_in (mem_entries w) e" "e \<notin> set (mq_list_head (q_mq s) # ps)"
  shows "\<exists>h. let s1 = s\<lparr>q_heap := h, q_nodes := (mem_nodes w)(e \<mapsto> node\<lparr>wn_events := pf_events p\<rparr>)\<rparr> in
    register_node env w e p = Some (env, store_queue w a s1) \<and> mq_holds s1 (ps @ [e]) ms \<and> unlocked s1"
proof -
  let ?nodes = "(mem_nodes w)(e \<mapsto> node\<lparr>wn_events := pf_events p\<rparr>)" and ?l = "mq_list_head (q_mq s)"
  let ?s = "s\<lparr>q_nodes := ?nodes\<rparr>"
  have heap: "q_heap s = mem_entries w" and qe: "q_env s = env" using a(2) by (auto simp: load_queue_def bind_eq_Some_conv)
  have load: "load_queue env (w\<lparr>mem_nodes := ?nodes\<rparr>) a = Some ?s"
    using a(2) by (auto simp: load_queue_def bind_eq_Some_conv)
  have rep: "list_rep (q_list s) ?l ps" and u: "mutex_owner (mq_mutex (q_mq s)) = None"
    using a(3) by (simp_all add: mq_ready_def mq_holds_def unlocked_def)
  have lock: "lock_queue ?s = Some (with_lock ?s)" using u by (simp add: lock_queue_ok with_lock_def unlocked_def)
  obtain h where h: "list_entry_init (q_heap s) e = Some h" "dll h ?l ps" "entry_in h = entry_in (mem_entries w)"
    using list_entry_init_dll [of "q_heap s" ?l ps e] rep e heap by (auto simp: list_rep_def)
  let ?ls = "q_list ((with_lock ?s)\<lparr>q_heap := h\<rparr>)"
  have rep1: "list_rep ?ls ?l ps" using rep h by (simp add: list_rep_def with_lock_def)
  obtain ls where ls: "list_add_tail ?ls ?l e = Some ls" "list_rep ls ?l (ps @ [e])"
    using guarded.add_tail [OF rep1, of e] e h(3) by (auto simp: with_lock_def)
  have fr: "list_validator ls = mq_list_validator (q_mq s)" "caller ls = env"
    using arg_cong [OF list_add_tail_frame [OF _ ls(1)], of list_validator]
      arg_cong [OF list_add_tail_frame [OF _ ls(1)], of caller] rep qe
    by (simp_all add: list_rep_def with_lock_def)
  let ?s1 = "s\<lparr>q_heap := entries ls, q_nodes := ?nodes\<rparr>"
  have "register_node env w e p = Some (env, store_queue w a ?s1)"
    using a(1) e(1) load lock h(1) ls(1) qe mutex_relock [OF u]
    by (simp add: register_node_def unlock_queue_def with_lock_def fr mutex_unlock_own store_queue_def Let_def)
  moreover have "mq_holds ?s1 (ps @ [e]) ms"
    using a(3) ls(2) fr qe by (simp add: mq_ready_def mq_holds_def list_rep_def)
  ultimately show ?thesis using u by (intro exI [of _ "entries ls"]) (simp add: unlocked_def)
qed

lemma unregister_node_ready:
  assumes a: "get_backend (pf_queue p) = Some a" "load_queue env w a = Some s" "mq_holds s ps ms" "unlocked s"
    and e: "e \<in> set ps"
  shows "\<exists>h. let s1 = s\<lparr>q_heap := h\<rparr> in
    unregister_node env w e p = Some (env, store_queue w a s1) \<and> mq_holds s1 (remove1 e ps) ms \<and> unlocked s1"
proof -
  let ?l = "mq_list_head (q_mq s)"
  have qe: "q_env s = env" using a(2) by (rule load_env)
  have rep: "list_rep (q_list (with_lock s)) ?l ps" and u: "mutex_owner (mq_mutex (q_mq s)) = None"
    using a(3,4) by (simp_all add: mq_holds_def unlocked_def with_lock_def q_list_def)
  have lock: "lock_queue s = Some (with_lock s)" using a(4) by (simp add: lock_queue_ok with_lock_def)
  obtain ls where ls: "list_del (q_list (with_lock s)) ?l e = Some ls" "list_rep ls ?l (remove1 e ps)"
    using guarded.del [OF rep e] by auto
  have fr: "list_validator ls = mq_list_validator (q_mq s)" "caller ls = env"
    using arg_cong [OF list_del_frame [OF _ ls(1)], of list_validator]
      arg_cong [OF list_del_frame [OF _ ls(1)], of caller] rep qe
    by (simp_all add: list_rep_def with_lock_def)
  let ?s1 = "s\<lparr>q_heap := entries ls\<rparr>"
  have "unregister_node env w e p = Some (env, store_queue w a ?s1)"
    using a(1,2) lock ls(1) qe mutex_relock [OF u]
    by (simp add: unregister_node_def unlock_queue_def with_lock_def fr mutex_unlock_own store_queue_def)
  moreover have "mq_holds ?s1 (remove1 e ps) ms"
    using a(3) ls(2) fr qe by (simp add: mq_holds_def list_rep_def)
  ultimately show ?thesis using u by (intro exI [of _ "entries ls"]) (simp add: unlocked_def)
qed

text \<open>Registering a poller's node with a ready queue and removing it again: the node is
  filed behind the pollers that are already there with the events asked for, and afterwards the
  queue has the same pollers and messages as before.\<close>

lemma poll_registration:
  assumes a: "get_backend (pf_queue p) = Some a" "load_queue env w a = Some s" "mq_ready s ps ms"
    and e: "mem_nodes w e = Some node" "entry_in (mem_entries w) e" "e \<notin> set (mq_list_head (q_mq s) # ps)"
  shows "\<exists>w1 s1 w2 s2. register_node env w e p = Some (env, w1) \<and> load_queue env w1 a = Some s1 \<and>
     mq_holds s1 (ps @ [e]) ms \<and> map_option wn_events (q_nodes s1 e) = Some (pf_events p) \<and>
     unregister_node env w1 e p = Some (env, w2) \<and> load_queue env w2 a = Some s2 \<and>
     mq_holds s2 ps ms \<and> unlocked s2"
proof -
  have reload: "load_queue env (store_queue w' a s') a = Some s'" if "q_env s' = env" for s' w'
    using that by (cases s') (simp add: load_queue_def store_queue_def)
  obtain s1 where s1: "register_node env w e p = Some (env, store_queue w a s1)" "mq_holds s1 (ps @ [e]) ms"
    "unlocked s1" "q_env s1 = env" "map_option wn_events (q_nodes s1 e) = Some (pf_events p)"
    using register_node_ready [OF assms] load_env [OF a(2)] by (auto simp: Let_def)
  note l1 = reload [OF s1(4), of w]
  obtain s2 where s2: "unregister_node env (store_queue w a s1) e p =
       Some (env, store_queue (store_queue w a s1) a s2)"
    "mq_holds s2 (remove1 e (ps @ [e])) ms" "unlocked s2" "q_env s2 = env"
    using unregister_node_ready [OF a(1) l1 s1(2,3), of e] s1(4) by (auto simp: Let_def)
  have "remove1 e (ps @ [e]) = ps" using e(3) by (simp add: remove1_append)
  with s1 s2 l1 reload [OF s2(4)] show ?thesis by metis
qed

lemma poll_registration_example:
  "\<exists>w1 s1. register_node (fresh_env 7) (alloc_nodes (demo_mem []) [0x3000] \<lparr>le_next = 1, le_prev = 2\<rparr> 0) 0x3000
       \<lparr>pf_queue = 0x1001, pf_events = 1, pf_revents = 0\<rparr> = Some (fresh_env 7, w1) \<and>
     load_queue (fresh_env 7) w1 0x1000 = Some s1 \<and> mq_holds s1 [0x3000] []"
proof -
  let ?w = "alloc_nodes (demo_mem []) [0x3000] \<lparr>le_next = 1, le_prev = 2\<rparr> 0"
  let ?s = "(demo_state [])\<lparr>q_heap := mem_entries ?w, q_nodes := mem_nodes ?w\<rparr>"
  have l: "load_queue (fresh_env 7) ?w 0x1000 = Some ?s"
    by (simp add: load_queue_def alloc_nodes_def demo_mem_def demo_state_def)
  have r: "mq_ready ?s [] []"
    using demo_empty_ready
    by (simp add: mq_ready_def mq_holds_def list_rep_def dll_def pollers_ready_def unlocked_def
        alloc_nodes_def demo_state_def demo_mq_def get_next_def get_prev_def demo_mem_def)
  have n: "mem_nodes ?w 0x3000 = Some \<lparr>is_ready = None, poll_mutex = None, wn_events = 0\<rparr>"
    by (simp add: alloc_nodes_def)
  have e: "entry_in (mem_entries ?w) 0x3000" "0x3000 \<notin> set [mq_list_head (q_mq ?s)]"
    by (simp_all add: alloc_nodes_def entry_in_def demo_state_def demo_mq_def dom_def)
  show ?thesis
    using poll_registration [of "\<lparr>pf_queue = 0x1001, pf_events = 1, pf_revents = 0\<rparr>", OF _ l r n e]
    by (auto simp: demo_handle)
qed

text \<open>Only the first node of a poll has its synchronisation objects initialised.\<close>

definition uninit :: "waiting_node option \<Rightarrow> bool" where
  "uninit n \<longleftrightarrow> (\<exists>node. n = Some node \<and> poll_mutex node = None \<and> is_ready node = None)"

lemma register_nodes_uninit:
  "register_nodes env w es fds = Some (env', w') \<Longrightarrow> uninit (mem_nodes w x) \<Longrightarrow> uninit (mem_nodes w' x)"
proof (induction env w es fds rule: register_nodes.induct)
  case (1 env w e es p ps)
  note IH = 1(1) and prems = 1(3,4)
  have one: "uninit (mem_nodes w1 x)" if "register_node env w e p = Some (env1, w1)" for env1 w1
    using that prems(2)
    by (auto simp: register_node_def load_queue_def lock_queue_def unlock_queue_def store_queue_def uninit_def
        bind_eq_Some_conv Let_def split: prod.splits if_splits)
  show ?case
  proof (cases "pf_queue p = 0")
    case True
    with 1 show ?thesis by simp
  next
    case False
    with prems(1) obtain env1 w1 where "register_node env w e p = Some (env1, w1)"
      "register_nodes env1 w1 es ps = Some (env', w')" by (auto simp: bind_eq_Some_conv)
    with IH [of "(env1, w1)" env1 w1] False one show ?thesis by simp
  qed
qed auto

lemma wake_nodes_uninit:
  assumes "e \<in> set ps" "q_nodes s e = Some node" "poll_mutex node = None" "wn_events node AND queue_event (q_mq s) \<noteq> 0"
  shows "wake_nodes pick ps s = None"
  using assms
proof (induction ps arbitrary: s)
  case (Cons p ps)
  show ?case
  proof (cases "p = e")
    case True
    with Cons.prems show ?thesis by (simp add: wake_node_def)
  next
    case False
    have "q_nodes s1 e = q_nodes s e \<and> q_mq s1 = q_mq s" if "wake_node pick p s = Some s1" for s1
      using that False by (auto simp: wake_node_def bind_eq_Some_conv cond_signal_eq split: if_splits)
    with False Cons show ?thesis by (cases "wake_node pick p s") auto
  qed
qed simp

text \<open>C25. While a thread sleeps in \<open>msg_queue_poll\<close> on more than one entry, the node of every
  entry but the first has an uninitialised mutex and condition variable: when the queue of such
  an entry gets an event that was asked for, \<open>helper_wakeup\<close> (called by every read and write on
  that queue) is undefined.\<close>

theorem poll_later_nodes_uninitialised:
  assumes "msg_queue_poll env w (Some (es, junk, junk_events)) fds = Some (Sleeping, fds', env', w')"
    and "distinct es" "0 < i" "i < length es"
    and s: "mq_holds s ps ms" "es ! i \<in> set ps" "q_nodes s (es ! i) = mem_nodes w' (es ! i)"
    and ev: "\<forall>node. mem_nodes w' (es ! i) = Some node \<longrightarrow> wn_events node AND queue_event (q_mq s) \<noteq> 0"
  shows "uninit (mem_nodes w' (es ! i)) \<and> helper_wakeup pick s = None"
proof -
  let ?e = "es ! i"
  have ne: "?e \<noteq> hd es" using assms(2-4) nth_eq_iff_index_eq [of es i 0] by (cases es) auto
  have "uninit (mem_nodes (alloc_nodes w es junk junk_events) ?e)"
    using assms(4) by (simp add: alloc_nodes_def uninit_def)
  moreover obtain env1 w1 fds1 env2 w2 where "init_first_node env (alloc_nodes w es junk junk_events) (hd es) = Some (env1, w1)"
    "register_nodes env1 w1 es fds1 = Some (env2, w2)" "poll_sleep env2 w2 (hd es) = Some w'"
    using assms(1) by (auto simp: msg_queue_poll_def poll_finish_undefined bind_eq_Some_conv
        Let_def split: prod.splits if_splits)
  ultimately have un: "uninit (mem_nodes w' ?e)"
    using ne register_nodes_uninit [of env1 w1 es fds1 env2 w2 ?e]
    by (auto simp: init_first_node_def poll_sleep_def bind_eq_Some_conv cond_init_def mutex_init_def
        pthread_cond_init_def pthread_mutex_init_def)
  have "wake_nodes pick ps s = None"
    using wake_nodes_uninit [OF s(2)] un s(3) ev by (auto simp: uninit_def)
  then have "helper_wakeup pick s = None"
    using s(1) guarded.visit [of "q_list s" "mq_list_head (q_mq s)" ps]
    by (simp add: helper_wakeup_def mq_holds_def q_list_def)
  with un show ?thesis by simp
qed

text \<open>Two entries for the reader handle of the empty example queue, polled for \<open>MQPOLL_READABLE\<close>.\<close>

definition demo_fds :: "pollfd list" where
  "demo_fds = [\<lparr>pf_queue = 0x1001, pf_events = 1, pf_revents = 9\<rparr>, \<lparr>pf_queue = 0x1001, pf_events = 1, pf_revents = 9\<rparr>]"


text \<open>The example queue after its last writer has closed: \<open>MQPOLL_NOWRITERS\<close> is pending.\<close>

definition demo_closed :: queue_mem where
  "demo_closed = (demo_mem [])\<lparr>backends := [0x1000 \<mapsto> (demo_mq [])\<lparr>queue_event := 8\<rparr>]\<rparr>"

text \<open>Both entries get the event, and none is counted.\<close>

theorem helper_count_exact_witness:
  "helper_count demo_closed demo_fds = Some (0, map (\<lambda>p. p\<lparr>pf_revents := MQPOLL_NOWRITERS\<rparr>) demo_fds)"
proof -
  have "reads (get_flags 0x1001)" by (simp add: demo_handle reads_def)
  then show ?thesis
    using helper_count_exact [of demo_fds demo_closed]
    by (simp add: demo_fds_def has_queue_def demo_handle event_of_def demo_closed_def poll_report_def)
qed

definition demo_poll :: "(int outcome \<times> pollfd list \<times> thread_env \<times> queue_mem) option" where
  "demo_poll = msg_queue_poll (fresh_env 7) (demo_mem [])
     (Some ([0x3000, 0x3040], \<lparr>le_next = 1, le_prev = 2\<rparr>, 0)) demo_fds"

lemma demo_poll_sleeps:
  "\<exists>fds' env' w'. demo_poll = Some (Sleeping, fds', env', w') \<and>
     map_option wn_events (mem_nodes w' 0x3040) = Some 1"
  by (simp add: demo_poll_def msg_queue_poll_def demo_fds_def poll_invalid_def demo_handle alloc_nodes_def
      demo_mem_def init_first_node_def cond_init_def mutex_init_def pthread_cond_init_def
      pthread_mutex_init_def mutex_lock_free register_node_def load_queue_def lock_queue_def
      demo_mq_def list_entry_init_def set_next_def set_prev_def list_add_tail_def list_insert_def
      enter_list_def exit_list_def fresh_env_def get_prev_def get_next_def mutex_unlock_own
      unlock_queue_def store_queue_def poll_sleep_def cond_wait_own Let_def)

text \<open>The example queue with the two nodes registered and a message pending.\<close>

definition demo_polled :: queue_state where
  "demo_polled = (demo_state [])\<lparr>q_mq := (demo_mq [])\<lparr>queue_event := 1\<rparr>,
     q_heap := [0x1040 \<mapsto> \<lparr>le_next = 0x3000, le_prev = 0x3040\<rparr>, 0x3000 \<mapsto> \<lparr>le_next = 0x3040, le_prev = 0x1040\<rparr>,
                0x3040 \<mapsto> \<lparr>le_next = 0x1040, le_prev = 0x3000\<rparr>]\<rparr>"

lemma demo_polled_holds: "mq_holds (demo_polled\<lparr>q_nodes := nodes\<rparr>) [0x3000, 0x3040] []"
  using demo_empty_ready
  by (simp add: mq_ready_def mq_holds_def list_rep_def dll_def demo_polled_def demo_state_def demo_mq_def
      get_next_def get_prev_def)

theorem poll_later_nodes_uninitialised_witness:
  "\<exists>fds' env' w'. demo_poll = Some (Sleeping, fds', env', w') \<and>
     helper_wakeup 0 (demo_polled\<lparr>q_nodes := mem_nodes w'\<rparr>) = None"
proof -
  obtain fds' env' w' where p: "demo_poll = Some (Sleeping, fds', env', w')"
    "map_option wn_events (mem_nodes w' 0x3040) = Some 1" using demo_poll_sleeps by blast
  have "uninit (mem_nodes w' ([0x3000, 0x3040] ! 1)) \<and>
      helper_wakeup 0 (demo_polled\<lparr>q_nodes := mem_nodes w'\<rparr>) = None"
    by (rule poll_later_nodes_uninitialised [OF p(1) [unfolded demo_poll_def] _ _ _ demo_polled_holds])
       (use p(2) in \<open>auto simp: demo_polled_def\<close>)
  with p(1) show ?thesis by blast
qed

end
