(* ===== verification/Threads.thy ===== *)
theory Threads
  imports Poll
begin

text \<open>
  Programs on the message queue: the code of a thread as a tree of the calls it makes, and the
  steps of a process whose threads run such trees on one shared memory.  A step is one call, up
  to its return or its sleep, or a call that goes on after its thread has been woken; steps of
  different threads interleave in any order.  \<open>pthread_create\<close> and \<open>pthread_join\<close> follow
  POSIX.  \<open>prodcon.c\<close> and \<open>multiprod.c\<close> are programs of this kind.
\<close>

section \<open>The code of a thread\<close>

text \<open>
  A node is a call with its arguments and, for every result it may have, the code that follows.
  \<open>'c\<close> is what the threads share besides the queues.  \<open>Printf\<close> stands for output between a call
  and a test of \<open>errno\<close>; other output is left out.  \<open>Exit\<close> ends the thread (in the first thread,
  the process) with a value; \<open>Abort\<close> is a failed assertion or undefined behaviour.
  \<open>Unfinished\<close> is a loop that has used up the number of iterations it was given.
\<close>

datatype 'c thread =
    Create u64 u32 "u64 \<Rightarrow> 'c thread"
  | Open u64 u32 "u64 \<Rightarrow> 'c thread"
  | Close "u64 option" "int \<Rightarrow> u64 option \<Rightarrow> 'c thread"
  | Write u64 "u8 list" u64 "int \<Rightarrow> 'c thread"
  | Read u64 u64 "int \<Rightarrow> u8 list \<Rightarrow> 'c thread"
  | Poll "pollfd list" "int \<Rightarrow> pollfd list \<Rightarrow> 'c thread"
  | Access "'c \<Rightarrow> 'c \<times> 'c thread"
  | Rand "int \<Rightarrow> 'c thread"
  | Clock "int \<Rightarrow> int \<Rightarrow> 'c thread"
  | Printf "'c thread"
  | Get_errno "int \<Rightarrow> 'c thread"
  | Report string string "'c thread"
  | Spawn "'c thread" "int \<Rightarrow> u64 \<Rightarrow> 'c thread"
  | Join u64 "int \<Rightarrow> int \<Rightarrow> 'c thread"
  | Exit int
  | Abort
  | Unfinished

text \<open>What a thread is doing: nothing yet, about to make its next call, or asleep inside one.\<close>

datatype 'c activity =
    Absent
  | Running "'c thread"
  | In_read u64 "u8 list" u64 "int \<Rightarrow> u8 list \<Rightarrow> 'c thread"
  | In_write u64 "u8 list" u64 "int \<Rightarrow> 'c thread"
  | In_poll "u64 list" "pollfd list" "int \<Rightarrow> pollfd list \<Rightarrow> 'c thread"

section \<open>Calls that go on after a sleep\<close>

definition msg_queue_read_resume ::
  "chance \<Rightarrow> thread_env \<Rightarrow> queue_mem \<Rightarrow> u64 \<Rightarrow> u8 list \<Rightarrow> u64 \<Rightarrow>
   (int outcome \<times> u8 list \<times> thread_env \<times> queue_mem) option" where
  "msg_queue_read_resume ch env w queue out len = do {
     a \<leftarrow> get_backend queue;
     s \<leftarrow> load_queue env w a;
     (r, out', s') \<leftarrow> read_resume ch (get_flags queue) s out len;
     Some (r, out', q_env s', store_queue w a s')
   }"

definition msg_queue_write_resume ::
  "chance \<Rightarrow> thread_env \<Rightarrow> queue_mem \<Rightarrow> u64 \<Rightarrow> u8 list \<Rightarrow> u64 \<Rightarrow>
   (int outcome \<times> thread_env \<times> queue_mem) option" where
  "msg_queue_write_resume ch env w queue src len = do {
     a \<leftarrow> get_backend queue;
     s \<leftarrow> load_queue env w a;
     (r, s') \<leftarrow> write_resume ch (get_flags queue) s src len;
     Some (r, q_env s', store_queue w a s')
   }"

section \<open>Steps\<close>

text \<open>What \<open>malloc\<close> may return to \<open>msg_queue_create\<close>: for each of its two objects \<open>NULL\<close> or a
  fresh object of the size asked for, suitably aligned.\<close>

definition malloc_ok ::
  "queue_mem \<Rightarrow> u64 \<Rightarrow> (u64 \<times> mq_backend \<times> list_entry) option \<Rightarrow> u8 list option \<Rightarrow> bool" where
  "malloc_ok w capacity alloc buf \<longleftrightarrow>
     (case alloc of None \<Rightarrow> True
      | Some (a, junk, e) \<Rightarrow> a \<noteq> 0 \<and> a AND 7 = 0 \<and> backends w a = None \<and>
                          mq_list_head junk \<noteq> 0 \<and> mem_entries w (mq_list_head junk) = None) \<and>
     (case buf of None \<Rightarrow> True | Some mem \<Rightarrow> length mem = unat capacity)"

definition RAND_MAX :: int where
  "RAND_MAX = 2 ^ 31 - 1"

text \<open>What a call does with a message: a write that returns 0 has sent the bytes it was given, a
  read that returns a positive number has received so many bytes.\<close>

datatype event = Quiet | Sent "u8 list" | Received "u8 list"

definition write_event :: "u8 list \<Rightarrow> u64 \<Rightarrow> int \<Rightarrow> event" where
  "write_event src len r = (if r = 0 then Sent (take (unat len) src) else Quiet)"

definition read_event :: "u8 list \<Rightarrow> int \<Rightarrow> event" where
  "read_event out r = (if 0 < r then Received (take (nat r) out) else Quiet)"

fun sends :: "event \<Rightarrow> u8 list list" where
  "sends (Sent m) = [m]"
| "sends _ = []"

fun receives :: "event \<Rightarrow> u8 list list" where
  "receives (Received m) = [m]"
| "receives _ = []"

text \<open>A call of one thread, on its environment, the memory and the shared object, with what it does
  with a message.  \<open>Read\<close> reads into an object of the size it passes, whose contents may be
  anything.\<close>

inductive exec ::
  "thread_env \<Rightarrow> queue_mem \<Rightarrow> 'c \<Rightarrow> 'c activity \<Rightarrow> thread_env \<Rightarrow> queue_mem \<Rightarrow> 'c \<Rightarrow> 'c activity \<Rightarrow>
   event \<Rightarrow> bool" where
  create: "malloc_ok w cap alloc buf \<Longrightarrow>
     msg_queue_create env w alloc buf e cap f = Some (h, env', w') \<Longrightarrow>
     exec env w c (Running (Create cap f k)) env' w' c (Running (k h)) Quiet"
| open_queue: "msg_queue_open env w q f = Some (h, env', w') \<Longrightarrow>
     exec env w c (Running (Open q f k)) env' w' c (Running (k h)) Quiet"
| close: "msg_queue_close env w q = Some (r, q', env', w') \<Longrightarrow>
     exec env w c (Running (Close q k)) env' w' c (Running (k r q')) Quiet"
| write_returns: "msg_queue_write ch env w q src len = Some (Returned r, env', w') \<Longrightarrow>
     exec env w c (Running (Write q src len k)) env' w' c (Running (k r)) (write_event src len r)"
| write_sleep: "msg_queue_write ch env w q src len = Some (Sleeping, env', w') \<Longrightarrow>
     exec env w c (Running (Write q src len k)) env' w' c (In_write q src len k) Quiet"
| write_on: "msg_queue_write_resume ch env w q src len = Some (Returned r, env', w') \<Longrightarrow>
     exec env w c (In_write q src len k) env' w' c (Running (k r)) (write_event src len r)"
| write_again: "msg_queue_write_resume ch env w q src len = Some (Sleeping, env', w') \<Longrightarrow>
     exec env w c (In_write q src len k) env' w' c (In_write q src len k) Quiet"
| read_returns: "length out = unat len \<Longrightarrow> msg_queue_read ch env w q out len = Some (Returned r, out', env', w') \<Longrightarrow>
     exec env w c (Running (Read q len k)) env' w' c (Running (k r out')) (read_event out' r)"
| read_sleep: "length out = unat len \<Longrightarrow> msg_queue_read ch env w q out len = Some (Sleeping, out', env', w') \<Longrightarrow>
     exec env w c (Running (Read q len k)) env' w' c (In_read q out' len k) Quiet"
| read_on: "msg_queue_read_resume ch env w q out len = Some (Returned r, out', env', w') \<Longrightarrow>
     exec env w c (In_read q out len k) env' w' c (Running (k r out')) (read_event out' r)"
| read_again: "msg_queue_read_resume ch env w q out len = Some (Sleeping, out', env', w') \<Longrightarrow>
     exec env w c (In_read q out len k) env' w' c (In_read q out' len k) Quiet"
| poll: "msg_queue_poll env w alloc fds = Some (Returned r, fds', env', w') \<Longrightarrow>
     exec env w c (Running (Poll fds k)) env' w' c (Running (k r fds')) Quiet"
| poll_sleeps: "msg_queue_poll env w (Some (es, junk, ev)) fds = Some (Sleeping, fds', env', w') \<Longrightarrow>
     exec env w c (Running (Poll fds k)) env' w' c (In_poll es fds' k) Quiet"
| poll_on: "poll_resume env w es fds = Some (Returned r, fds', env', w') \<Longrightarrow>
     exec env w c (In_poll es fds k) env' w' c (Running (k r fds')) Quiet"
| access: "f c = (c', x) \<Longrightarrow> exec env w c (Running (Access f)) env w c' (Running x) Quiet"
| rand: "0 \<le> r \<Longrightarrow> r \<le> RAND_MAX \<Longrightarrow> exec env w c (Running (Rand k)) env w c (Running (k r)) Quiet"
| clock: "0 \<le> ns \<Longrightarrow> ns < 10 ^ 9 \<Longrightarrow> exec env w c (Running (Clock k)) env w c (Running (k s ns)) Quiet"
| printf: "exec env w c (Running (Printf x)) (env\<lparr>errno := e\<rparr>) w c (Running x) Quiet"
| get_errno: "exec env w c (Running (Get_errno k)) env w c (Running (k (errno env))) Quiet"
| report: "exec env w c (Running (Report l m x)) (report_error l m env) w c (Running x) Quiet"

inductive_cases exec_CreateE: "exec env w c (Running (Create cap f k)) env' w' c' act ev"
inductive_cases exec_OpenE: "exec env w c (Running (Open q f k)) env' w' c' act ev"
inductive_cases exec_CloseE: "exec env w c (Running (Close q k)) env' w' c' act ev"
inductive_cases exec_WriteE: "exec env w c (Running (Write q src len k)) env' w' c' act ev"
inductive_cases exec_ReadE: "exec env w c (Running (Read q len k)) env' w' c' act ev"
inductive_cases exec_PollE: "exec env w c (Running (Poll fds k)) env' w' c' act ev"
inductive_cases exec_In_writeE: "exec env w c (In_write q src len k) env' w' c' act ev"
inductive_cases exec_In_readE: "exec env w c (In_read q out len k) env' w' c' act ev"
inductive_cases exec_In_pollE: "exec env w c (In_poll es fds k) env' w' c' act ev"

inductive_simps exec_simps:
  "exec env w c (Running (Access f)) env' w' c' act ev"
  "exec env w c (Running (Rand k')) env' w' c' act ev"
  "exec env w c (Running (Clock k'')) env' w' c' act ev"
  "exec env w c (Running (Printf x)) env' w' c' act ev"
  "exec env w c (Running (Get_errno k')) env' w' c' act ev"
  "exec env w c (Running (Report l m x)) env' w' c' act ev"
  "exec env w c (Running (Spawn x kk)) env' w' c' act ev"
  "exec env w c (Running (Join t kj)) env' w' c' act ev"
  "exec env w c (Running (Exit v)) env' w' c' act ev"
  "exec env w c (Running Abort) env' w' c' act ev"
  "exec env w c (Running Unfinished) env' w' c' act ev"
  "exec env w c Absent env' w' c' act ev"

text \<open>A call that has a result is a step.\<close>

lemma can_read:
  assumes "length out = unat len" "msg_queue_read ch env w q out len = Some (ret, out', env', w')"
  shows "\<exists>e w' c' act ev. exec env w c (Running (Read q len k)) e w' c' act ev"
  using assms by (cases ret) (blast intro: exec.read_returns exec.read_sleep)+

lemma can_write:
  assumes "msg_queue_write ch env w q src len = Some (ret, env', w')"
  shows "\<exists>e w' c' act ev. exec env w c (Running (Write q src len k)) e w' c' act ev"
  using assms by (cases ret) (blast intro: exec.write_returns exec.write_sleep)+

lemma can_close:
  assumes "msg_queue_close env w q = Some (r, q', env', w')"
  shows "\<exists>e w' c' act ev. exec env w c (Running (Close q k)) e w' c' act ev"
  using assms by (blast intro: exec.close)

lemma can_go_on:
  shows "msg_queue_read_resume ch env w q out len = Some (ret, out', env', w') \<Longrightarrow>
      \<exists>e w' c' act ev. exec env w c (In_read q out len k) e w' c' act ev"
    and "msg_queue_write_resume ch env w q src len = Some (ret, env', w') \<Longrightarrow>
      \<exists>e w' c' act ev. exec env w c (In_write q src len k') e w' c' act ev"
  by (cases ret; blast intro: exec.read_on exec.read_again exec.write_on exec.write_again)+

text \<open>The threads of a process by their ids; the first one, which runs \<open>main\<close>, has the id 1.  The
  messages that the threads have sent and received so far are a record of the run, which no thread
  can see.\<close>

record 'c process =
  memory :: queue_mem
  shared :: 'c
  envs :: "u64 \<Rightarrow> thread_env"
  code :: "u64 \<Rightarrow> 'c activity"
  sent :: "u8 list list"
  received :: "u8 list list"

text \<open>The process runs until \<open>main\<close> returns or a thread aborts.\<close>

definition finished :: "'c process \<Rightarrow> bool" where
  "finished s \<longleftrightarrow> (\<exists>v. code s 1 = Running (Exit v)) \<or> (\<exists>t. code s t = Running Abort)"

text \<open>\<open>pthread_create\<close> starts a thread with a new id or fails with an error number;
  \<open>pthread_join\<close> of a thread of the process returns when it has ended.\<close>

inductive step :: "'c process \<Rightarrow> 'c process \<Rightarrow> bool" where
  call: "\<not> finished s \<Longrightarrow> exec (envs s t) (memory s) (shared s) (code s t) env w c act ev \<Longrightarrow>
     step s (s\<lparr>memory := w, shared := c, envs := (envs s)(t := env), code := (code s)(t := act),
               sent := sent s @ sends ev, received := received s @ receives ev\<rparr>)"
| spawn: "\<not> finished s \<Longrightarrow> code s t = Running (Spawn x k) \<Longrightarrow> code s t' = Absent \<Longrightarrow> t' \<noteq> 0 \<Longrightarrow>
     step s (s\<lparr>envs := (envs s)(t' := fresh_env t'), code := (code s)(t := Running (k 0 t'), t' := Running x)\<rparr>)"
| spawn_fails: "\<not> finished s \<Longrightarrow> code s t = Running (Spawn x k) \<Longrightarrow> e \<noteq> 0 \<Longrightarrow>
     step s (s\<lparr>code := (code s)(t := Running (k e t'))\<rparr>)"
| join: "\<not> finished s \<Longrightarrow> code s t = Running (Join t' k) \<Longrightarrow> code s t' = Running (Exit v) \<Longrightarrow>
     step s (s\<lparr>code := (code s)(t := Running (k 0 v))\<rparr>)"

text \<open>A spurious wakeup of a thread asleep in the queue at the address \<open>a\<close>.\<close>

inductive spurious :: "'c process \<Rightarrow> 'c process \<Rightarrow> bool" where
  wake_reader: "\<not> finished s \<Longrightarrow> backends (memory s) a = Some mq \<Longrightarrow> cond_spurious t (space_empty mq) = Some x \<Longrightarrow>
     spurious s (s\<lparr>memory := (memory s)\<lparr>backends := (backends (memory s))(a \<mapsto> mq\<lparr>space_empty := x\<rparr>)\<rparr>\<rparr>)"
| wake_writer: "\<not> finished s \<Longrightarrow> backends (memory s) a = Some mq \<Longrightarrow> cond_spurious t (space_full mq) = Some x \<Longrightarrow>
     spurious s (s\<lparr>memory := (memory s)\<lparr>backends := (backends (memory s))(a \<mapsto> mq\<lparr>space_full := x\<rparr>)\<rparr>\<rparr>)"

inductive_cases stepE: "step s s'"
inductive_cases spuriousE: "spurious s s'"

text \<open>A process with only one thread.\<close>

lemma only_main_steps:
  assumes "step s s'" "\<And>t. t \<noteq> 1 \<Longrightarrow> code s t = Absent" "\<And>x k. code s 1 \<noteq> Running (Spawn x k)"
  shows "\<exists>env w c act ev. exec (envs s 1) (memory s) (shared s) (code s 1) env w c act ev \<and>
    s' = s\<lparr>memory := w, shared := c, envs := (envs s)(1 := env), code := (code s)(1 := act),
      sent := sent s @ sends ev, received := received s @ receives ev\<rparr>"
proof -
  have one: "t = 1" if "code s t \<noteq> Absent" for t using assms(2) that by blast
  from assms(1) show ?thesis
  proof cases
    case (call t env w c act ev)
    have "t = 1" using call(3) by (intro one) (auto simp: exec_simps)
    with call show ?thesis by blast
  next
    case (spawn t x k t')
    with one [of t] assms(3) show ?thesis by simp
  next
    case (spawn_fails t x k e t')
    with one [of t] assms(3) show ?thesis by simp
  next
    case (join t t' k v)
    with one [of t] one [of t'] show ?thesis by simp
  qed
qed

text \<open>\<open>runs s0 n k s\<close>: \<open>s\<close> is reached from \<open>s0\<close> by \<open>n\<close> steps and \<open>k\<close> spurious wakeups.\<close>

inductive runs :: "'c process \<Rightarrow> nat \<Rightarrow> nat \<Rightarrow> 'c process \<Rightarrow> bool" for s0 where
  refl: "runs s0 0 0 s0"
| step: "runs s0 n k s \<Longrightarrow> step s s' \<Longrightarrow> runs s0 (Suc n) k s'"
| wake: "runs s0 n k s \<Longrightarrow> spurious s s' \<Longrightarrow> runs s0 n (Suc k) s'"

text \<open>A process that starts: one thread, and no queue.\<close>

definition boot :: "'c thread \<Rightarrow> 'c \<Rightarrow> 'c process" where
  "boot x c = \<lparr>memory = \<lparr>backends = Map.empty, mem_entries = Map.empty, mem_nodes = Map.empty\<rparr>,
     shared = c, envs = fresh_env, code = (\<lambda>t. Absent)(1 := Running x),
     sent = [], received = []\<rparr>"

lemma runs_invariant [consumes 1, case_names start step wake]:
  assumes "runs s0 n k s" "I s0" "\<And>s s'. I s \<Longrightarrow> step s s' \<Longrightarrow> I s'" "\<And>s s'. I s \<Longrightarrow> spurious s s' \<Longrightarrow> I s'"
  shows "I s"
  using assms(1)
proof induction
  case refl
  show ?case by (rule assms(2))
next
  case (step n k s s')
  show ?case by (rule assms(3) [OF step.IH step.hyps(2)])
next
  case (wake n k s s')
  show ?case by (rule assms(4) [OF wake.IH wake.hyps(2)])
qed

section \<open>Machine integers\<close>

text \<open>\<open>+\<close> on \<open>int\<close>: overflow is undefined.  An \<open>int\<close> in memory, and a conversion to \<open>int\<close>.\<close>

definition add_int :: "int \<Rightarrow> int \<Rightarrow> int option" where
  "add_int a b = (if - (2 ^ 31) \<le> a + b \<and> a + b < 2 ^ 31 then Some (a + b) else None)"

definition int_bytes :: "int \<Rightarrow> u8 list" where
  "int_bytes v = le_bytes 4 (word_of_int v :: u32)"

definition bytes_int :: "u8 list \<Rightarrow> int" where
  "bytes_int bs = sint (of_le bs :: u32)"

definition to_int :: "int \<Rightarrow> int" where
  "to_int v = sint (word_of_int v :: u32)"

lemma sint_of_int: "- (2 ^ 31) \<le> v \<Longrightarrow> v < 2 ^ 31 \<Longrightarrow> sint (word_of_int v :: u32) = v"
  by (simp add: sint_sbintrunc' signed_take_bit_int_eq_self)

lemma int_bytes_roundtrip: "- (2 ^ 31) \<le> v \<Longrightarrow> v < 2 ^ 31 \<Longrightarrow> bytes_int (int_bytes v) = v"
  by (simp add: bytes_int_def int_bytes_def sint_of_int)

lemma length_int_bytes [simp]: "length (int_bytes v) = 4"
  by (simp add: int_bytes_def)

text \<open>\<open>strtol\<close> in base 10: white space, a sign and digits; values out of range are clamped.\<close>

definition digit :: "char \<Rightarrow> int option" where
  "digit c = (let n = of_char c in if 48 \<le> n \<and> n \<le> (57 :: int) then Some (n - 48) else None)"

fun digits :: "int \<Rightarrow> string \<Rightarrow> int" where
  "digits acc [] = acc"
| "digits acc (c # cs) = (case digit c of None \<Rightarrow> acc | Some d \<Rightarrow> digits (10 * acc + d) cs)"

fun signed_digits :: "string \<Rightarrow> int" where
  "signed_digits [] = 0"
| "signed_digits (c # cs) =
     (if c = CHR ''-'' then - digits 0 cs else if c = CHR ''+'' then digits 0 cs else digits 0 (c # cs))"

definition isspace :: "char \<Rightarrow> bool" where
  "isspace c \<longleftrightarrow> (of_char c :: nat) = 32 \<or> 9 \<le> (of_char c :: nat) \<and> (of_char c :: nat) \<le> 13"

definition strtol :: "string \<Rightarrow> int" where
  "strtol s = max (- (2 ^ 63)) (min (2 ^ 63 - 1) (signed_digits (dropWhile isspace s)))"

definition strtoul :: "string \<Rightarrow> u64" where
  "strtoul s = (let v = signed_digits (dropWhile isspace s)
                in if \<bar>v\<bar> < 2 ^ 64 then word_of_int v else - 1)"

lemma strtol_digits: "strtol ''100'' = 100" "strtoul ''13'' = 13"
  by (simp_all add: strtol_def strtoul_def digit_def isspace_def)

end
