(* ===== verification/Thread_Calls.thy ===== *)
theory Thread_Calls
  imports Threads
begin

text \<open>
  What the queue calls of a thread do to the shared memory, for a queue with blocking handles
  and no pollers: the messages, the counts and the threads asleep in the queue afterwards.
\<close>

section \<open>A queue in memory\<close>

definition queue_at :: "queue_mem \<Rightarrow> u64 \<Rightarrow> mq_backend \<Rightarrow> u8 list list \<Rightarrow> bool" where
  "queue_at w a mq ms \<longleftrightarrow> backends w a = Some mq \<and>
     mq_ready \<lparr>q_env = fresh_env 1, q_mq = mq, q_heap = mem_entries w, q_nodes = mem_nodes w\<rparr> [] ms"

definition in_memory :: "thread_env \<Rightarrow> queue_mem \<Rightarrow> mq_backend \<Rightarrow> queue_state" where
  "in_memory env w mq = \<lparr>q_env = env, q_mq = mq, q_heap = mem_entries w, q_nodes = mem_nodes w\<rparr>"

lemma in_memory_fields [simp]:
  "q_env (in_memory env w mq) = env" "q_mq (in_memory env w mq) = mq"
  by (simp_all add: in_memory_def)

lemma ready_env:
  assumes "mq_ready s [] ms" "q_mq s' = q_mq s" "q_heap s' = q_heap s" "self (q_env s') \<noteq> 0"
  shows "mq_ready s' [] ms"
  using assms by (simp add: mq_ready_def mq_holds_def has_tid_def list_rep_def q_list_def
      pollers_ready_def unlocked_def)

lemma queue_at_load:
  assumes "queue_at w a mq ms" "self env \<noteq> 0"
  shows "load_queue env w a = Some (in_memory env w mq)" "mq_ready (in_memory env w mq) [] ms"
proof -
  show "load_queue env w a = Some (in_memory env w mq)"
    using assms(1) by (simp add: queue_at_def load_queue_def in_memory_def)
  show "mq_ready (in_memory env w mq) [] ms"
    using assms by (auto simp: queue_at_def in_memory_def elim: ready_env)
qed

lemma queue_at_store:
  assumes "mq_ready s [] ms"
  shows "queue_at (store_queue w a s) a (q_mq s) ms"
  using assms by (auto simp: queue_at_def store_queue_def fresh_env_def elim: ready_env)

lemma ready_cond:
  assumes "mq_ready s [] ms"
  shows "mq_ready (s\<lparr>q_mq := (q_mq s)\<lparr>space_full := c\<rparr>\<rparr>) [] ms" "mq_ready (s\<lparr>q_mq := (q_mq s)\<lparr>space_empty := c\<rparr>\<rparr>) [] ms"
  using assms by (simp_all add: mq_ready_def mq_holds_def q_list_def pollers_ready_def unlocked_def)

text \<open>What reading, writing and sleeping leave alone.\<close>

definition same_handles :: "mq_backend \<Rightarrow> mq_backend \<Rightarrow> bool" where
  "same_handles mq mq' \<longleftrightarrow> refs mq' = refs mq \<and> readers mq' = readers mq \<and> writers mq' = writers mq \<and>
     no_readers mq' = no_readers mq \<and> no_writers mq' = no_writers mq \<and>
     rb_capacity (mq_buffer mq') = rb_capacity (mq_buffer mq)"

lemma same_handles_counts: "same_handles mq mq' \<Longrightarrow> counts mq' fs = counts mq fs"
  by (simp add: same_handles_def counts_def)

lemma same_handles_trans: "same_handles mq mq1 \<Longrightarrow> same_handles mq1 mq' = same_handles mq mq'"
  and same_handles_cap: "same_handles mq mq1 \<Longrightarrow> rb_capacity (mq_buffer mq1) = rb_capacity (mq_buffer mq)"
  by (auto simp: same_handles_def)

section \<open>Writing\<close>

text \<open>A write either puts its message into the queue and signals a reader, or sleeps.  \<open>f0\<close> are
  the threads on \<open>space_full\<close> when it starts to look for space.\<close>

definition write_effect ::
  "queue_mem \<Rightarrow> u64 \<Rightarrow> mq_backend \<Rightarrow> u8 list list \<Rightarrow> u64 \<Rightarrow> u8 list \<Rightarrow> cond_t \<Rightarrow> int outcome \<Rightarrow> queue_mem \<Rightarrow> bool" where
  "write_effect w a mq ms t m f0 r w' \<longleftrightarrow> (\<exists>mq'. same_handles mq mq' \<and>
     (if length (messages_bytes ms) + length m + 8 \<le> rb_capacity (mq_buffer mq)
      then r = Returned 0 \<and> queue_at w' a mq' (ms @ [m]) \<and> space_full mq' = f0 \<and>
           (\<exists>pick. space_empty mq' = snd (pthread_cond_signal pick (space_empty mq)))
      else r = Sleeping \<and> queue_at w' a mq' ms \<and> space_empty mq' = space_empty mq \<and>
           space_full mq' = f0\<lparr>waiting := waiting f0 @ [t]\<rparr>))"

lemma write_loop_effect:
  assumes r: "mq_ready s [] ms" and f: "f AND MSG_QUEUE_NONBLOCK = 0"
    and len: "len \<noteq> 0" "unat len \<le> length src" "unat len < 2 ^ 63"
  shows "\<exists>r s'. write_loop ch f (with_lock s) src len = Some (r, s') \<and> q_env s' = q_env s \<and>
    write_effect w a (q_mq s) ms (self (q_env s)) (take (unat len) src) (space_full (q_mq s)) r (store_queue w a s')"
proof -
  have b: "length (messages_bytes ms) \<le> rb_capacity (mq_buffer (q_mq s))"
    using r mq_holds_bounds [of s "[]" ms] by (simp add: mq_ready_def)
  have room: "unat len + 8 \<le> free_bytes s ms \<longleftrightarrow>
      length (messages_bytes ms) + length (take (unat len) src) + 8 \<le> rb_capacity (mq_buffer (q_mq s))"
    using b len(2) by (auto simp: free_bytes_def min_def)
  note spec = write_loop_ready [OF r len, of ch f]
  show ?thesis
  proof (cases "unat len + 8 \<le> free_bytes s ms")
    case True
    with spec f obtain rb where rb: "write_loop ch f (with_lock s) src len =
          Some (Returned 0, after_write ch [] rb (unat len + 8 = free_bytes s ms) s)"
        "rb_holds rb (messages_bytes (ms @ [take (unat len) src]))"
        "rb_capacity rb = rb_capacity (mq_buffer (q_mq s))" "valid_message (take (unat len) src)"
      by auto
    let ?s' = "after_write ch [] rb (unat len + 8 = free_bytes s ms) s"
    have "queue_at (store_queue w a ?s') a (q_mq ?s') (ms @ [take (unat len) src])"
      by (rule queue_at_store [OF after_write_ready(1) [OF r rb(2,4)]])
    moreover have "same_handles (q_mq s) (q_mq ?s')" "space_full (q_mq ?s') = space_full (q_mq s)"
      "space_empty (q_mq ?s') = snd (pthread_cond_signal (ch_pick ch) (space_empty (q_mq s)))"
      using rb(3) by (simp_all add: same_handles_def after_write_def Let_def)
    ultimately have "write_effect w a (q_mq s) ms (self (q_env s)) (take (unat len) src) (space_full (q_mq s))
        (Returned 0) (store_queue w a ?s')"
      using True room unfolding write_effect_def by (intro exI [of _ "q_mq ?s'"]) auto
    with rb(1) show ?thesis by simp
  next
    case False
    let ?s' = "asleep_writing s"
    have "queue_at (store_queue w a ?s') a (q_mq ?s') ms" by (rule queue_at_store [OF after_ready(4) [OF r]])
    moreover have "same_handles (q_mq s) (q_mq ?s')" "space_empty (q_mq ?s') = space_empty (q_mq s)"
      "space_full (q_mq ?s') = (space_full (q_mq s))\<lparr>waiting := waiting (space_full (q_mq s)) @ [self (q_env s)]\<rparr>"
      by (simp_all add: same_handles_def asleep_writing_def Let_def)
    ultimately have "write_effect w a (q_mq s) ms (self (q_env s)) (take (unat len) src) (space_full (q_mq s))
        Sleeping (store_queue w a ?s')"
      using False room unfolding write_effect_def by (intro exI [of _ "q_mq ?s'"]) auto
    with spec False show ?thesis by simp
  qed
qed

lemma msg_queue_write_effect:
  assumes q: "queue_at w a mq ms" and env: "self env \<noteq> 0" and h: "get_backend h = Some a" "get_flags h = MSG_QUEUE_WRITER"
    and nr: "\<not> no_readers mq" and len: "len \<noteq> 0" "unat len \<le> length src" "unat len + 8 < rb_capacity (mq_buffer mq)"
      "unat len < 2 ^ 63"
  shows "\<exists>r w'. msg_queue_write ch env w h src len = Some (r, env, w') \<and>
    write_effect w a mq ms (self env) (take (unat len) src) (space_full mq) r w'"
proof -
  note l = queue_at_load [OF q env]
  obtain r s' where "write_loop ch MSG_QUEUE_WRITER (with_lock (in_memory env w mq)) src len = Some (r, s')" "q_env s' = env"
    "write_effect w a mq ms (self env) (take (unat len) src) (space_full mq) r (store_queue w a s')"
    using write_loop_effect [OF l(2) _ len(1,2,4), of MSG_QUEUE_WRITER ch w a] by auto
  moreover have "mq_write ch MSG_QUEUE_WRITER (in_memory env w mq) src len =
      write_loop ch MSG_QUEUE_WRITER (with_lock (in_memory env w mq)) src len"
    using mq_write_loop [OF l(2) _ len(4), of ch MSG_QUEUE_WRITER src] nr len(3) by simp
  ultimately show ?thesis using l(1) h len(1) by (simp add: msg_queue_write_def)
qed

lemma msg_queue_write_resume_effect:
  assumes q: "queue_at w a mq ms" and env: "self env \<noteq> 0" and h: "get_backend h = Some a" "get_flags h = MSG_QUEUE_WRITER"
    and w: "self env \<in> set (woken (space_full mq))"
    and len: "len \<noteq> 0" "unat len \<le> length src" "unat len < 2 ^ 63"
  shows "\<exists>r w'. msg_queue_write_resume ch env w h src len = Some (r, env, w') \<and>
    write_effect w a mq ms (self env) (take (unat len) src)
      ((space_full mq)\<lparr>woken := remove1 (self env) (woken (space_full mq))\<rparr>) r w'"
proof -
  note l = queue_at_load [OF q env]
  let ?s = "woken_writer (in_memory env w mq)"
  have r: "mq_ready ?s [] ms" using l(2) by simp
  have s: "q_env ?s = env" "same_handles mq (q_mq ?s)" "space_empty (q_mq ?s) = space_empty mq"
    "space_full (q_mq ?s) = (space_full mq)\<lparr>woken := remove1 (self env) (woken (space_full mq))\<rparr>"
    by (simp_all add: woken_writer_def same_handles_def)
  obtain r s' where *: "write_loop ch MSG_QUEUE_WRITER (with_lock ?s) src len = Some (r, s')" "q_env s' = env"
    "write_effect w a (q_mq ?s) ms (self env) (take (unat len) src) (space_full (q_mq ?s)) r (store_queue w a s')"
    using write_loop_effect [OF r _ len, of MSG_QUEUE_WRITER ch w a] s(1) by auto
  have "write_effect w a mq ms (self env) (take (unat len) src) (space_full (q_mq ?s)) r (store_queue w a s')"
    using *(3) unfolding write_effect_def same_handles_trans [OF s(2)] same_handles_cap [OF s(2)] s(3) .
  moreover have "write_resume ch MSG_QUEUE_WRITER (in_memory env w mq) src len = Some (r, s')"
    using write_resume_loop [OF l(2), of ch MSG_QUEUE_WRITER src len] w *(1) by simp
  ultimately show ?thesis using l(1) h *(2) s(4) by (simp add: msg_queue_write_resume_def)
qed

section \<open>Reading\<close>

text \<open>A read of a queue with an open writer: the first message, or sleep.\<close>

definition read_effect ::
  "queue_mem \<Rightarrow> u64 \<Rightarrow> mq_backend \<Rightarrow> u8 list list \<Rightarrow> u64 \<Rightarrow> u8 list \<Rightarrow> cond_t \<Rightarrow> int outcome \<Rightarrow> u8 list \<Rightarrow> queue_mem \<Rightarrow> bool" where
  "read_effect w a mq ms t out e0 r out' w' \<longleftrightarrow> (\<exists>mq'. same_handles mq mq' \<and>
     (case ms of
        m # ms' \<Rightarrow> r = Returned (int (length m)) \<and> out' = m @ drop (length m) out \<and> queue_at w' a mq' ms' \<and>
                  space_empty mq' = e0 \<and> (\<exists>pick. space_full mq' = snd (pthread_cond_signal pick (space_full mq)))
      | [] \<Rightarrow> r = Sleeping \<and> out' = out \<and> queue_at w' a mq' [] \<and> space_full mq' = space_full mq \<and>
             space_empty mq' = e0\<lparr>waiting := waiting e0 @ [t]\<rparr>))"

lemma read_loop_effect:
  assumes r: "mq_ready s [] ms" and f: "f AND MSG_QUEUE_NONBLOCK = 0"
    and wr: "ms = [] \<Longrightarrow> \<not> no_writers (q_mq s)"
    and len: "\<And>m. m \<in> set ms \<Longrightarrow> length m \<le> unat len" "unat len \<le> length out"
  shows "\<exists>r out' s'. read_loop ch f (with_lock s) out len = Some (r, out', s') \<and> q_env s' = q_env s \<and>
    read_effect w a (q_mq s) ms (self (q_env s)) out (space_empty (q_mq s)) r out' (store_queue w a s')"
proof (cases ms)
  case Nil
  let ?s' = "asleep_reading s"
  have "mq_holds (with_lock s) [] []" "pollers_ready (with_lock s) []" using r Nil by (simp_all add: mq_ready_def)
  then have call: "read_loop ch f (with_lock s) out len = Some (Sleeping, out, ?s')"
    using read_loop_empty [of "with_lock s" "[]" ch f out len] f wr Nil by simp
  have "queue_at (store_queue w a ?s') a (q_mq ?s') []" by (rule queue_at_store [OF after_ready(3) [OF r [unfolded Nil]]])
  moreover have "same_handles (q_mq s) (q_mq ?s')" "space_full (q_mq ?s') = space_full (q_mq s)"
    "space_empty (q_mq ?s') = (space_empty (q_mq s))\<lparr>waiting := waiting (space_empty (q_mq s)) @ [self (q_env s)]\<rparr>"
    by (simp_all add: same_handles_def asleep_reading_def Let_def)
  ultimately have "read_effect w a (q_mq s) ms (self (q_env s)) out (space_empty (q_mq s)) Sleeping out (store_queue w a ?s')"
    unfolding read_effect_def Nil by (intro exI [of _ "q_mq ?s'"]) simp
  with call show ?thesis by simp
next
  case (Cons x xs)
  have h: "mq_holds (with_lock s) [] (x # xs)" "pollers_ready (with_lock s) []"
    using r Cons by (simp_all add: mq_ready_def)
  have fits: "length x \<le> unat len" using len(1) Cons by simp
  obtain rb where rb: "read_loop ch f (with_lock s) out len =
       Some (Returned (int (length x)), x @ drop (length x) out, after_read ch [] rb (xs \<noteq> []) s)"
      "rb_holds rb (messages_bytes xs)" "rb_capacity rb = rb_capacity (mq_buffer (q_mq s))"
    using read_loop_message [OF h _ fits, of out ch f] fits len(2) by auto
  let ?s' = "after_read ch [] rb (xs \<noteq> []) s"
  have "queue_at (store_queue w a ?s') a (q_mq ?s') xs"
    by (rule queue_at_store [OF after_read_ready [OF r [unfolded Cons] rb(2)]])
  moreover have "same_handles (q_mq s) (q_mq ?s')" "space_empty (q_mq ?s') = space_empty (q_mq s)"
    "space_full (q_mq ?s') = snd (pthread_cond_signal (ch_pick ch) (space_full (q_mq s)))"
    using rb(3) by (simp_all add: same_handles_def after_read_def Let_def)
  ultimately have "read_effect w a (q_mq s) ms (self (q_env s)) out (space_empty (q_mq s))
      (Returned (int (length x))) (x @ drop (length x) out) (store_queue w a ?s')"
    unfolding read_effect_def Cons by (intro exI [of _ "q_mq ?s'"]) auto
  with rb(1) show ?thesis by simp
qed

lemma msg_queue_read_effect:
  assumes q: "queue_at w a mq ms" and env: "self env \<noteq> 0" and h: "get_backend h = Some a" "get_flags h = MSG_QUEUE_READER"
    and wr: "ms = [] \<Longrightarrow> \<not> no_writers mq" and len: "\<And>m. m \<in> set ms \<Longrightarrow> length m \<le> unat len" "unat len \<le> length out"
  shows "\<exists>r out' w'. msg_queue_read ch env w h out len = Some (r, out', env, w') \<and>
    read_effect w a mq ms (self env) out (space_empty mq) r out' w'"
proof -
  note l = queue_at_load [OF q env]
  have wr': "ms \<noteq> [] \<or> \<not> no_writers (q_mq (in_memory env w mq))" using wr by auto
  obtain r out' s' where "read_loop ch MSG_QUEUE_READER (with_lock (in_memory env w mq)) out len = Some (r, out', s')" "q_env s' = env"
    "read_effect w a mq ms (self env) out (space_empty mq) r out' (store_queue w a s')"
    using read_loop_effect [OF l(2) _ _ len, of MSG_QUEUE_READER ch w a] wr by auto
  then show ?thesis
    using l(1) h mq_read_loop [OF l(2) wr', of ch MSG_QUEUE_READER out len] by (simp add: msg_queue_read_def)
qed

lemma msg_queue_read_resume_effect:
  assumes q: "queue_at w a mq ms" and env: "self env \<noteq> 0" and h: "get_backend h = Some a" "get_flags h = MSG_QUEUE_READER"
    and wr: "ms = [] \<Longrightarrow> \<not> no_writers mq" and len: "\<And>m. m \<in> set ms \<Longrightarrow> length m \<le> unat len" "unat len \<le> length out"
    and w: "self env \<in> set (woken (space_empty mq))"
  shows "\<exists>r out' w'. msg_queue_read_resume ch env w h out len = Some (r, out', env, w') \<and>
    read_effect w a mq ms (self env) out ((space_empty mq)\<lparr>woken := remove1 (self env) (woken (space_empty mq))\<rparr>) r out' w'"
proof -
  note l = queue_at_load [OF q env]
  let ?s = "woken_reader (in_memory env w mq)"
  have r: "mq_ready ?s [] ms" using l(2) by simp
  have s: "q_env ?s = env" "same_handles mq (q_mq ?s)" "space_full (q_mq ?s) = space_full mq" "no_writers (q_mq ?s) = no_writers mq"
    "space_empty (q_mq ?s) = (space_empty mq)\<lparr>woken := remove1 (self env) (woken (space_empty mq))\<rparr>"
    by (simp_all add: woken_reader_def same_handles_def)
  obtain r out' s' where *: "read_loop ch MSG_QUEUE_READER (with_lock ?s) out len = Some (r, out', s')" "q_env s' = env"
    "read_effect w a (q_mq ?s) ms (self env) out (space_empty (q_mq ?s)) r out' (store_queue w a s')"
    using read_loop_effect [OF r _ _ len, of MSG_QUEUE_READER ch w a] s(1,4) wr by auto
  have "read_effect w a mq ms (self env) out (space_empty (q_mq ?s)) r out' (store_queue w a s')"
    using *(3) unfolding read_effect_def same_handles_trans [OF s(2)] s(3) .
  moreover have "read_resume ch MSG_QUEUE_READER (in_memory env w mq) out len = Some (r, out', s')"
    using read_resume_loop [OF l(2), of ch MSG_QUEUE_READER out len] w *(1) by simp
  ultimately show ?thesis using l(1) h *(2) s(5) by (simp add: msg_queue_read_resume_def)
qed

section \<open>Opening and closing\<close>

lemma msg_queue_close_effect:
  assumes q: "queue_at w a mq ms" and env: "self env \<noteq> 0" and h: "get_backend h = Some a" "h \<noteq> 0"
    and fs: "counts mq fs" "get_flags h \<in> set fs" "fs \<noteq> [get_flags h]"
  shows "\<exists>w' mq'. msg_queue_close env w (Some h) = Some (0, Some MSG_QUEUE_NULL, env, w') \<and>
    queue_at w' a mq' ms \<and> counts mq' (remove1 (get_flags h) fs) \<and>
    no_readers mq' = (no_readers mq \<or> reads (get_flags h) \<and> filter reads (remove1 (get_flags h) fs) = []) \<and>
    no_writers mq' = (no_writers mq \<or> writes (get_flags h) \<and> filter writes (remove1 (get_flags h) fs) = []) \<and>
    space_full mq' = (if no_readers mq' then snd (pthread_cond_broadcast (space_full mq)) else space_full mq) \<and>
    space_empty mq' = (if no_writers mq' then snd (pthread_cond_broadcast (space_empty mq)) else space_empty mq)"
proof -
  note l = queue_at_load [OF q env]
  have c: "counts (q_mq (in_memory env w mq)) fs" using fs(1) by simp
  obtain mq' where mq': "msg_queue_close env w (Some h) =
        Some (0, Some MSG_QUEUE_NULL, env, store_queue w a ((in_memory env w mq)\<lparr>q_mq := mq'\<rparr>))"
      "mq_ready ((in_memory env w mq)\<lparr>q_mq := mq'\<rparr>) [] ms" "counts mq' (remove1 (get_flags h) fs)"
    "no_readers mq' = (no_readers mq \<or> reads (get_flags h) \<and> filter reads (remove1 (get_flags h) fs) = [])"
    "no_writers mq' = (no_writers mq \<or> writes (get_flags h) \<and> filter writes (remove1 (get_flags h) fs) = [])"
    "space_full mq' = (if no_readers mq' then snd (pthread_cond_broadcast (space_full mq)) else space_full mq)"
    "space_empty mq' = (if no_writers mq' then snd (pthread_cond_broadcast (space_empty mq)) else space_empty mq)"
    using queue_close_effect [OF h l c fs(2,3)] unfolding in_memory_fields by blast
  have "queue_at (store_queue w a ((in_memory env w mq)\<lparr>q_mq := mq'\<rparr>)) a mq' ms"
    using queue_at_store [OF mq'(2), of w a] by simp
  with mq' show ?thesis by blast
qed

lemma msg_queue_close_last_effect:
  assumes q: "queue_at w a mq ms" and env: "self env \<noteq> 0" and h: "get_backend h = Some a" "h \<noteq> 0"
    and fs: "counts mq [get_flags h]" and none: "waiting (space_full mq) = []" "waiting (space_empty mq) = []"
  shows "\<exists>w'. msg_queue_close env w (Some h) = Some (0, Some MSG_QUEUE_NULL, env, w')"
  using queue_close_last_effect [OF h queue_at_load [OF q env]] fs none by auto

lemma msg_queue_open_effect:
  assumes q: "queue_at w a mq ms" and env: "self env \<noteq> 0" and h: "get_backend h = Some a" "h \<noteq> 0"
    and a: "a AND 7 = 0" "a \<noteq> 0" and fs: "counts mq fs" "length fs < 2 ^ 64 - 1" and f: "f AND NOT ALL_FLAGS = 0"
  shows "\<exists>h' w' mq'. msg_queue_open env w h f = Some (h', env, w') \<and> queue_at w' a mq' ms \<and>
    get_backend h' = Some a \<and> get_flags h' = f \<and> counts mq' (f # fs) \<and> mq_buffer mq' = mq_buffer mq \<and>
    space_full mq' = space_full mq \<and> space_empty mq' = space_empty mq \<and>
    no_readers mq' = (no_readers mq \<and> \<not> reads f) \<and> no_writers mq' = (no_writers mq \<and> \<not> writes f)"
proof -
  note l = queue_at_load [OF q env]
  have c: "counts (q_mq (in_memory env w mq)) fs" using fs(1) by simp
  obtain h' mq' where o: "msg_queue_open env w h f = Some (h', env, store_queue w a ((in_memory env w mq)\<lparr>q_mq := mq'\<rparr>))"
    "get_backend h' = Some a" "get_flags h' = f" "counts mq' (f # fs)"
    "mq_ready ((in_memory env w mq)\<lparr>q_mq := mq'\<rparr>) [] ms" "same_queue mq mq'"
    "no_readers mq' = (no_readers mq \<and> \<not> reads f)" "no_writers mq' = (no_writers mq \<and> \<not> writes f)"
    using queue_open_effect [OF h l(1) a f fs(2) l(2) c] unfolding in_memory_fields by blast
  have "queue_at (store_queue w a ((in_memory env w mq)\<lparr>q_mq := mq'\<rparr>)) a mq' ms"
    using queue_at_store [OF o(5), of w a] by simp
  with o same_queue_fields [OF o(6)] show ?thesis by blast
qed

text \<open>Creating a queue gives the null handle when an allocation fails, and else a new queue.\<close>

lemma msg_queue_create_cases:
  assumes m: "malloc_ok w cap alloc buf" and env: "self env \<noteq> 0" and cap: "9 \<le> cap" "cap < 2 ^ 63"
    and f: "f AND NOT ALL_FLAGS = 0"
    and call: "msg_queue_create env w alloc buf e cap f = Some (h, env', w')"
  shows "h = 0 \<or> (\<exists>a mq. env' = env \<and> queue_at w' a mq [] \<and> a \<noteq> 0 \<and> a AND 7 = 0 \<and> get_backend h = Some a \<and>
     get_flags h = f \<and> counts mq [f] \<and> rb_capacity (mq_buffer mq) = unat cap \<and> \<not> no_readers mq \<and> \<not> no_writers mq \<and>
     space_full mq = \<lparr>waiting = [], woken = []\<rparr> \<and> space_empty mq = \<lparr>waiting = [], woken = []\<rparr>)"
    and "self env' = self env"
proof -
  have small: "\<not> capacity < 9" if "9 \<le> capacity" for capacity :: u64 using that by simp
  have "(h = 0 \<or> (\<exists>a mq. env' = env \<and> queue_at w' a mq [] \<and> a \<noteq> 0 \<and> a AND 7 = 0 \<and> get_backend h = Some a \<and>
     get_flags h = f \<and> counts mq [f] \<and> rb_capacity (mq_buffer mq) = unat cap \<and> \<not> no_readers mq \<and> \<not> no_writers mq \<and>
     space_full mq = \<lparr>waiting = [], woken = []\<rparr> \<and> space_empty mq = \<lparr>waiting = [], woken = []\<rparr>)) \<and> self env' = self env"
  proof (cases "alloc = None \<or> buf = None")
    case True
    have [simp]: "x AND scast ALL_FLAGS = x AND 7" for x :: u64 by (simp only: scast_flags(2))
    from True show ?thesis
      using call f small [OF cap(1)] m
      by (cases alloc) (auto simp: msg_queue_create_def mq_init_def ring_buffer_init_def malloc_ok_def Let_def)
  next
    case False
    then obtain a junk en mem where a: "alloc = Some (a, junk, en)" "buf = Some mem" by (cases alloc; cases buf) auto
    have m': "length mem = unat cap" "a AND 7 = 0" "a \<noteq> 0" "mq_list_head junk \<noteq> 0"
      using m by (simp_all add: a malloc_ok_def)
    have "has_tid env" using env by (simp add: has_tid_def)
    from queue_create_effect [OF f cap m' this, of w en e] obtain s where
      s: "msg_queue_create env w alloc buf e cap f = Some (h, env, store_queue w a s)" "env' = env" "w' = store_queue w a s"
        "get_backend h = Some a" "get_flags h = f" "mq_ready s [] []" "counts (q_mq s) [f]"
        "rb_capacity (mq_buffer (q_mq s)) = unat cap" "\<not> no_readers (q_mq s)" "\<not> no_writers (q_mq s)"
        "space_full (q_mq s) = \<lparr>waiting = [], woken = []\<rparr>" "space_empty (q_mq s) = \<lparr>waiting = [], woken = []\<rparr>"
      using call by (auto simp: a)
    then show ?thesis using queue_at_store [OF s(6), of w a] m' by (auto intro!: exI [of _ a] exI [of _ "q_mq s"])
  qed
  then show "h = 0 \<or> (\<exists>a mq. env' = env \<and> queue_at w' a mq [] \<and> a \<noteq> 0 \<and> a AND 7 = 0 \<and> get_backend h = Some a \<and>
     get_flags h = f \<and> counts mq [f] \<and> rb_capacity (mq_buffer mq) = unat cap \<and> \<not> no_readers mq \<and> \<not> no_writers mq \<and>
     space_full mq = \<lparr>waiting = [], woken = []\<rparr> \<and> space_empty mq = \<lparr>waiting = [], woken = []\<rparr>)"
    "self env' = self env" by blast+
qed

end
