(* ===== verification/Prodcon.thy ===== *)
theory Prodcon
  imports Thread_Calls
begin

text \<open>
  The program \<open>prodcon.c\<close>: a producer sends a count and then that many numbers through a queue
  to the main thread, and both add them up.  The two threads are given as trees of calls; the
  correctness of the program follows from an invariant that couples their positions, the
  messages in the queue and the threads asleep in it.
\<close>

section \<open>The program\<close>

record producer_context =
  pc_queue :: u64
  pc_numberCount :: int
  pc_sum :: int

text \<open>The loop of \<open>producer\<close> from \<open>i\<close> on; \<open>rest\<close> is what follows it.\<close>

function producer_numbers ::
  "u64 \<Rightarrow> int \<Rightarrow> int \<Rightarrow> int \<Rightarrow> (int \<Rightarrow> producer_context thread) \<Rightarrow> producer_context thread" where
  "producer_numbers queue count i acc rest =
     (if i < count then
        Rand (\<lambda>r.
          let number = r mod 64;
              add = (case add_int acc number of
                       None \<Rightarrow> Abort
                     | Some acc' \<Rightarrow> producer_numbers queue count (i + 1) acc' rest)
          in Write queue (int_bytes number) 4 (\<lambda>ret. Printf (
               if ret \<noteq> 0
               then Get_errno (\<lambda>e. if e = EPIPE then rest acc
                                   else Report ''prodcon.c:80'' ''producer: write failed'' add)
               else add)))
      else rest acc)"
  by pat_completeness auto
termination by (relation "measure (\<lambda>(queue, count, i, acc, rest). nat (count - i))") auto

declare producer_numbers.simps [simp del]

definition producer_end :: "u64 \<Rightarrow> int \<Rightarrow> producer_context thread" where
  "producer_end queue acc =
     Access (\<lambda>context. (context\<lparr>pc_sum := acc\<rparr>,
       Close (Some queue) (\<lambda>ret queue'. if ret \<noteq> 0 then Abort else Exit 0)))"

definition producer :: "producer_context thread" where
  "producer = Access (\<lambda>context. (context,
     let queue = pc_queue context; count = pc_numberCount context
     in Write queue (int_bytes count) 4 (\<lambda>ret.
          if ret \<noteq> 0 then Abort
          else producer_numbers queue count 0 0 (producer_end queue))))"

text \<open>The loop of \<open>main\<close> that reads the numbers.\<close>

function main_numbers ::
  "u64 \<Rightarrow> int \<Rightarrow> int \<Rightarrow> int \<Rightarrow> (int \<Rightarrow> producer_context thread) \<Rightarrow> producer_context thread" where
  "main_numbers queue count i acc rest =
     (if i < count then
        Read queue 4 (\<lambda>result value.
          if result = 0 then rest acc
          else if result < 0 then Report ''prodcon.c:159'' ''main: read number error'' (Exit 1)
          else (case add_int acc (bytes_int value) of
                  None \<Rightarrow> Abort
                | Some acc' \<Rightarrow> main_numbers queue count (i + 1) acc' rest))
      else rest acc)"
  by pat_completeness auto
termination by (relation "measure (\<lambda>(queue, count, i, acc, rest). nat (count - i))") auto

declare main_numbers.simps [simp del]

definition main_check :: "int \<Rightarrow> producer_context thread" where
  "main_check acc = Access (\<lambda>context. (context, if pc_sum context \<noteq> acc then Abort else Exit 0))"

definition main_end :: "u64 \<Rightarrow> u64 \<Rightarrow> int \<Rightarrow> producer_context thread" where
  "main_end queue thread acc =
     Close (Some queue) (\<lambda>ret queue'.
       if ret \<noteq> 0 then Abort
       else Join thread (\<lambda>ret value. if ret \<noteq> 0 then Exit 1 else main_check acc))"

definition main_consumer :: "u64 \<Rightarrow> int \<Rightarrow> u64 \<Rightarrow> producer_context thread" where
  "main_consumer queue numberCount thread =
     Read queue 4 (\<lambda>len value.
       if len \<noteq> 4 then Abort
       else let count = bytes_int value
            in if count \<noteq> numberCount then Abort
               else main_numbers queue count 0 0 (main_end queue thread))"

text \<open>\<open>queueCapacity\<close> is an \<open>int\<close> that becomes a \<open>size_t\<close>.\<close>

definition prodcon_main :: "string list \<Rightarrow> producer_context thread" where
  "prodcon_main argv =
     (if length argv \<ge> 3 then
        (let queueCapacity = to_int (strtol (argv ! 1)); numberCount = to_int (strtol (argv ! 2))
         in Create (word_of_int queueCapacity) MSG_QUEUE_READER (\<lambda>queue.
              if queue = 0 then Exit 1
              else Open queue MSG_QUEUE_WRITER (\<lambda>writer.
                Access (\<lambda>context. (context\<lparr>pc_queue := writer, pc_numberCount := numberCount\<rparr>,
                  Spawn producer (\<lambda>ret thread.
                    if ret \<noteq> 0 then Exit 1 else main_consumer queue numberCount thread))))))
      else Exit 1)"

section \<open>Positions of the two threads\<close>

text \<open>The code of \<open>main\<close> when it has read \<open>r\<close> messages with the sum \<open>tot\<close>, and of the producer
  when it has sent \<open>i\<close> messages: the count is the first one.\<close>

definition consumer_at :: "u64 \<Rightarrow> int \<Rightarrow> u64 \<Rightarrow> nat \<Rightarrow> int \<Rightarrow> producer_context thread" where
  "consumer_at q n t r tot =
     (case r of 0 \<Rightarrow> main_consumer q n t | Suc i \<Rightarrow> main_numbers q n (int i) tot (main_end q t))"

definition read_then :: "u64 \<Rightarrow> int \<Rightarrow> u64 \<Rightarrow> nat \<Rightarrow> int \<Rightarrow> int \<Rightarrow> u8 list \<Rightarrow> producer_context thread" where
  "read_then q n t r tot = (case consumer_at q n t r tot of Read q' len k \<Rightarrow> k | _ \<Rightarrow> (\<lambda>result value. Abort))"

definition producer_at :: "u64 \<Rightarrow> int \<Rightarrow> nat \<Rightarrow> int \<Rightarrow> producer_context thread" where
  "producer_at q n i tot = producer_numbers q n (int i - 1) tot (producer_end q)"

definition write_then :: "u64 \<Rightarrow> int \<Rightarrow> nat \<Rightarrow> int \<Rightarrow> int \<Rightarrow> int \<Rightarrow> producer_context thread" where
  "write_then q n i tot v =
     (if i = 0 then (\<lambda>ret. if ret \<noteq> 0 then Abort else producer_numbers q n 0 0 (producer_end q))
      else (\<lambda>ret. let add = (case add_int tot v of None \<Rightarrow> Abort | Some tot' \<Rightarrow> producer_at q n (Suc i) tot')
             in Printf (if ret \<noteq> 0
               then Get_errno (\<lambda>e. if e = EPIPE then producer_end q tot
                                   else Report ''prodcon.c:80'' ''producer: write failed'' add)
               else add)))"

lemma consumer_reads:
  assumes "r \<le> nat n"
  shows "consumer_at q n t r tot = Read q 4 (read_then q n t r tot)"
proof (cases r)
  case 0
  then show ?thesis by (simp add: read_then_def consumer_at_def main_consumer_def)
next
  case (Suc i)
  with assms have "int i < n" by linarith
  then show ?thesis by (simp add: Suc read_then_def consumer_at_def main_numbers.simps [of q n "int i"])
qed

lemma consumer_ends: "consumer_at q n t (Suc (nat n)) tot = main_end q t tot"
  unfolding consumer_at_def by (subst nat.case, subst main_numbers.simps) simp

lemma read_then_count:
  "- (2 ^ 31) \<le> n \<Longrightarrow> n < 2 ^ 31 \<Longrightarrow> read_then q n t 0 tot 4 (int_bytes n) = consumer_at q n t 1 0"
  by (simp add: read_then_def consumer_at_def main_consumer_def int_bytes_roundtrip)

lemma read_then_number:
  assumes "0 < r" "r \<le> nat n" "0 \<le> v" "v < 64" "0 \<le> tot" "tot + v < 2 ^ 31"
  shows "read_then q n t r tot 4 (int_bytes v) = consumer_at q n t (Suc r) (tot + v)"
proof -
  obtain i where i: "r = Suc i" using assms(1) by (cases r) auto
  with assms(2) have "int i < n" by linarith
  then show ?thesis
    using assms(3-6) by (simp add: i read_then_def consumer_at_def main_numbers.simps [of q n "int i"]
        int_bytes_roundtrip add_int_def add.commute)
qed

lemma producer_draws:
  assumes "0 < i" "i \<le> nat n"
  shows "producer_at q n i tot = Rand (\<lambda>r. Write q (int_bytes (r mod 64)) 4 (write_then q n i tot (r mod 64)))"
proof -
  have "int i - 1 < n" using assms by linarith
  moreover have "producer_numbers q n (int i - 1 + 1) x (producer_end q) = producer_at q n (Suc i) x" for x
    by (simp add: producer_at_def)
  moreover have "producer_at q n i tot = producer_numbers q n (int i - 1) tot (producer_end q)"
    by (simp add: producer_at_def)
  ultimately show ?thesis
    using assms(1) by (simp only: producer_numbers.simps [of q n "int i - 1"]) (simp add: write_then_def Let_def)
qed

lemma producer_ends: "0 < i \<Longrightarrow> i = Suc (nat n) \<Longrightarrow> producer_at q n i tot = producer_end q tot"
  unfolding producer_at_def by (subst producer_numbers.simps) simp

lemma write_then_count: "write_then q n 0 tot v 0 = producer_at q n 1 0"
  by (simp add: write_then_def producer_at_def)

lemma write_then_number:
  "0 < i \<Longrightarrow> 0 \<le> v \<Longrightarrow> v < 64 \<Longrightarrow> 0 \<le> tot \<Longrightarrow> tot + v < 2 ^ 31 \<Longrightarrow>
     write_then q n i tot v 0 = Printf (producer_at q n (Suc i) (tot + v))"
  by (simp add: write_then_def add_int_def)

end
