(* ===== verification/Prodcon_Runs.thy ===== *)
theory Prodcon_Runs
  imports Prodcon
begin

text \<open>
  Every run of \<open>prodcon.c\<close>: the invariant, its preservation by every step and every spurious
  wakeup, and the rank that every step lowers.
\<close>

section \<open>The invariant\<close>

text \<open>What a run of the program fixes: the queue's address and capacity, the two handles, the
  producer's thread id, and how many numbers are to be sent.\<close>

record scene =
  st_addr :: u64
  st_rd :: u64
  st_wr :: u64
  st_tid :: u64
  st_cap :: nat
  st_n :: int

definition scene_ok :: "scene \<Rightarrow> bool" where
  "scene_ok g \<longleftrightarrow> get_backend (st_rd g) = Some (st_addr g) \<and> get_flags (st_rd g) = MSG_QUEUE_READER \<and> st_rd g \<noteq> 0 \<and>
     get_backend (st_wr g) = Some (st_addr g) \<and> get_flags (st_wr g) = MSG_QUEUE_WRITER \<and> st_wr g \<noteq> 0 \<and>
     st_tid g \<noteq> 0 \<and> st_tid g \<noteq> 1 \<and> 13 \<le> st_cap g \<and> - (2 ^ 31) \<le> st_n g \<and> st_n g \<le> 34087042"

text \<open>The positions.  A sleeping thread has been woken or not.\<close>

datatype main_phase = M_read | M_asleep bool | M_close | M_join | M_check | M_done
datatype prod_phase = P_start | P_write int | P_asleep int bool | P_print | P_rand | P_sum | P_close | P_done

text \<open>The sum of the numbers among the first \<open>r\<close> messages.\<close>

definition sum_of :: "nat \<Rightarrow> int list \<Rightarrow> int" where
  "sum_of r outs = sum_list (tl (take r outs))"

definition all_sum :: "int list \<Rightarrow> int" where
  "all_sum outs = sum_list (tl outs)"

fun main_does :: "scene \<Rightarrow> nat \<Rightarrow> int list \<Rightarrow> main_phase \<Rightarrow> producer_context activity \<Rightarrow> bool" where
  "main_does g r outs M_read act \<longleftrightarrow> act = Running (consumer_at (st_rd g) (st_n g) (st_tid g) r (sum_of r outs))"
| "main_does g r outs (M_asleep b) act \<longleftrightarrow>
     (\<exists>out. length out = 4 \<and> act = In_read (st_rd g) out 4 (read_then (st_rd g) (st_n g) (st_tid g) r (sum_of r outs)))"
| "main_does g r outs M_close act \<longleftrightarrow> act = Running (main_end (st_rd g) (st_tid g) (sum_of r outs))"
| "main_does g r outs M_join act \<longleftrightarrow>
     act = Running (Join (st_tid g) (\<lambda>ret value. if ret \<noteq> 0 then Exit 1 else main_check (sum_of r outs)))"
| "main_does g r outs M_check act \<longleftrightarrow> act = Running (main_check (sum_of r outs))"
| "main_does g r outs M_done act \<longleftrightarrow> act = Running (Exit 0)"

fun prod_does :: "scene \<Rightarrow> int list \<Rightarrow> prod_phase \<Rightarrow> producer_context activity \<Rightarrow> bool" where
  "prod_does g outs P_start act \<longleftrightarrow> act = Running producer"
| "prod_does g outs (P_write v) act \<longleftrightarrow> act = Running (Write (st_wr g) (int_bytes v) 4
     (write_then (st_wr g) (st_n g) (length outs) (all_sum outs) v))"
| "prod_does g outs (P_asleep v b) act \<longleftrightarrow> act = In_write (st_wr g) (int_bytes v) 4
     (write_then (st_wr g) (st_n g) (length outs) (all_sum outs) v)"
| "prod_does g outs P_print act \<longleftrightarrow>
     act = Running (Printf (producer_at (st_wr g) (st_n g) (length outs) (all_sum outs)))"
| "prod_does g outs P_rand act \<longleftrightarrow> act = Running (producer_at (st_wr g) (st_n g) (length outs) (all_sum outs))"
| "prod_does g outs P_sum act \<longleftrightarrow> act = Running (producer_end (st_wr g) (all_sum outs))"
| "prod_does g outs P_close act \<longleftrightarrow>
     act = Running (Close (Some (st_wr g)) (\<lambda>ret queue'. if ret \<noteq> 0 then Abort else Exit 0))"
| "prod_does g outs P_done act \<longleftrightarrow> act = Running (Exit 0)"

definition reader_open :: "main_phase \<Rightarrow> bool" where
  "reader_open ph = (case ph of M_read \<Rightarrow> True | M_asleep b \<Rightarrow> True | M_close \<Rightarrow> True | _ \<Rightarrow> False)"

definition writer_open :: "prod_phase \<Rightarrow> bool" where
  "writer_open ph \<longleftrightarrow> ph \<noteq> P_done"

text \<open>Who is on the two condition variables.\<close>

definition on_cond :: "u64 \<Rightarrow> bool \<Rightarrow> cond_t" where
  "on_cond t b = (if b then \<lparr>waiting = [], woken = [t]\<rparr> else \<lparr>waiting = [t], woken = []\<rparr>)"

definition on_empty :: "main_phase \<Rightarrow> cond_t" where
  "on_empty ph = (case ph of M_asleep b \<Rightarrow> on_cond 1 b | _ \<Rightarrow> \<lparr>waiting = [], woken = []\<rparr>)"

definition on_full :: "u64 \<Rightarrow> prod_phase \<Rightarrow> cond_t" where
  "on_full t ph = (case ph of P_asleep v b \<Rightarrow> on_cond t b | _ \<Rightarrow> \<lparr>waiting = [], woken = []\<rparr>)"

definition queue_ok :: "scene \<Rightarrow> queue_mem \<Rightarrow> main_phase \<Rightarrow> prod_phase \<Rightarrow> nat \<Rightarrow> int list \<Rightarrow> bool" where
  "queue_ok g w mp pp r outs \<longleftrightarrow> (reader_open mp \<or> writer_open pp \<longrightarrow>
     (\<exists>mq. queue_at w (st_addr g) mq (map int_bytes (drop r outs)) \<and>
        counts mq ((if reader_open mp then [MSG_QUEUE_READER] else []) @ (if writer_open pp then [MSG_QUEUE_WRITER] else [])) \<and>
        no_readers mq = (\<not> reader_open mp) \<and> no_writers mq = (\<not> writer_open pp) \<and>
        (reader_open mp \<and> writer_open pp \<longrightarrow> rb_capacity (mq_buffer mq) = st_cap g) \<and>
        space_empty mq = on_empty mp \<and> space_full mq = on_full (st_tid g) pp))"

text \<open>No space for another message when \<open>k\<close> are in the queue: 4 bytes and a header of 8.\<close>

definition no_space :: "scene \<Rightarrow> nat \<Rightarrow> bool" where
  "no_space g k \<longleftrightarrow> st_cap g < 12 * k + 12"

definition number :: "int \<Rightarrow> bool" where
  "number v \<longleftrightarrow> 0 \<le> v \<and> v < 64"

definition outs_ok :: "scene \<Rightarrow> int list \<Rightarrow> bool" where
  "outs_ok g outs \<longleftrightarrow> (outs \<noteq> [] \<longrightarrow> hd outs = st_n g) \<and> (\<forall>v \<in> set (tl outs). number v) \<and>
     length outs \<le> Suc (nat (st_n g))"

definition next_ok :: "scene \<Rightarrow> int list \<Rightarrow> int \<Rightarrow> bool" where
  "next_ok g outs v \<longleftrightarrow> length outs \<le> nat (st_n g) \<and> (if outs = [] then v = st_n g else number v)"

fun main_couples :: "scene \<Rightarrow> main_phase \<Rightarrow> prod_phase \<Rightarrow> nat \<Rightarrow> int list \<Rightarrow> bool" where
  "main_couples g M_read pp r outs \<longleftrightarrow> r \<le> nat (st_n g)"
| "main_couples g (M_asleep b) pp r outs \<longleftrightarrow> r \<le> nat (st_n g) \<and> (\<not> b \<longrightarrow> r = length outs)"
| "main_couples g M_close pp r outs \<longleftrightarrow> r = Suc (nat (st_n g))"
| "main_couples g M_join pp r outs \<longleftrightarrow> r = Suc (nat (st_n g))"
| "main_couples g M_check pp r outs \<longleftrightarrow> r = Suc (nat (st_n g)) \<and> pp = P_done"
| "main_couples g M_done pp r outs \<longleftrightarrow> r = Suc (nat (st_n g)) \<and> pp = P_done"

fun prod_couples :: "scene \<Rightarrow> prod_phase \<Rightarrow> nat \<Rightarrow> int list \<Rightarrow> bool" where
  "prod_couples g P_start r outs \<longleftrightarrow> outs = []"
| "prod_couples g (P_write v) r outs \<longleftrightarrow> next_ok g outs v"
| "prod_couples g (P_asleep v b) r outs \<longleftrightarrow> next_ok g outs v \<and> (\<not> b \<longrightarrow> no_space g (length outs - r))"
| "prod_couples g P_print r outs \<longleftrightarrow> 2 \<le> length outs"
| "prod_couples g P_rand r outs \<longleftrightarrow> 0 < length outs \<and> length outs \<le> nat (st_n g)"
| "prod_couples g P_sum r outs \<longleftrightarrow> length outs = Suc (nat (st_n g))"
| "prod_couples g P_close r outs \<longleftrightarrow> length outs = Suc (nat (st_n g))"
| "prod_couples g P_done r outs \<longleftrightarrow> length outs = Suc (nat (st_n g))"

definition couples :: "scene \<Rightarrow> main_phase \<Rightarrow> prod_phase \<Rightarrow> nat \<Rightarrow> int list \<Rightarrow> bool" where
  "couples g mp pp r outs \<longleftrightarrow> outs_ok g outs \<and> r \<le> length outs \<and> main_couples g mp pp r outs \<and> prod_couples g pp r outs"

definition context_ok :: "scene \<Rightarrow> producer_context \<Rightarrow> prod_phase \<Rightarrow> int list \<Rightarrow> bool" where
  "context_ok g c pp outs \<longleftrightarrow> pc_queue c = st_wr g \<and> pc_numberCount c = st_n g \<and>
     (pp = P_close \<or> pp = P_done \<longrightarrow> pc_sum c = all_sum outs)"

definition prodcon_inv ::
  "scene \<Rightarrow> producer_context process \<Rightarrow> main_phase \<Rightarrow> prod_phase \<Rightarrow> nat \<Rightarrow> int list \<Rightarrow> bool" where
  "prodcon_inv g s mp pp r outs \<longleftrightarrow> main_does g r outs mp (code s 1) \<and> prod_does g outs pp (code s (st_tid g)) \<and>
     (\<forall>t. t \<noteq> 1 \<and> t \<noteq> st_tid g \<longrightarrow> code s t = Absent) \<and> (\<forall>t. self (envs s t) = t) \<and>
     queue_ok g (memory s) mp pp r outs \<and> context_ok g (shared s) pp outs \<and> couples g mp pp r outs \<and>
     sent s = map int_bytes outs \<and> received s = map int_bytes (take r outs)"

text \<open>How many steps are left, at most, when nobody is woken spuriously; a thread that was woken
  in vain has one more.\<close>

fun main_rank :: "scene \<Rightarrow> main_phase \<Rightarrow> nat \<Rightarrow> int list \<Rightarrow> nat" where
  "main_rank g M_read r outs = 2 * (Suc (nat (st_n g)) - r) + 3"
| "main_rank g (M_asleep b) r outs =
     2 * (Suc (nat (st_n g)) - r) + 2 + (if b \<and> r = length outs then 1 else 0)"
| "main_rank g M_close r outs = 3"
| "main_rank g M_join r outs = 2"
| "main_rank g M_check r outs = 1"
| "main_rank g M_done r outs = 0"

fun prod_rank :: "scene \<Rightarrow> prod_phase \<Rightarrow> nat \<Rightarrow> int list \<Rightarrow> nat" where
  "prod_rank g P_start r outs = 4 * Suc (nat (st_n g)) + 2"
| "prod_rank g (P_write v) r outs = 4 * (Suc (nat (st_n g)) - length outs) + 1"
| "prod_rank g (P_asleep v b) r outs =
     4 * (Suc (nat (st_n g)) - length outs) + (if b \<and> no_space g (length outs - r) then 1 else 0)"
| "prod_rank g P_print r outs = 4 * (Suc (nat (st_n g)) - length outs) + 3"
| "prod_rank g P_rand r outs = 4 * (Suc (nat (st_n g)) - length outs) + 2"
| "prod_rank g P_sum r outs = 2"
| "prod_rank g P_close r outs = 1"
| "prod_rank g P_done r outs = 0"

definition rank :: "scene \<Rightarrow> main_phase \<Rightarrow> prod_phase \<Rightarrow> nat \<Rightarrow> int list \<Rightarrow> nat" where
  "rank g mp pp r outs = main_rank g mp r outs + prod_rank g pp r outs"

section \<open>Sums and messages\<close>

lemma sum_of_0 [simp]: "sum_of 0 outs = 0" and sum_of_1 [simp]: "sum_of (Suc 0) outs = 0"
  by (cases outs; simp add: sum_of_def)+

lemma sum_of_all: "sum_of (length outs) outs = all_sum outs"
  by (simp add: sum_of_def all_sum_def)

lemma sum_of_Suc:
  assumes "0 < r" "r < length outs"
  shows "sum_of (Suc r) outs = sum_of r outs + outs ! r"
proof -
  have "take r outs \<noteq> []" using assms by auto
  then show ?thesis by (simp add: sum_of_def take_Suc_conv_app_nth [OF assms(2)])
qed

lemma sum_of_append: "r \<le> length outs \<Longrightarrow> sum_of r (outs @ [v]) = sum_of r outs"
  by (simp add: sum_of_def)

lemma all_sum_append: "all_sum (outs @ [v]) = (if outs = [] then 0 else all_sum outs + v)"
  by (cases outs) (simp_all add: all_sum_def)

lemma sum_list_numbers: "\<forall>v \<in> set vs. number v \<Longrightarrow> 0 \<le> sum_list vs \<and> sum_list vs \<le> 63 * int (length vs)"
  by (induction vs) (auto simp: number_def)

lemma sums_bounded:
  assumes "outs_ok g outs" "scene_ok g" "length outs \<le> nat (st_n g)"
  shows "0 \<le> all_sum outs" "number v \<Longrightarrow> all_sum outs + v < 2 ^ 31"
proof -
  have s: "0 \<le> all_sum outs" "all_sum outs \<le> 63 * int (length (tl outs))"
    using sum_list_numbers [of "tl outs"] assms(1) by (auto simp: outs_ok_def all_sum_def)
  show "0 \<le> all_sum outs" by (rule s(1))
  have "int (length (tl outs)) < 34087042 \<or> outs = []" using assms(2,3) by (cases outs) (auto simp: scene_ok_def)
  then show "all_sum outs + v < 2 ^ 31" if "number v"
    using s(2) that by (auto simp: number_def all_sum_def)
qed

lemma sum_of_bounded:
  assumes o: "outs_ok g outs" and g: "scene_ok g" and r: "0 < r" "r < length outs"
  shows "0 \<le> sum_of r outs" "sum_of r outs + outs ! r < 2 ^ 31" "number (outs ! r)"
proof -
  have i: "outs_ok g (take r outs)" "length (take r outs) \<le> nat (st_n g)"
    using o r set_take_subset [of "r - 1" "tl outs"] by (auto simp: outs_ok_def take_tl hd_take)
  have "outs ! r = tl outs ! (r - 1)" using r by (simp add: nth_tl)
  then show v: "number (outs ! r)" using o r by (simp add: outs_ok_def)
  have "all_sum (take r outs) = sum_of r outs" by (simp add: all_sum_def sum_of_def)
  then show "0 \<le> sum_of r outs" "sum_of r outs + outs ! r < 2 ^ 31"
    using sums_bounded [OF i(1) g i(2)] v by metis+
qed

lemma outs_head: "outs_ok g outs \<Longrightarrow> 0 < length outs \<Longrightarrow> outs ! 0 = st_n g"
  by (simp add: outs_ok_def hd_conv_nth)

lemma outs_ok_append: "outs_ok g outs \<Longrightarrow> next_ok g outs v \<Longrightarrow> outs_ok g (outs @ [v])"
  by (cases outs) (auto simp: outs_ok_def next_ok_def)

lemma bytes_of_ints: "length (messages_bytes (map int_bytes vs)) = 12 * length vs"
  by (induction vs) (simp_all add: message_bytes_def)

text \<open>The code after a read and after a write.\<close>

lemma read_then_next:
  assumes o: "outs_ok g outs" and g: "scene_ok g" and r: "r < length outs" "r \<le> nat (st_n g)"
  shows "read_then q (st_n g) t r (sum_of r outs) 4 (int_bytes (outs ! r)) = consumer_at q (st_n g) t (Suc r) (sum_of (Suc r) outs)"
proof (cases "r = 0")
  case True
  then show ?thesis using read_then_count [of "st_n g" q t] outs_head [OF o] r g by (simp add: scene_ok_def)
next
  case False
  then have "0 < r" by simp
  note b = sum_of_bounded [OF o g this r(1)]
  show ?thesis
    unfolding sum_of_Suc [OF \<open>0 < r\<close> r(1)]
    by (rule read_then_number) (use b r False in \<open>auto simp: number_def\<close>)
qed

lemma write_then_next:
  assumes o: "outs_ok g outs" and g: "scene_ok g" and v: "next_ok g outs v"
  shows "write_then q (st_n g) (length outs) (all_sum outs) v 0 =
    (let x = producer_at q (st_n g) (Suc (length outs)) (all_sum (outs @ [v])) in if outs = [] then x else Printf x)"
proof (cases "outs = []")
  case True
  then show ?thesis by (simp add: write_then_count all_sum_def)
next
  case False
  then have n: "number v" "length outs \<le> nat (st_n g)" using v by (simp_all add: next_ok_def)
  show ?thesis
    using False sums_bounded [OF o g n(2)] n(1) write_then_number [of "length outs" v "all_sum outs" q "st_n g"]
    by (simp add: number_def all_sum_append)
qed

section \<open>Steps of the main thread\<close>

text \<open>Reading signals \<open>space_full\<close>, writing signals \<open>space_empty\<close>.\<close>

definition wake_main :: "main_phase \<Rightarrow> main_phase" where
  "wake_main mp = (case mp of M_asleep b \<Rightarrow> M_asleep True | x \<Rightarrow> x)"

definition wake_prod :: "prod_phase \<Rightarrow> prod_phase" where
  "wake_prod pp = (case pp of P_asleep v b \<Rightarrow> P_asleep v True | x \<Rightarrow> x)"

lemma signal_on_cond: "snd (pthread_cond_signal pick (on_cond t b)) = on_cond t True"
  by (simp add: pthread_cond_signal_def on_cond_def)

lemma signal_nobody: "snd (pthread_cond_signal pick \<lparr>waiting = [], woken = []\<rparr>) = \<lparr>waiting = [], woken = []\<rparr>"
  by (simp add: pthread_cond_signal_def)

lemma signal_empty_full:
  "snd (pthread_cond_signal pick (on_empty mp)) = on_empty (wake_main mp)"
  "snd (pthread_cond_signal pick (on_full t pp)) = on_full t (wake_prod pp)"
  by (cases mp; simp add: on_empty_def wake_main_def signal_on_cond signal_nobody)
     (cases pp; simp add: on_full_def wake_prod_def signal_on_cond signal_nobody)

lemma wake_main_simps [simp]:
  "reader_open (wake_main mp) = reader_open mp" "main_does g r outs (wake_main mp) = main_does g r outs mp"
  by (cases mp; simp add: wake_main_def reader_open_def fun_eq_iff)+

lemma wake_prod_simps [simp]:
  "wake_prod pp = P_done \<longleftrightarrow> pp = P_done" "wake_prod pp = P_close \<longleftrightarrow> pp = P_close"
  "prod_does g outs (wake_prod pp) = prod_does g outs pp"
  by (cases pp; simp add: wake_prod_def fun_eq_iff)+

lemma wake_prod_open [simp]:
  "writer_open (wake_prod pp) = writer_open pp" "context_ok g c (wake_prod pp) outs = context_ok g c pp outs"
  by (simp_all add: writer_open_def context_ok_def)

text \<open>A reader makes space for the sleeping writer.\<close>

lemma wake_prod_read:
  assumes "prod_couples g pp r outs" "r < length outs" "12 * (length outs - r) \<le> st_cap g \<or> \<not> writer_open pp"
  shows "prod_couples g (wake_prod pp) (Suc r) outs" "prod_rank g (wake_prod pp) (Suc r) outs \<le> prod_rank g pp r outs"
proof -
  show "prod_couples g (wake_prod pp) (Suc r) outs" using assms(1) by (cases pp) (simp_all add: wake_prod_def)
  have "\<not> no_space g (length outs - Suc r) \<or> \<not> writer_open pp" using assms(2,3) by (auto simp: no_space_def)
  then show "prod_rank g (wake_prod pp) (Suc r) outs \<le> prod_rank g pp r outs"
    by (cases pp) (auto simp: wake_prod_def writer_open_def)
qed

lemma queue_bytes:
  assumes "queue_at w a mq (map int_bytes vs)"
  shows "12 * length vs \<le> rb_capacity (mq_buffer mq)"
proof -
  have "mq_holds (in_memory (fresh_env 1) w mq) [] (map int_bytes vs)"
    using assms by (simp add: queue_at_def mq_ready_def in_memory_def)
  from mq_holds_bounds [OF this] show ?thesis by (simp add: bytes_of_ints)
qed

text \<open>What a step of the main thread leads to.\<close>

definition main_next ::
  "scene \<Rightarrow> main_phase \<Rightarrow> prod_phase \<Rightarrow> nat \<Rightarrow> int list \<Rightarrow> thread_env \<Rightarrow> queue_mem \<Rightarrow> producer_context \<Rightarrow>
   producer_context activity \<Rightarrow> event \<Rightarrow> bool" where
  "main_next g mp pp r outs env w c act ev \<longleftrightarrow> self env = 1 \<and> sends ev = [] \<and> (\<exists>mp' pp' r'.
     map int_bytes (take r' outs) = map int_bytes (take r outs) @ receives ev \<and> main_does g r' outs mp' act \<and>
     prod_does g outs pp' = prod_does g outs pp \<and> queue_ok g w mp' pp' r' outs \<and> context_ok g c pp' outs \<and>
     couples g mp' pp' r' outs \<and> rank g mp' pp' r' outs < rank g mp pp r outs)"

lemma read_effect_next:
  assumes g: "scene_ok g" and q: "queue_at w (st_addr g) mq (map int_bytes (drop r outs))"
    "counts mq (MSG_QUEUE_READER # (if writer_open pp then [MSG_QUEUE_WRITER] else []))"
    "\<not> no_readers mq" "no_writers mq = (\<not> writer_open pp)" "writer_open pp \<Longrightarrow> rb_capacity (mq_buffer mq) = st_cap g"
    "space_full mq = on_full (st_tid g) pp"
    and c: "couples g mp pp r outs" "mp = M_read \<or> mp = M_asleep True" "context_ok g c pp outs" and env: "self env = 1"
    and out: "length out = 4"
    and eff: "read_effect w (st_addr g) mq (map int_bytes (drop r outs)) 1 out \<lparr>waiting = [], woken = []\<rparr> ret out' w'"
    and act: "act = (case ret of Sleeping \<Rightarrow> In_read (st_rd g) out' 4 (read_then (st_rd g) (st_n g) (st_tid g) r (sum_of r outs))
                     | Returned x \<Rightarrow> Running (read_then (st_rd g) (st_n g) (st_tid g) r (sum_of r outs) x out'))"
      "ev = (case ret of Sleeping \<Rightarrow> Quiet | Returned x \<Rightarrow> read_event out' x)"
  shows "main_next g mp pp r outs env w' c act ev"
proof -
  have r: "r \<le> nat (st_n g)" "r \<le> length outs" "outs_ok g outs" "prod_couples g pp r outs" "mp = M_asleep b \<Longrightarrow> b" for b
    using c(1,2) by (auto simp: couples_def)
  show ?thesis
  proof (cases "r = length outs")
    case True
    then obtain mq' where e: "ret = Sleeping" "out' = out" "same_handles mq mq'" "queue_at w' (st_addr g) mq' []"
        "space_full mq' = on_full (st_tid g) pp" "space_empty mq' = on_cond 1 False"
      using eff q(6) by (auto simp: read_effect_def on_cond_def)
    have "queue_ok g w' (M_asleep False) pp r outs"
      unfolding queue_ok_def using e(3-6) q(2-5) same_handles_counts [OF e(3)] True
      by (intro impI exI [of _ mq']) (auto simp: reader_open_def on_empty_def same_handles_def)
    moreover have "couples g (M_asleep False) pp r outs" using c True r by (auto simp: couples_def)
    moreover have "rank g (M_asleep False) pp r outs < rank g mp pp r outs" using c(2) True by (auto simp: rank_def)
    moreover have "main_does g r outs (M_asleep False) act" using out by (simp add: act e)
    ultimately show ?thesis
      unfolding main_next_def using env c(3) act(2) e(1)
      by (intro conjI exI [of _ "M_asleep False"] exI [of _ pp] exI [of _ r]) simp_all
  next
    case False
    then have lt: "r < length outs" using r(2) by simp
    then have d: "drop r outs = outs ! r # drop (Suc r) outs" by (rule Cons_nth_drop_Suc [symmetric])
    obtain mq' pick where e: "ret = Returned 4" "out' = int_bytes (outs ! r)" "same_handles mq mq'"
      "queue_at w' (st_addr g) mq' (map int_bytes (drop (Suc r) outs))" "space_empty mq' = \<lparr>waiting = [], woken = []\<rparr>"
      "space_full mq' = snd (pthread_cond_signal pick (on_full (st_tid g) pp))"
      using eff q(6) out by (auto simp: read_effect_def d)
    let ?mp = "if Suc r \<le> nat (st_n g) then M_read else M_close"
    have fin: "Suc r = Suc (nat (st_n g))" if "\<not> Suc r \<le> nat (st_n g)" using that r(1) by simp
    have "main_does g (Suc r) outs ?mp act"
      using read_then_next [OF r(3) g lt r(1), of "st_rd g" "st_tid g"] consumer_ends [of "st_rd g" "st_n g" "st_tid g"] fin
      by (auto simp: act e(1,2))
    moreover have "queue_ok g w' ?mp (wake_prod pp) (Suc r) outs"
      unfolding queue_ok_def using e(3-6) q(2-5) same_handles_counts [OF e(3)]
      by (intro impI exI [of _ mq']) (auto simp: reader_open_def on_empty_def signal_empty_full same_handles_def)
    moreover have "12 * (length outs - r) \<le> st_cap g \<or> \<not> writer_open pp"
      using queue_bytes [OF q(1)] q(5) by auto
    note wp = wake_prod_read [OF r(4) lt this]
    have "couples g ?mp (wake_prod pp) (Suc r) outs" using lt r(1,3) wp(1) by (auto simp: couples_def)
    moreover have "rank g ?mp (wake_prod pp) (Suc r) outs < rank g mp pp r outs"
      using c(2) wp(2) r(1) by (auto simp: rank_def)
    moreover have "ev = Received (int_bytes (outs ! r))" by (simp add: act(2) e(1,2) read_event_def)
    ultimately show ?thesis
      unfolding main_next_def using env c(3) take_Suc_conv_app_nth [OF lt]
      by (intro conjI exI [of _ ?mp] exI [of _ "wake_prod pp"] exI [of _ "Suc r"]) simp_all
  qed
qed

text \<open>A thread asleep in a call does not go on before it is woken.\<close>

lemma not_woken:
  assumes q: "queue_at w a mq ms" and h: "get_backend h = Some a" and env: "self env \<noteq> 0"
  shows "self env \<notin> set (woken (space_empty mq)) \<Longrightarrow> msg_queue_read_resume ch env w h out len = None"
    and "self env \<notin> set (woken (space_full mq)) \<Longrightarrow> msg_queue_write_resume ch env w h src len = None"
  using h queue_at_load(1) [OF q env]
  by (simp_all add: msg_queue_read_resume_def read_resume_def msg_queue_write_resume_def write_resume_def cond_wakeup_def)

lemma queue_okE:
  assumes "queue_ok g w mp pp r outs" "reader_open mp \<or> writer_open pp"
  obtains mq where "queue_at w (st_addr g) mq (map int_bytes (drop r outs))"
    "counts mq ((if reader_open mp then [MSG_QUEUE_READER] else []) @ (if writer_open pp then [MSG_QUEUE_WRITER] else []))"
    "no_readers mq = (\<not> reader_open mp)" "no_writers mq = (\<not> writer_open pp)"
    "reader_open mp \<and> writer_open pp \<Longrightarrow> rb_capacity (mq_buffer mq) = st_cap g"
    "space_empty mq = on_empty mp" "space_full mq = on_full (st_tid g) pp"
proof -
  obtain mq where "queue_at w (st_addr g) mq (map int_bytes (drop r outs)) \<and>
        counts mq ((if reader_open mp then [MSG_QUEUE_READER] else []) @ (if writer_open pp then [MSG_QUEUE_WRITER] else [])) \<and>
        no_readers mq = (\<not> reader_open mp) \<and> no_writers mq = (\<not> writer_open pp) \<and>
        (reader_open mp \<and> writer_open pp \<longrightarrow> rb_capacity (mq_buffer mq) = st_cap g) \<and>
        space_empty mq = on_empty mp \<and> space_full mq = on_full (st_tid g) pp"
    using assms unfolding queue_ok_def by (elim impE exE) auto
  then show ?thesis by (intro that [of mq]) simp_all
qed

lemma reading_next:
  assumes g: "scene_ok g" and env: "self env = 1" and q: "queue_ok g w mp pp r outs" and c: "couples g mp pp r outs" "context_ok g c pp outs"
    and act: "main_does g r outs mp act" and mp: "mp = M_read \<or> mp = M_asleep b" and ex: "exec env w c act env' w' c' act' ev"
  shows "main_next g mp pp r outs env' w' c' act' ev"
proof -
  have ro: "reader_open mp" using mp by (auto simp: reader_open_def)
  obtain mq where mq: "queue_at w (st_addr g) mq (map int_bytes (drop r outs))"
    "counts mq (MSG_QUEUE_READER # (if writer_open pp then [MSG_QUEUE_WRITER] else []))" "\<not> no_readers mq"
    "no_writers mq = (\<not> writer_open pp)" "writer_open pp \<Longrightarrow> rb_capacity (mq_buffer mq) = st_cap g"
    "space_empty mq = on_empty mp" "space_full mq = on_full (st_tid g) pp"
    using queue_okE [OF q] ro by auto
  have r: "r \<le> nat (st_n g)" using c(1) mp by (auto simp: couples_def)
  have wr: "\<not> no_writers mq" if "map int_bytes (drop r outs) = []"
    using that c(1) r mq(4) by (auto simp: couples_def writer_open_def)
  have four: "unat (4 :: u64) = 4" by simp
  have len: "length m \<le> unat (4 :: u64)" if "m \<in> set (map int_bytes (drop r outs))" for m using that by auto
  have h: "get_backend (st_rd g) = Some (st_addr g)" "get_flags (st_rd g) = MSG_QUEUE_READER" "self env \<noteq> 0"
    using g env by (simp_all add: scene_ok_def)
  let ?k = "read_then (st_rd g) (st_n g) (st_tid g) r (sum_of r outs)"
  have fin: "main_next g mp pp r outs env w2 c act2 ev2"
    if "mp = M_read \<or> mp = M_asleep True" "length out = 4"
      "read_effect w (st_addr g) mq (map int_bytes (drop r outs)) 1 out \<lparr>waiting = [], woken = []\<rparr> ret out' w2"
      "act2 = (case ret of Sleeping \<Rightarrow> In_read (st_rd g) out' 4 ?k | Returned x \<Rightarrow> Running (?k x out'))"
      "ev2 = (case ret of Sleeping \<Rightarrow> Quiet | Returned x \<Rightarrow> read_event out' x)"
    for out ret out' w2 act2 ev2
    by (rule read_effect_next [OF g mq(1-5,7) c(1) that(1) c(2) env that(2-5)])
  from mp show ?thesis
  proof
    assume m: "mp = M_read"
    have a: "act = Running (Read (st_rd g) 4 ?k)" using act m consumer_reads [OF r] by simp
    have e0: "space_empty mq = \<lparr>waiting = [], woken = []\<rparr>" using mq(6) m by (simp add: on_empty_def)
    have eff: "\<exists>ret out' w'. msg_queue_read ch env w (st_rd g) out 4 = Some (ret, out', env, w') \<and>
        read_effect w (st_addr g) mq (map int_bytes (drop r outs)) 1 out \<lparr>waiting = [], woken = []\<rparr> ret out' w'"
      if "length out = unat (4 :: u64)" for ch out
      using msg_queue_read_effect [OF mq(1) h(3,1,2) wr len, of out ch] that by (simp add: e0 env)
    from ex [unfolded a] show ?thesis
    proof (rule exec_ReadE)
      fix out ch x out' assume x: "c' = c" "ev = read_event out' x" "act' = Running (?k x out')" "length out = unat (4 :: u64)"
        "msg_queue_read ch env w (st_rd g) out 4 = Some (Returned x, out', env', w')"
      then show ?thesis using eff [of out ch] m fin [of out "Returned x" out' w' act' ev] by simp
    next
      fix out ch out' assume x: "c' = c" "ev = Quiet" "act' = In_read (st_rd g) out' 4 ?k" "length out = unat (4 :: u64)"
        "msg_queue_read ch env w (st_rd g) out 4 = Some (Sleeping, out', env', w')"
      then show ?thesis using eff [of out ch] m fin [of out Sleeping out' w' act' ev] by simp
    qed
  next
    assume m: "mp = M_asleep b"
    obtain out where out: "length out = 4" and a: "act = In_read (st_rd g) out 4 ?k" using act m by auto
    show ?thesis
    proof (cases b)
      case False
      then have "self env \<notin> set (woken (space_empty mq))" using mq(6) m by (simp add: on_empty_def on_cond_def)
      from not_woken(1) [OF mq(1) h(1,3) this] show ?thesis
        using ex unfolding a by (auto elim: exec_In_readE)
    next
      case True
      have w1: "self env \<in> set (woken (space_empty mq))"
        "(space_empty mq)\<lparr>woken := remove1 (self env) (woken (space_empty mq))\<rparr> = \<lparr>waiting = [], woken = []\<rparr>"
        using mq(6) m True env by (simp_all add: on_empty_def on_cond_def)
      have eff: "\<exists>ret out' w'. msg_queue_read_resume ch env w (st_rd g) out 4 = Some (ret, out', env, w') \<and>
          read_effect w (st_addr g) mq (map int_bytes (drop r outs)) 1 out \<lparr>waiting = [], woken = []\<rparr> ret out' w'" for ch
        using msg_queue_read_resume_effect [OF mq(1) h(3,1,2) wr len _ w1(1), of out ch] out w1(2) by (simp add: env)
      from ex [unfolded a] show ?thesis
      proof (rule exec_In_readE)
        fix ch x out' assume "c' = c" "ev = read_event out' x" "act' = Running (?k x out')"
          "msg_queue_read_resume ch env w (st_rd g) out 4 = Some (Returned x, out', env', w')"
        then show ?thesis using eff [of ch] m True out fin [of out "Returned x" out' w' act' ev] by simp
      next
        fix ch out' assume "c' = c" "ev = Quiet" "act' = In_read (st_rd g) out' 4 ?k"
          "msg_queue_read_resume ch env w (st_rd g) out 4 = Some (Sleeping, out', env', w')"
        then show ?thesis using eff [of ch] m True out fin [of out Sleeping out' w' act' ev] by simp
      qed
    qed
  qed
qed

lemma main_exec:
  assumes g: "scene_ok g" and env: "self env = 1" and q: "queue_ok g w mp pp r outs" and c: "couples g mp pp r outs" "context_ok g c pp outs"
    and act: "main_does g r outs mp act" and ex: "exec env w c act env' w' c' act' ev"
  shows "main_next g mp pp r outs env' w' c' act' ev"
proof (cases mp)
  case M_read
  then show ?thesis using reading_next [OF g env q c act _ ex] by simp
next
  case (M_asleep b)
  then show ?thesis using reading_next [OF g env q c act _ ex] by simp
next
  case M_close
  have h: "get_backend (st_rd g) = Some (st_addr g)" "st_rd g \<noteq> 0" "get_flags (st_rd g) = MSG_QUEUE_READER" "self env \<noteq> 0"
    using g env by (simp_all add: scene_ok_def)
  have r: "r = Suc (nat (st_n g))" "length outs = r" using c(1) M_close by (auto simp: couples_def outs_ok_def)
  then have pp: "on_full (st_tid g) pp = \<lparr>waiting = [], woken = []\<rparr>"
    using c(1) by (cases pp) (auto simp: couples_def on_full_def next_ok_def)
  obtain mq where mq: "queue_at w (st_addr g) mq (map int_bytes (drop r outs))"
    "counts mq (MSG_QUEUE_READER # (if writer_open pp then [MSG_QUEUE_WRITER] else []))" "\<not> no_readers mq"
    "no_writers mq = (\<not> writer_open pp)" "space_empty mq = \<lparr>waiting = [], woken = []\<rparr>" "space_full mq = on_full (st_tid g) pp"
    using queue_okE [OF q] by (auto simp: M_close reader_open_def on_empty_def)
  have "\<exists>w2. msg_queue_close env w (Some (st_rd g)) = Some (0, Some 0, env, w2) \<and> queue_ok g w2 M_join pp r outs"
  proof (cases "writer_open pp")
    case True
    then obtain w2 mq' where "msg_queue_close env w (Some (st_rd g)) = Some (0, Some 0, env, w2)"
      "queue_at w2 (st_addr g) mq' (map int_bytes (drop r outs))" "counts mq' [MSG_QUEUE_WRITER]" "no_readers mq'"
      "no_writers mq' = no_writers mq" "space_full mq' = snd (pthread_cond_broadcast (space_full mq))"
      "space_empty mq' = space_empty mq"
      using msg_queue_close_effect [OF mq(1) h(4,1,2) mq(2)] h(3) mq(4) by (auto simp: reads_def writes_def)
    then show ?thesis using True mq pp
      by (auto simp: queue_ok_def reader_open_def on_empty_def pthread_cond_broadcast_def)
  next
    case False
    then show ?thesis
      using msg_queue_close_last_effect [OF mq(1) h(4,1,2)] h(3) mq pp by (auto simp: queue_ok_def reader_open_def)
  qed
  moreover have "couples g M_join pp r outs" using c(1) M_close by (auto simp: couples_def)
  ultimately show ?thesis
    using ex act c(2) env unfolding M_close main_next_def
    by (auto simp: main_end_def rank_def elim!: exec_CloseE intro!: exI [of _ M_join] exI [of _ pp] exI [of _ r])
next
  case M_join
  then show ?thesis using ex act by (simp add: exec_simps)
next
  case M_check
  then have pp: "pp = P_done" "r = length outs" using c(1) by (auto simp: couples_def)
  then have "pc_sum c = sum_of r outs" using c(2) by (simp add: context_ok_def sum_of_all)
  then have "env' = env" "w' = w" "c' = c" "act' = Running (Exit 0)" "ev = Quiet"
    using ex act M_check by (auto simp: main_check_def exec_simps)
  then show ?thesis
    using M_check pp c q env unfolding main_next_def
    by (intro conjI exI [of _ M_done] exI [of _ pp] exI [of _ r])
       (simp_all add: couples_def rank_def queue_ok_def reader_open_def writer_open_def)
next
  case M_done
  then show ?thesis using ex act by (simp add: exec_simps)
qed

section \<open>Steps of the producer\<close>

definition prod_next ::
  "scene \<Rightarrow> main_phase \<Rightarrow> prod_phase \<Rightarrow> nat \<Rightarrow> int list \<Rightarrow> thread_env \<Rightarrow> queue_mem \<Rightarrow> producer_context \<Rightarrow>
   producer_context activity \<Rightarrow> event \<Rightarrow> bool" where
  "prod_next g mp pp r outs env w c act ev \<longleftrightarrow> self env = st_tid g \<and> receives ev = [] \<and> (\<exists>mp' pp' outs'.
     map int_bytes outs' = map int_bytes outs @ sends ev \<and> take r outs' = take r outs \<and> prod_does g outs' pp' act \<and>
     main_does g r outs' mp' = main_does g r outs mp \<and> queue_ok g w mp' pp' r outs' \<and> context_ok g c pp' outs' \<and>
     couples g mp' pp' r outs' \<and> rank g mp' pp' r outs' < rank g mp pp r outs)"

text \<open>A writer ends the wait of the sleeping reader.\<close>

lemma wake_main_write:
  assumes "main_couples g mp pp r outs" "r \<le> length outs" "length outs \<le> nat (st_n g)" "pp \<noteq> P_done"
  shows "reader_open mp" "main_couples g (wake_main mp) pp' r (outs @ [v])"
    "main_rank g (wake_main mp) r (outs @ [v]) \<le> main_rank g mp r outs"
    "main_does g r (outs @ [v]) (wake_main mp) = main_does g r outs mp"
  using assms by (cases mp; simp add: wake_main_def reader_open_def fun_eq_iff sum_of_append)+

lemma on_empty_wake: "on_empty (wake_main mp) = (case mp of M_asleep b \<Rightarrow> on_cond 1 True | _ \<Rightarrow> on_empty mp)"
  by (cases mp) (simp_all add: on_empty_def wake_main_def)

text \<open>After a message that was not the last, the producer draws a number.\<close>

definition after_message :: "scene \<Rightarrow> int list \<Rightarrow> prod_phase" where
  "after_message g outs = (if length outs \<le> nat (st_n g) then P_rand else P_sum)"

lemma after_message:
  assumes "outs_ok g outs" "0 < length outs"
  shows "prod_does g outs (after_message g outs) (Running (producer_at (st_wr g) (st_n g) (length outs) (all_sum outs)))"
    "prod_couples g (after_message g outs) r outs" "prod_rank g (after_message g outs) r outs < prod_rank g P_print r outs"
    "writer_open (after_message g outs)" "on_full t (after_message g outs) = \<lparr>waiting = [], woken = []\<rparr>"
    "after_message g outs \<noteq> P_close" "after_message g outs \<noteq> P_done"
  using assms producer_ends [of "length outs" "st_n g" "st_wr g" "all_sum outs"]
  by (auto simp: after_message_def outs_ok_def writer_open_def on_full_def le_Suc_eq)

lemma write_effect_next:
  assumes g: "scene_ok g" and q: "queue_at w (st_addr g) mq (map int_bytes (drop r outs))"
    "counts mq [MSG_QUEUE_READER, MSG_QUEUE_WRITER]" "\<not> no_readers mq" "\<not> no_writers mq"
    "rb_capacity (mq_buffer mq) = st_cap g" "space_empty mq = on_empty mp"
    and c: "couples g mp pp r outs" "pp = P_write v \<or> pp = P_asleep v True" "context_ok g c pp outs" and env: "self env = st_tid g"
    and eff: "write_effect w (st_addr g) mq (map int_bytes (drop r outs)) (st_tid g) (int_bytes v) \<lparr>waiting = [], woken = []\<rparr> ret w'"
    and act: "act = (case ret of
        Sleeping \<Rightarrow> In_write (st_wr g) (int_bytes v) 4 (write_then (st_wr g) (st_n g) (length outs) (all_sum outs) v)
      | Returned x \<Rightarrow> Running (write_then (st_wr g) (st_n g) (length outs) (all_sum outs) v x))"
      "ev = (case ret of Sleeping \<Rightarrow> Quiet | Returned x \<Rightarrow> write_event (int_bytes v) 4 x)"
  shows "prod_next g mp pp r outs env w' c act ev"
proof -
  have o: "outs_ok g outs" "r \<le> length outs" "next_ok g outs v" "main_couples g mp pp r outs" "pp \<noteq> P_done" "pp \<noteq> P_close"
    using c(1,2) by (auto simp: couples_def)
  have n: "length outs \<le> nat (st_n g)" using o(3) by (simp add: next_ok_def)
  note wm = wake_main_write [OF o(4,2) n o(5)]
  have room: "length (messages_bytes (map int_bytes (drop r outs))) + length (int_bytes v) + 8 \<le> st_cap g \<longleftrightarrow>
      \<not> no_space g (length outs - r)"
    by (auto simp: bytes_of_ints no_space_def)
  show ?thesis
  proof (cases "no_space g (length outs - r)")
    case True
    then obtain mq' where e: "ret = Sleeping" "same_handles mq mq'" "queue_at w' (st_addr g) mq' (map int_bytes (drop r outs))"
      "space_empty mq' = on_empty mp" "space_full mq' = on_cond (st_tid g) False"
      using eff q(5,6) room by (auto simp: write_effect_def on_cond_def)
    have "queue_ok g w' mp (P_asleep v False) r outs"
      unfolding queue_ok_def using e(2-5) q(2-5) same_handles_counts [OF e(2)] wm(1)
      by (intro impI exI [of _ mq']) (auto simp: writer_open_def on_full_def same_handles_def)
    moreover have "couples g mp (P_asleep v False) r outs"
      using c(1) o True by (cases mp) (auto simp: couples_def)
    moreover have "rank g mp (P_asleep v False) r outs < rank g mp pp r outs" using c(2) True by (auto simp: rank_def)
    ultimately show ?thesis
      unfolding prod_next_def using env c(3) o(5,6)
      by (intro conjI exI [of _ mp] exI [of _ "P_asleep v False"] exI [of _ outs]) (simp_all add: act(1) context_ok_def, simp_all add: act e(1))
  next
    case False
    then obtain mq' pick where e: "ret = Returned 0" "same_handles mq mq'"
      "queue_at w' (st_addr g) mq' (map int_bytes (drop r outs) @ [int_bytes v])"
      "space_full mq' = \<lparr>waiting = [], woken = []\<rparr>" "space_empty mq' = snd (pthread_cond_signal pick (on_empty mp))"
      using eff q(5,6) room by (auto simp: write_effect_def)
    let ?outs = "outs @ [v]" and ?mp = "wake_main mp"
    let ?pp = "if outs = [] then after_message g ?outs else P_print"
    have o': "outs_ok g ?outs" "0 < length ?outs" using outs_ok_append [OF o(1,3)] by simp_all
    note am = after_message [OF o']
    have "prod_does g ?outs ?pp act"
      using am(1) write_then_next [OF o(1) g o(3), of "st_wr g"] by (cases "outs = []") (simp_all add: act e(1) Let_def)
    moreover have "queue_ok g w' ?mp ?pp r ?outs"
      unfolding queue_ok_def using e(2-5) q(2-5) same_handles_counts [OF e(2)] wm(1) am(4,5) o(2)
      by (intro impI exI [of _ mq']) (auto simp: writer_open_def on_full_def same_handles_def signal_empty_full)
    moreover have "couples g ?mp ?pp r ?outs" using o(2) o' wm(2) am(2) by (cases outs) (auto simp: couples_def)
    moreover have "context_ok g c ?pp ?outs" using c(3) am(6,7) by (cases "outs = []") (simp_all add: context_ok_def)
    moreover have "prod_rank g ?pp r ?outs < prod_rank g pp r outs"
      using c(2) am(3) [of r] n False by (auto split: if_splits)
    then have "rank g ?mp ?pp r ?outs < rank g mp pp r outs" using wm(3) [of v] by (simp only: rank_def add_le_less_mono)
    moreover have "ev = Sent (int_bytes v)" by (simp add: act(2) e(1) write_event_def)
    ultimately show ?thesis
      unfolding prod_next_def using env wm(4) o(2)
      by (intro conjI exI [of _ ?mp] exI [of _ ?pp] exI [of _ ?outs]) simp_all
  qed
qed

lemma writing_next:
  assumes g: "scene_ok g" and env: "self env = st_tid g" and q: "queue_ok g w mp pp r outs"
    and c: "couples g mp pp r outs" "context_ok g c pp outs"
    and act: "prod_does g outs pp act" and pp: "pp = P_write v \<or> pp = P_asleep v b" and ex: "exec env w c act env' w' c' act' ev"
  shows "prod_next g mp pp r outs env' w' c' act' ev"
proof -
  have o: "r \<le> length outs" "length outs \<le> nat (st_n g)" "main_couples g mp pp r outs" "pp \<noteq> P_done"
    using c(1) pp by (auto simp: couples_def next_ok_def)
  note ro = wake_main_write(1) [OF o(3,1,2,4)]
  have wo: "writer_open pp" using pp by (auto simp: writer_open_def)
  obtain mq where mq: "queue_at w (st_addr g) mq (map int_bytes (drop r outs))" "counts mq [MSG_QUEUE_READER, MSG_QUEUE_WRITER]"
    "\<not> no_readers mq" "\<not> no_writers mq" "rb_capacity (mq_buffer mq) = st_cap g" "space_empty mq = on_empty mp"
    "space_full mq = on_full (st_tid g) pp"
    using queue_okE [OF q] ro wo by auto
  have h: "get_backend (st_wr g) = Some (st_addr g)" "get_flags (st_wr g) = MSG_QUEUE_WRITER" "self env \<noteq> 0" "13 \<le> st_cap g"
    using g env by (simp_all add: scene_ok_def)
  let ?k = "write_then (st_wr g) (st_n g) (length outs) (all_sum outs) v"
  have fin: "prod_next g mp pp r outs env w2 c act2 ev2"
    if "pp = P_write v \<or> pp = P_asleep v True"
      "write_effect w (st_addr g) mq (map int_bytes (drop r outs)) (st_tid g) (int_bytes v) \<lparr>waiting = [], woken = []\<rparr> ret w2"
      "act2 = (case ret of Sleeping \<Rightarrow> In_write (st_wr g) (int_bytes v) 4 ?k | Returned x \<Rightarrow> Running (?k x))"
      "ev2 = (case ret of Sleeping \<Rightarrow> Quiet | Returned x \<Rightarrow> write_event (int_bytes v) 4 x)"
    for ret w2 act2 ev2
    by (rule write_effect_next [OF g mq(1-6) c(1) that(1) c(2) env that(2-4)])
  have len: "(4 :: u64) \<noteq> 0" "unat (4 :: u64) \<le> length (int_bytes v)" "unat (4 :: u64) + 8 < rb_capacity (mq_buffer mq)"
    "unat (4 :: u64) < 2 ^ 63"
    using mq(5) h(4) by simp_all
  from pp show ?thesis
  proof
    assume p: "pp = P_write v"
    have e0: "space_full mq = \<lparr>waiting = [], woken = []\<rparr>" using mq(7) p by (simp add: on_full_def)
    have eff: "\<exists>ret w'. msg_queue_write ch env w (st_wr g) (int_bytes v) 4 = Some (ret, env, w') \<and>
        write_effect w (st_addr g) mq (map int_bytes (drop r outs)) (st_tid g) (int_bytes v) \<lparr>waiting = [], woken = []\<rparr> ret w'" for ch
      using msg_queue_write_effect [OF mq(1) h(3,1,2) mq(3) len] by (simp add: e0 env)
    have a: "act = Running (Write (st_wr g) (int_bytes v) 4 ?k)" using act p by simp
    from ex [unfolded a] show ?thesis
    proof (rule exec_WriteE)
      fix ch x assume "c' = c" "ev = write_event (int_bytes v) 4 x" "act' = Running (?k x)"
        "msg_queue_write ch env w (st_wr g) (int_bytes v) 4 = Some (Returned x, env', w')"
      then show ?thesis using eff [of ch] p fin [of "Returned x" w' act' ev] by simp
    next
      fix ch assume "c' = c" "ev = Quiet" "act' = In_write (st_wr g) (int_bytes v) 4 ?k"
        "msg_queue_write ch env w (st_wr g) (int_bytes v) 4 = Some (Sleeping, env', w')"
      then show ?thesis using eff [of ch] p fin [of Sleeping w' act' ev] by simp
    qed
  next
    assume p: "pp = P_asleep v b"
    have a: "act = In_write (st_wr g) (int_bytes v) 4 ?k" using act p by simp
    show ?thesis
    proof (cases b)
      case False
      then have "self env \<notin> set (woken (space_full mq))" using mq(7) p by (simp add: on_full_def on_cond_def)
      from not_woken(2) [OF mq(1) h(1,3) this] show ?thesis
        using ex unfolding a by (auto elim: exec_In_writeE)
    next
      case True
      have w1: "self env \<in> set (woken (space_full mq))"
        "(space_full mq)\<lparr>woken := remove1 (self env) (woken (space_full mq))\<rparr> = \<lparr>waiting = [], woken = []\<rparr>"
        using mq(7) p True env by (simp_all add: on_full_def on_cond_def)
      have eff: "\<exists>ret w'. msg_queue_write_resume ch env w (st_wr g) (int_bytes v) 4 = Some (ret, env, w') \<and>
          write_effect w (st_addr g) mq (map int_bytes (drop r outs)) (st_tid g) (int_bytes v) \<lparr>waiting = [], woken = []\<rparr> ret w'" for ch
        using msg_queue_write_resume_effect [OF mq(1) h(3,1,2) w1(1) len(1,2,4), of ch] w1(2) by (simp add: env)
      from ex [unfolded a] show ?thesis
      proof (rule exec_In_writeE)
        fix ch x assume "c' = c" "ev = write_event (int_bytes v) 4 x" "act' = Running (?k x)"
          "msg_queue_write_resume ch env w (st_wr g) (int_bytes v) 4 = Some (Returned x, env', w')"
        then show ?thesis using eff [of ch] p True fin [of "Returned x" w' act' ev] by simp
      next
        fix ch assume "c' = c" "ev = Quiet" "act' = In_write (st_wr g) (int_bytes v) 4 ?k"
          "msg_queue_write_resume ch env w (st_wr g) (int_bytes v) 4 = Some (Sleeping, env', w')"
        then show ?thesis using eff [of ch] p True fin [of Sleeping w' act' ev] by simp
      qed
    qed
  qed
qed

text \<open>The steps of the producer that do not touch the queue.\<close>

lemma prod_nextI:
  assumes "self env = st_tid g" "prod_does g outs pp' act" "queue_ok g w mp pp r outs" "writer_open pp" "writer_open pp'"
    "on_full (st_tid g) pp = on_full (st_tid g) pp'" "context_ok g c pp' outs" "couples g mp pp r outs" "prod_couples g pp' r outs"
    "pp \<noteq> P_done" "prod_rank g pp' r outs < prod_rank g pp r outs"
    "ev = Quiet"
  shows "prod_next g mp pp r outs env w c act ev"
proof -
  have "queue_ok g w mp pp' r outs" using assms(3-6) by (simp add: queue_ok_def)
  moreover have "couples g mp pp' r outs" using assms(8-10) by (cases mp) (auto simp: couples_def)
  ultimately show ?thesis
    unfolding prod_next_def using assms
    by (intro conjI exI [of _ mp] exI [of _ pp'] exI [of _ outs]) (simp_all add: rank_def)
qed

lemma closing_next:
  assumes g: "scene_ok g" and env: "self env = st_tid g" and q: "queue_ok g w mp P_close r outs"
    and c: "couples g mp P_close r outs" "context_ok g c P_close outs"
    and act: "prod_does g outs P_close act" and ex: "exec env w c act env' w' c' act' ev"
  shows "prod_next g mp P_close r outs env' w' c' act' ev"
proof -
  have h: "get_backend (st_wr g) = Some (st_addr g)" "st_wr g \<noteq> 0" "get_flags (st_wr g) = MSG_QUEUE_WRITER" "self env \<noteq> 0"
    using g env by (simp_all add: scene_ok_def)
  obtain mq where mq: "queue_at w (st_addr g) mq (map int_bytes (drop r outs))"
    "counts mq ((if reader_open mp then [MSG_QUEUE_READER] else []) @ [MSG_QUEUE_WRITER])" "no_readers mq = (\<not> reader_open mp)"
    "\<not> no_writers mq" "space_empty mq = on_empty mp" "space_full mq = \<lparr>waiting = [], woken = []\<rparr>"
    using queue_okE [OF q] by (auto simp: writer_open_def on_full_def)
  have m: "main_couples g (wake_main mp) P_done r outs" "main_rank g (wake_main mp) r outs \<le> main_rank g mp r outs"
    using c(1) by (cases mp; auto simp: couples_def wake_main_def)+
  have bc: "snd (pthread_cond_broadcast (on_empty mp)) = on_empty (wake_main mp)"
    by (cases mp) (simp_all add: on_empty_def wake_main_def pthread_cond_broadcast_def on_cond_def)
  have "\<exists>w2. msg_queue_close env w (Some (st_wr g)) = Some (0, Some 0, env, w2) \<and> queue_ok g w2 (wake_main mp) P_done r outs"
  proof (cases "reader_open mp")
    case True
    then obtain w2 mq' where "msg_queue_close env w (Some (st_wr g)) = Some (0, Some 0, env, w2)"
      "queue_at w2 (st_addr g) mq' (map int_bytes (drop r outs))" "counts mq' [MSG_QUEUE_READER]" "no_writers mq'"
      "no_readers mq' = no_readers mq" "space_empty mq' = snd (pthread_cond_broadcast (space_empty mq))"
      "space_full mq' = space_full mq"
      using msg_queue_close_effect [OF mq(1) h(4,1,2) mq(2)] h(3) mq(3) by (auto simp: reads_def writes_def)
    then show ?thesis using True mq bc
      by (auto simp: queue_ok_def writer_open_def on_full_def)
  next
    case False
    then have "waiting (space_empty mq) = []" using mq(5) by (cases mp) (simp_all add: on_empty_def reader_open_def)
    then show ?thesis
      using False msg_queue_close_last_effect [OF mq(1) h(4,1,2)] h(3) mq by (auto simp: queue_ok_def writer_open_def)
  qed
  moreover have "couples g (wake_main mp) P_done r outs" using c(1) m(1) by (simp add: couples_def)
  moreover have "main_does g r outs (wake_main mp) = main_does g r outs mp" by (simp add: fun_eq_iff)
  moreover have "rank g (wake_main mp) P_done r outs < rank g mp P_close r outs" using m(2) by (simp add: rank_def)
  ultimately show ?thesis
    using ex act c(2) env unfolding prod_next_def
    by (auto simp: context_ok_def elim!: exec_CloseE intro!: exI [of _ "wake_main mp"] exI [of _ P_done] exI [of _ outs])
qed

lemma prod_exec:
  assumes g: "scene_ok g" and env: "self env = st_tid g" and q: "queue_ok g w mp pp r outs" and c: "couples g mp pp r outs" "context_ok g c pp outs"
    and act: "prod_does g outs pp act" and ex: "exec env w c act env' w' c' act' ev"
  shows "prod_next g mp pp r outs env' w' c' act' ev"
proof (cases pp)
  case P_start
  then have x: "outs = []" "env' = env" "w' = w" "c' = c" "ev = Quiet"
    "act' = Running (Write (st_wr g) (int_bytes (st_n g)) 4 (write_then (st_wr g) (st_n g) 0 0 (st_n g)))"
    using ex act c by (auto simp: producer_def exec_simps couples_def context_ok_def write_then_def Let_def)
  then show ?thesis
    using q c env P_start
    by (intro prod_nextI [where pp' = "P_write (st_n g)"])
       (auto simp: writer_open_def on_full_def context_ok_def next_ok_def all_sum_def)
next
  case (P_write v)
  then show ?thesis using writing_next [OF g env q c act _ ex] by simp
next
  case (P_asleep v b)
  then show ?thesis using writing_next [OF g env q c act _ ex] by simp
next
  case P_print
  then have x: "self env' = self env" "w' = w" "c' = c" "ev = Quiet"
    "act' = Running (producer_at (st_wr g) (st_n g) (length outs) (all_sum outs))"
    using ex act by (auto simp: exec_simps)
  have o: "outs_ok g outs" "0 < length outs" using c(1) P_print by (auto simp: couples_def)
  note am = after_message [OF o]
  show ?thesis
    by (rule prod_nextI [where pp' = "after_message g outs"])
       (use x q c env am P_print in \<open>auto simp: writer_open_def on_full_def context_ok_def\<close>)
next
  case P_rand
  then have o: "0 < length outs" "length outs \<le> nat (st_n g)" using c(1) by (auto simp: couples_def)
  obtain x where x: "env' = env" "w' = w" "c' = c" "ev = Quiet" "act' = Running (Write (st_wr g) (int_bytes (x mod 64)) 4
      (write_then (st_wr g) (st_n g) (length outs) (all_sum outs) (x mod 64)))"
    using ex act P_rand producer_draws [OF o] by (auto simp: exec_simps)
  have "number (x mod 64)" by (simp add: number_def)
  with x show ?thesis
    using q c env P_rand o
    by (intro prod_nextI [where pp' = "P_write (x mod 64)"])
       (auto simp: writer_open_def on_full_def context_ok_def next_ok_def)
next
  case P_sum
  then have x: "env' = env" "w' = w" "ev = Quiet" "c' = c\<lparr>pc_sum := all_sum outs\<rparr>" "prod_does g outs P_close act'"
    using ex act by (auto simp: producer_end_def exec_simps)
  then show ?thesis
    using q c env P_sum
    by (intro prod_nextI [where pp' = P_close]) (auto simp: writer_open_def on_full_def context_ok_def couples_def)
next
  case P_close
  then show ?thesis using closing_next g env q c act ex by simp
next
  case P_done
  then show ?thesis using ex act by (simp add: exec_simps)
qed

section \<open>Steps of the process\<close>

lemma main_not_spawn:
  assumes "main_does g r outs mp act" "main_couples g mp pp r outs"
  shows "act \<noteq> Running (Spawn x k)" "act = Running (Join t k') \<Longrightarrow> mp = M_join \<and> t = st_tid g"
  using assms by (cases mp; auto simp: consumer_reads main_end_def main_check_def)+

lemma prod_not_spawn:
  assumes "prod_does g outs pp act" "prod_couples g pp r outs"
  shows "act \<noteq> Running (Spawn x k)" "act \<noteq> Running (Join t k')" "act = Running (Exit v) \<Longrightarrow> pp = P_done \<and> v = 0"
  using assms by (cases pp; auto simp: producer_def producer_draws producer_end_def)+

lemma prodcon_step:
  assumes g: "scene_ok g" and inv: "prodcon_inv g s mp pp r outs" and st: "step s s'"
  shows "\<exists>mp' pp' r' outs'. prodcon_inv g s' mp' pp' r' outs' \<and> rank g mp' pp' r' outs' < rank g mp pp r outs"
proof -
  have i: "main_does g r outs mp (code s 1)" "prod_does g outs pp (code s (st_tid g))"
    "\<And>t. t \<noteq> 1 \<Longrightarrow> t \<noteq> st_tid g \<Longrightarrow> code s t = Absent" "\<And>t. self (envs s t) = t"
    "queue_ok g (memory s) mp pp r outs" "context_ok g (shared s) pp outs" "couples g mp pp r outs"
    "sent s = map int_bytes outs" "received s = map int_bytes (take r outs)"
    using inv by (simp_all add: prodcon_inv_def)
  have c: "main_couples g mp pp r outs" "prod_couples g pp r outs" using i(7) by (simp_all add: couples_def)
  have tid: "st_tid g \<noteq> 1" using g by (simp add: scene_ok_def)
  from st show ?thesis
  proof cases
    case (call t env w c act ev)
    consider "t = 1" | "t = st_tid g" | "t \<noteq> 1" "t \<noteq> st_tid g" by blast
    then show ?thesis
    proof cases
      case 1
      with call(3) have "main_next g mp pp r outs env w c act ev" using main_exec [OF g i(4) i(5,7,6,1)] by simp
      then obtain mp' pp' r' where "self env = 1" "main_does g r' outs mp' act" "prod_does g outs pp' = prod_does g outs pp"
        "queue_ok g w mp' pp' r' outs" "context_ok g c pp' outs" "couples g mp' pp' r' outs"
        "rank g mp' pp' r' outs < rank g mp pp r outs" "sends ev = []"
        "map int_bytes (take r' outs) = map int_bytes (take r outs) @ receives ev" unfolding main_next_def by blast
      with i tid 1 show ?thesis
        by (intro exI [of _ mp'] exI [of _ pp'] exI [of _ r'] exI [of _ outs]) (simp add: prodcon_inv_def call(1))
    next
      case 2
      with call(3) have "prod_next g mp pp r outs env w c act ev" using prod_exec [OF g i(4) i(5,7,6,2)] by simp
      then obtain mp' pp' outs' where "self env = st_tid g" "prod_does g outs' pp' act"
        "main_does g r outs' mp' = main_does g r outs mp" "queue_ok g w mp' pp' r outs'" "context_ok g c pp' outs'"
        "couples g mp' pp' r outs'" "rank g mp' pp' r outs' < rank g mp pp r outs" "receives ev = []"
        "map int_bytes outs' = map int_bytes outs @ sends ev" "take r outs' = take r outs" unfolding prod_next_def by blast
      with i tid 2 show ?thesis
        by (intro exI [of _ mp'] exI [of _ pp'] exI [of _ r] exI [of _ outs']) (simp add: prodcon_inv_def call(1))
    next
      case 3
      with call(3) i(3) show ?thesis by (simp add: exec_simps)
    qed
  next
    case (spawn t x k t')
    with main_not_spawn(1) [OF i(1) c(1)] prod_not_spawn(1) [OF i(2) c(2)] i(3) show ?thesis by (metis activity.distinct(1))
  next
    case (spawn_fails t x k e t')
    with main_not_spawn(1) [OF i(1) c(1)] prod_not_spawn(1) [OF i(2) c(2)] i(3) show ?thesis by (metis activity.distinct(1))
  next
    case (join t t' k v)
    have t: "t = 1" using join(3) prod_not_spawn(2) [OF i(2) c(2)] i(3) by (metis activity.distinct(1))
    with join main_not_spawn(2) [OF i(1) c(1)] have mp: "mp = M_join" "t' = st_tid g" by auto
    with join(4) prod_not_spawn(3) [OF i(2) c(2)] have pp: "pp = P_done" by auto
    have "k = (\<lambda>ret value. if ret \<noteq> 0 then Exit 1 else main_check (sum_of r outs))" using i(1) join(3) t mp by simp
    then have "prodcon_inv g s' M_check pp r outs"
      using i tid mp pp t join(1) by (auto simp: prodcon_inv_def couples_def queue_ok_def reader_open_def writer_open_def)
    moreover have "rank g M_check pp r outs < rank g mp pp r outs" by (simp add: rank_def mp)
    ultimately show ?thesis by blast
  qed
qed

lemma spurious_on_cond: "cond_spurious t (on_cond t' b) = Some c \<Longrightarrow> c = on_cond t' True \<and> \<not> b"
  by (auto simp: cond_spurious_def on_cond_def split: if_splits)

lemma prod_spurious_wake:
  "cond_spurious t (on_empty mp) = Some c \<Longrightarrow> c = on_empty (wake_main mp) \<and> mp = M_asleep False"
  "cond_spurious t (on_full t' pp) = Some c \<Longrightarrow> c = on_full t' (wake_prod pp) \<and> (\<exists>v. pp = P_asleep v False)"
  by (cases mp; auto simp: on_empty_def wake_main_def cond_spurious_def on_cond_def split: if_splits)
     (cases pp; auto simp: on_full_def wake_prod_def cond_spurious_def on_cond_def split: if_splits)

lemma queue_at_cond:
  assumes "queue_at w a mq ms" "backends w a' = Some mq'" "a' = a \<Longrightarrow> x = mq\<lparr>space_empty := c\<rparr> \<or> x = mq\<lparr>space_full := c\<rparr>"
  shows "queue_at (w\<lparr>backends := (backends w)(a' \<mapsto> x)\<rparr>) a (if a' = a then x else mq) ms"
  using assms ready_cond by (fastforce simp: queue_at_def)

lemma prodcon_spurious:
  assumes inv: "prodcon_inv g s mp pp r outs" and sp: "spurious s s'"
  shows "\<exists>mp' pp'. prodcon_inv g s' mp' pp' r outs \<and> rank g mp' pp' r outs \<le> Suc (rank g mp pp r outs)"
proof -
  have i: "main_does g r outs mp (code s 1)" "prod_does g outs pp (code s (st_tid g))"
    "\<forall>t. t \<noteq> 1 \<and> t \<noteq> st_tid g \<longrightarrow> code s t = Absent" "\<forall>t. self (envs s t) = t"
    "queue_ok g (memory s) mp pp r outs" "context_ok g (shared s) pp outs" "couples g mp pp r outs"
    "sent s = map int_bytes outs" "received s = map int_bytes (take r outs)"
    using inv by (simp_all add: prodcon_inv_def)
  show ?thesis
  proof (cases "reader_open mp \<or> writer_open pp")
    case False
    then have "queue_ok g w mp pp r outs" for w by (simp add: queue_ok_def)
    with sp i show ?thesis by (intro exI [of _ mp] exI [of _ pp]) (auto simp: prodcon_inv_def elim!: spuriousE)
  next
    case True
    obtain mq where mq: "queue_at (memory s) (st_addr g) mq (map int_bytes (drop r outs))"
      "counts mq ((if reader_open mp then [MSG_QUEUE_READER] else []) @ (if writer_open pp then [MSG_QUEUE_WRITER] else []))"
      "no_readers mq = (\<not> reader_open mp)" "no_writers mq = (\<not> writer_open pp)"
      "reader_open mp \<and> writer_open pp \<longrightarrow> rb_capacity (mq_buffer mq) = st_cap g"
      "space_empty mq = on_empty mp" "space_full mq = on_full (st_tid g) pp"
      using queue_okE [OF i(5) True] by metis
    have b: "backends (memory s) (st_addr g) = Some mq" using mq(1) by (simp add: queue_at_def)
    from sp show ?thesis
    proof cases
      case (wake_reader a mq1 t x)
      show ?thesis
      proof (cases "a = st_addr g")
        case True
        then have mq1: "mq1 = mq" using b wake_reader(3) by simp
        with prod_spurious_wake(1) [of t mp x] wake_reader(4) mq(6) have x: "x = on_empty (wake_main mp)" "mp = M_asleep False" by auto
        have "queue_ok g (memory s') (wake_main mp) pp r outs"
          unfolding queue_ok_def using queue_at_cond [OF mq(1) wake_reader(3), of "mq\<lparr>space_empty := x\<rparr>" x] mq True mq1 x(1)
          by (intro impI exI [of _ "mq\<lparr>space_empty := x\<rparr>"]) (simp add: wake_reader(1) counts_def)
        moreover have "couples g (wake_main mp) pp r outs" using i(7) by (auto simp: couples_def x(2) wake_main_def)
        ultimately show ?thesis
          using i x by (intro exI [of _ "wake_main mp"] exI [of _ pp]) (simp add: prodcon_inv_def wake_reader(1) rank_def wake_main_def)
      next
        case False
        then have "queue_ok g (memory s') mp pp r outs"
          unfolding queue_ok_def using queue_at_cond [OF mq(1) wake_reader(3), of "mq1\<lparr>space_empty := x\<rparr>"] mq
          by (intro impI exI [of _ mq]) (simp add: wake_reader(1))
        then show ?thesis using i by (intro exI [of _ mp] exI [of _ pp]) (simp add: prodcon_inv_def wake_reader(1))
      qed
    next
      case (wake_writer a mq1 t x)
      show ?thesis
      proof (cases "a = st_addr g")
        case True
        then have mq1: "mq1 = mq" using b wake_writer(3) by simp
        with prod_spurious_wake(2) [of t "st_tid g" pp x] wake_writer(4) mq(7)
        obtain v where x: "x = on_full (st_tid g) (wake_prod pp)" "pp = P_asleep v False" by auto
        have "queue_ok g (memory s') mp (wake_prod pp) r outs"
          unfolding queue_ok_def using queue_at_cond [OF mq(1) wake_writer(3), of "mq\<lparr>space_full := x\<rparr>" x] mq True mq1 x(1)
          by (intro impI exI [of _ "mq\<lparr>space_full := x\<rparr>"]) (simp add: wake_writer(1) counts_def)
        moreover have "couples g mp (wake_prod pp) r outs"
          using i(7) by (cases mp) (auto simp: couples_def x(2) wake_prod_def)
        ultimately show ?thesis
          using i x by (intro exI [of _ mp] exI [of _ "wake_prod pp"])
            (simp add: prodcon_inv_def wake_writer(1) rank_def wake_prod_def context_ok_def)
      next
        case False
        then have "queue_ok g (memory s') mp pp r outs"
          unfolding queue_ok_def using queue_at_cond [OF mq(1) wake_writer(3), of "mq1\<lparr>space_full := x\<rparr>"] mq
          by (intro impI exI [of _ mq]) (simp add: wake_writer(1))
        then show ?thesis using i by (intro exI [of _ mp] exI [of _ pp]) (simp add: prodcon_inv_def wake_writer(1))
      qed
    qed
  qed
qed

end
