(* ===== verification/Prodcon_Correct.thy ===== *)
theory Prodcon_Correct
  imports Prodcon_Runs
begin

text \<open>
  The correctness of \<open>prodcon.c\<close>, from its start: no assertion fails and the sums agree, the two
  threads never block each other, and every run is finite.
\<close>

section \<open>Some thread can go on\<close>

lemma main_can_step:
  assumes g: "scene_ok g" and inv: "prodcon_inv g s mp pp r outs" and mp: "mp = M_read \<or> mp = M_asleep True \<or> mp = M_close \<or> mp = M_check"
  shows "\<exists>env w c act ev. exec (envs s 1) (memory s) (shared s) (code s 1) env w c act ev"
proof -
  have i: "main_does g r outs mp (code s 1)" "self (envs s 1) = 1" "queue_ok g (memory s) mp pp r outs" "couples g mp pp r outs"
    using inv by (simp_all add: prodcon_inv_def)
  have h: "get_backend (st_rd g) = Some (st_addr g)" "get_flags (st_rd g) = MSG_QUEUE_READER" "self (envs s 1) \<noteq> 0" "st_rd g \<noteq> 0"
    using g i(2) by (simp_all add: scene_ok_def)
  have four: "length m \<le> unat (4 :: u64)" if "m \<in> set (map int_bytes (drop r outs))" for m using that by auto
  show ?thesis
  proof (cases "mp = M_check")
    case True
    with i(1) show ?thesis by (auto simp: main_check_def exec_simps)
  next
    case False
    then have ro: "reader_open mp" using mp by (auto simp: reader_open_def)
    obtain mq where mq: "queue_at (memory s) (st_addr g) mq (map int_bytes (drop r outs))"
      "counts mq (MSG_QUEUE_READER # (if writer_open pp then [MSG_QUEUE_WRITER] else []))"
      "no_writers mq = (\<not> writer_open pp)" "space_empty mq = on_empty mp" "space_full mq = on_full (st_tid g) pp"
      using queue_okE [OF i(3)] ro by auto
    have wr: "\<not> no_writers mq" if "map int_bytes (drop r outs) = []" "mp \<noteq> M_close"
      using that i(4) mp mq(3) False by (auto simp: couples_def writer_open_def)
    from mp False consider "mp = M_read" | "mp = M_asleep True" | "mp = M_close" by blast
    then show ?thesis
    proof cases
      case 1
      then have r: "r \<le> nat (st_n g)" using i(4) by (simp add: couples_def)
      obtain ret out' w' where "msg_queue_read demo_chance (envs s 1) (memory s) (st_rd g) [0, 0, 0, 0] 4 = Some (ret, out', envs s 1, w')"
        using msg_queue_read_effect [OF mq(1) h(3,1,2) wr four, of "[0, 0, 0, 0]" demo_chance] 1 by auto
      from can_read [OF _ this] show ?thesis using i(1) 1 consumer_reads [OF r] by simp
    next
      case 2
      then obtain out k where a: "length out = 4" "code s 1 = In_read (st_rd g) out 4 k" using i(1) by auto
      have w: "self (envs s 1) \<in> set (woken (space_empty mq))" using mq(4) 2 i(2) by (simp add: on_empty_def on_cond_def)
      obtain ret out' w' where "msg_queue_read_resume demo_chance (envs s 1) (memory s) (st_rd g) out 4 = Some (ret, out', envs s 1, w')"
        using msg_queue_read_resume_effect [OF mq(1) h(3,1,2) wr four _ w, of out demo_chance] a(1) 2 by auto
      from can_go_on(1) [OF this] show ?thesis unfolding a(2) .
    next
      case 3
      then have "length outs = Suc (nat (st_n g))" using i(4) by (auto simp: couples_def outs_ok_def)
      then have pp: "on_full (st_tid g) pp = \<lparr>waiting = [], woken = []\<rparr>"
        using i(4) by (cases pp) (auto simp: couples_def on_full_def next_ok_def)
      have "\<exists>w'. msg_queue_close (envs s 1) (memory s) (Some (st_rd g)) = Some (0, Some 0, envs s 1, w')"
      proof (cases "writer_open pp")
        case True
        then show ?thesis using msg_queue_close_effect [OF mq(1) h(3,1,4) mq(2)] h(2) by auto
      next
        case False
        then show ?thesis using msg_queue_close_last_effect [OF mq(1) h(3,1,4)] h(2) mq pp 3 by (auto simp: on_empty_def)
      qed
      then obtain w' where "msg_queue_close (envs s 1) (memory s) (Some (st_rd g)) = Some (0, Some 0, envs s 1, w')" ..
      from can_close [OF this] i(1) 3 show ?thesis by (simp add: main_end_def)
    qed
  qed
qed

lemma prod_can_step:
  assumes g: "scene_ok g" and inv: "prodcon_inv g s mp pp r outs" and pp: "pp \<noteq> P_done" "\<And>v. pp \<noteq> P_asleep v False"
  shows "\<exists>env w c act ev. exec (envs s (st_tid g)) (memory s) (shared s) (code s (st_tid g)) env w c act ev"
proof -
  let ?t = "st_tid g"
  let ?env = "envs s ?t"
  have i: "prod_does g outs pp (code s ?t)" "self ?env = ?t" "queue_ok g (memory s) mp pp r outs" "couples g mp pp r outs"
    using inv by (simp_all add: prodcon_inv_def)
  have h: "get_backend (st_wr g) = Some (st_addr g)" "get_flags (st_wr g) = MSG_QUEUE_WRITER" "self ?env \<noteq> 0" "st_wr g \<noteq> 0" "13 \<le> st_cap g"
    using g i(2) by (simp_all add: scene_ok_def)
  obtain mq where mq: "queue_at (memory s) (st_addr g) mq (map int_bytes (drop r outs))"
    "counts mq ((if reader_open mp then [MSG_QUEUE_READER] else []) @ [MSG_QUEUE_WRITER])" "no_readers mq = (\<not> reader_open mp)"
    "reader_open mp \<Longrightarrow> rb_capacity (mq_buffer mq) = st_cap g" "space_empty mq = on_empty mp" "space_full mq = on_full ?t pp"
    using queue_okE [OF i(3)] pp(1) by (auto simp: writer_open_def)
  have len: "(4 :: u64) \<noteq> 0" "unat (4 :: u64) \<le> length (int_bytes v)" "unat (4 :: u64) < 2 ^ 63" for v by simp_all
  have ro: "reader_open mp" if "length outs \<le> nat (st_n g)"
    using i(4) that pp(1) by (cases mp) (auto simp: couples_def reader_open_def)
  show ?thesis
  proof (cases pp)
    case (P_write v)
    then have "reader_open mp" using i(4) by (intro ro) (auto simp: couples_def next_ok_def)
    with mq(3,4) h(5) have "\<not> no_readers mq" "unat (4 :: u64) + 8 < rb_capacity (mq_buffer mq)" by simp_all
    then obtain ret w' where "msg_queue_write demo_chance ?env (memory s) (st_wr g) (int_bytes v) 4 = Some (ret, ?env, w')"
      using msg_queue_write_effect [OF mq(1) h(3,1,2) _ len(1,2) _ len(3)] by blast
    from can_write [OF this] i(1) P_write show ?thesis by simp
  next
    case (P_asleep v b)
    then have "self ?env \<in> set (woken (space_full mq))" using mq(6) i(2) pp(2) by (auto simp: on_full_def on_cond_def)
    then obtain ret w' where "msg_queue_write_resume demo_chance ?env (memory s) (st_wr g) (int_bytes v) 4 = Some (ret, ?env, w')"
      using msg_queue_write_resume_effect [OF mq(1) h(3,1,2) _ len(1,2,3)] by blast
    from can_go_on(2) [OF this] i(1) P_asleep show ?thesis by simp
  next
    case P_rand
    then have "0 < length outs" "length outs \<le> nat (st_n g)" using i(4) by (auto simp: couples_def)
    from producer_draws [OF this] i(1) P_rand show ?thesis
      by (auto simp: exec_simps intro: exI [of _ 0] simp: RAND_MAX_def)
  next
    case P_close
    have "\<exists>w'. msg_queue_close ?env (memory s) (Some (st_wr g)) = Some (0, Some 0, ?env, w')"
    proof (cases "reader_open mp")
      case True
      then show ?thesis using msg_queue_close_effect [OF mq(1) h(3,1,4) mq(2)] h(2) by auto
    next
      case False
      then have "waiting (space_empty mq) = []" using mq(5) by (cases mp) (simp_all add: on_empty_def reader_open_def)
      then show ?thesis using False msg_queue_close_last_effect [OF mq(1) h(3,1,4)] h(2) mq P_close by (auto simp: on_full_def)
    qed
    then obtain w' where "msg_queue_close ?env (memory s) (Some (st_wr g)) = Some (0, Some 0, ?env, w')" ..
    from can_close [OF this] i(1) P_close show ?thesis by simp
  qed (use i(1) pp in \<open>auto simp: producer_def producer_end_def exec_simps\<close>)
qed

lemma prodcon_finished:
  assumes "prodcon_inv g s mp pp r outs" "scene_ok g"
  shows "finished s \<longleftrightarrow> mp = M_done" "code s t \<noteq> Running Abort"
    "code s 1 = Running (Exit v) \<Longrightarrow> v = 0 \<and> pc_sum (shared s) = all_sum outs \<and> pp = P_done"
proof -
  have i: "main_does g r outs mp (code s 1)" "prod_does g outs pp (code s (st_tid g))"
    "\<And>t. t \<noteq> 1 \<Longrightarrow> t \<noteq> st_tid g \<Longrightarrow> code s t = Absent" "main_couples g mp pp r outs" "prod_couples g pp r outs"
    "context_ok g (shared s) pp outs"
    using assms(1) by (simp_all add: prodcon_inv_def couples_def)
  have m: "code s 1 \<noteq> Running Abort" "code s 1 = Running (Exit v) \<longleftrightarrow> mp = M_done \<and> v = 0" for v
    using i(1,4) by (cases mp; auto simp: consumer_reads main_end_def main_check_def)+
  have p: "code s (st_tid g) \<noteq> Running Abort"
    using i(2,5) by (cases pp) (auto simp: producer_def producer_draws producer_end_def)
  show "code s t \<noteq> Running Abort" for t
    using m(1) p i(3) by (cases "t = 1"; cases "t = st_tid g") auto
  then show "finished s \<longleftrightarrow> mp = M_done" using m(2) by (auto simp: finished_def)
  show "v = 0 \<and> pc_sum (shared s) = all_sum outs \<and> pp = P_done" if "code s 1 = Running (Exit v)"
    using that m(2) i(4,6) by (auto simp: context_ok_def)
qed

lemma prodcon_progress:
  assumes g: "scene_ok g" and inv: "prodcon_inv g s mp pp r outs" and run: "\<not> finished s"
  shows "\<exists>s'. step s s'"
proof -
  have c: "outs_ok g outs" "r \<le> length outs" "main_couples g mp pp r outs" "prod_couples g pp r outs"
    "prod_does g outs pp (code s (st_tid g))" "main_does g r outs mp (code s 1)"
    using inv by (simp_all add: prodcon_inv_def couples_def)
  have mp: "mp \<noteq> M_done" using run prodcon_finished(1) [OF inv g] by simp
  have "(mp = M_read \<or> mp = M_asleep True \<or> mp = M_close \<or> mp = M_check) \<or> mp = M_asleep False \<or> mp = M_join"
    using mp by (cases mp) auto
  then consider "mp = M_read \<or> mp = M_asleep True \<or> mp = M_close \<or> mp = M_check" | "mp = M_asleep False" | "mp = M_join"
    by blast
  then show ?thesis
  proof cases
    case 1
    from main_can_step [OF g inv 1] run show ?thesis by (blast intro: step.call)
  next
    case 2
    then have r: "r = length outs" "r \<le> nat (st_n g)" using c(3) by simp_all
    have "\<not> no_space g (length outs - r)" using r g by (simp add: no_space_def scene_ok_def)
    then have "pp \<noteq> P_done" "pp \<noteq> P_asleep v False" for v using c(4) r by auto
    from prod_can_step [OF g inv this] run show ?thesis by (blast intro: step.call)
  next
    case 3
    show ?thesis
    proof (cases "pp = P_done")
      case True
      with 3 c(5,6) run show ?thesis by (auto intro: step.join)
    next
      case False
      have "pp \<noteq> P_asleep v False" for v using c(2-4) 3 by (auto simp: next_ok_def)
      from prod_can_step [OF g inv False this] run show ?thesis by (blast intro: step.call)
    qed
  qed
qed

section \<open>The start of the program\<close>

definition spawn_code :: "u64 \<Rightarrow> int \<Rightarrow> producer_context thread" where
  "spawn_code q n = Spawn producer (\<lambda>ret thread. if ret \<noteq> 0 then Exit 1 else main_consumer q n thread)"

definition context_code :: "u64 \<Rightarrow> int \<Rightarrow> u64 \<Rightarrow> producer_context thread" where
  "context_code q n writer =
     Access (\<lambda>context. (context\<lparr>pc_queue := writer, pc_numberCount := n\<rparr>, spawn_code q n))"

definition create_code :: "int \<Rightarrow> int \<Rightarrow> producer_context thread" where
  "create_code cap n = Create (word_of_int cap) MSG_QUEUE_READER (\<lambda>q.
     if q = 0 then Exit 1 else Open q MSG_QUEUE_WRITER (context_code q n))"

lemma prodcon_main_code:
  "3 \<le> length argv \<Longrightarrow> prodcon_main argv = create_code (to_int (strtol (argv ! 1))) (to_int (strtol (argv ! 2)))"
  by (simp add: prodcon_main_def create_code_def context_code_def spawn_code_def fun_eq_iff Let_def)

text \<open>The new queue, with the handles \<open>fs\<close>.\<close>

definition fresh_queue :: "scene \<Rightarrow> queue_mem \<Rightarrow> u32 list \<Rightarrow> bool" where
  "fresh_queue g w fs \<longleftrightarrow> (\<exists>mq. queue_at w (st_addr g) mq [] \<and> counts mq fs \<and> rb_capacity (mq_buffer mq) = st_cap g \<and>
     \<not> no_readers mq \<and> \<not> no_writers mq \<and> space_full mq = \<lparr>waiting = [], woken = []\<rparr> \<and>
     space_empty mq = \<lparr>waiting = [], woken = []\<rparr>) \<and> st_addr g \<noteq> 0 \<and> st_addr g AND 7 = 0 \<and>
     get_backend (st_rd g) = Some (st_addr g) \<and> get_flags (st_rd g) = MSG_QUEUE_READER \<and> st_rd g \<noteq> 0"

definition has_writer :: "scene \<Rightarrow> bool" where
  "has_writer g \<longleftrightarrow> get_backend (st_wr g) = Some (st_addr g) \<and> get_flags (st_wr g) = MSG_QUEUE_WRITER \<and> st_wr g \<noteq> 0"

text \<open>\<open>j\<close> steps before the producer runs; with \<open>j = 0\<close> the program has given up.\<close>

definition starting :: "int \<Rightarrow> int \<Rightarrow> producer_context process \<Rightarrow> nat \<Rightarrow> bool" where
  "starting cap n s j \<longleftrightarrow> (\<forall>t. t \<noteq> 1 \<longrightarrow> code s t = Absent) \<and> (\<forall>t. self (envs s t) = t) \<and>
     sent s = [] \<and> received s = [] \<and>
     (j = 4 \<and> code s 1 = Running (create_code cap n) \<or>
      j = 0 \<and> code s 1 = Running (Exit 1) \<or>
      (\<exists>g. st_cap g = nat cap \<and> st_n g = n \<and>
         (j = 3 \<and> code s 1 = Running (Open (st_rd g) MSG_QUEUE_WRITER (context_code (st_rd g) n)) \<and>
            fresh_queue g (memory s) [MSG_QUEUE_READER] \<or>
          j = 2 \<and> code s 1 = Running (context_code (st_rd g) n (st_wr g)) \<and>
            fresh_queue g (memory s) [MSG_QUEUE_WRITER, MSG_QUEUE_READER] \<and> has_writer g \<or>
          j = 1 \<and> code s 1 = Running (spawn_code (st_rd g) n) \<and>
            fresh_queue g (memory s) [MSG_QUEUE_WRITER, MSG_QUEUE_READER] \<and> has_writer g \<and>
            pc_queue (shared s) = st_wr g \<and> pc_numberCount (shared s) = n)))"

lemma cap_word:
  assumes "13 \<le> cap" "cap < 2 ^ 31"
  shows "9 \<le> (word_of_int cap :: u64)" "(word_of_int cap :: u64) < 2 ^ 63" "unat (word_of_int cap :: u64) = nat cap"
proof -
  have u: "uint (word_of_int cap :: u64) = cap" using assms by (simp add: uint_word_of_int)
  then show "unat (word_of_int cap :: u64) = nat cap" by (simp add: unat_eq_nat_uint)
  show "9 \<le> (word_of_int cap :: u64)" using assms by (simp add: word_le_def u)
  show "(word_of_int cap :: u64) < 2 ^ 63" using assms by (simp add: word_less_def u)
qed

lemma create_next:
  assumes "exec env w c (Running (create_code cap n)) env' w' c' act ev" "self env = 1" and cap: "13 \<le> cap" "cap < 2 ^ 31"
  shows "self env' = 1 \<and> ev = Quiet \<and> (act = Running (Exit 1) \<or> (\<exists>g. st_cap g = nat cap \<and> st_n g = n \<and>
    act = Running (Open (st_rd g) MSG_QUEUE_WRITER (context_code (st_rd g) n)) \<and> fresh_queue g w' [MSG_QUEUE_READER]))"
  using assms(1) unfolding create_code_def
proof (rule exec_CreateE)
  fix alloc buf e h assume q: "ev = Quiet" and a: "c' = c" "act = Running (if h = 0 then Exit 1 else Open h MSG_QUEUE_WRITER (context_code h n))"
    "malloc_ok w (word_of_int cap) alloc buf"
    "msg_queue_create env w alloc buf e (word_of_int cap) MSG_QUEUE_READER = Some (h, env', w')"
  have "self env \<noteq> 0" "MSG_QUEUE_READER AND NOT ALL_FLAGS = 0" using assms(2) by (simp_all add: ALL_FLAGS_def)
  note cs = msg_queue_create_cases [OF a(3) this(1) cap_word(1,2) [OF cap] this(2) a(4)]
  show ?thesis
  proof (cases "h = 0")
    case True
    then show ?thesis using a(2) cs(2) assms(2) q by simp
  next
    case False
    with cs(1) obtain a' mq where "queue_at w' a' mq []" "a' \<noteq> 0" "a' AND 7 = 0" "get_backend h = Some a'"
      "get_flags h = MSG_QUEUE_READER" "counts mq [MSG_QUEUE_READER]" "rb_capacity (mq_buffer mq) = nat cap" "\<not> no_readers mq"
      "\<not> no_writers mq" "space_full mq = \<lparr>waiting = [], woken = []\<rparr>" "space_empty mq = \<lparr>waiting = [], woken = []\<rparr>"
      by (auto simp: cap_word(3) [OF cap])
    then have "fresh_queue \<lparr>st_addr = a', st_rd = h, st_wr = 0, st_tid = 0, st_cap = nat cap, st_n = n\<rparr> w' [MSG_QUEUE_READER]"
      using False by (auto simp: fresh_queue_def)
    with a(2) cs(2) assms(2) q False show ?thesis
      by (intro conjI disjI2 exI [of _ "\<lparr>st_addr = a', st_rd = h, st_wr = 0, st_tid = 0, st_cap = nat cap, st_n = n\<rparr>"]) simp_all
  qed
qed

lemma open_next:
  assumes "exec env w c (Running (Open (st_rd g) MSG_QUEUE_WRITER k)) env' w' c' act ev" "self env = 1"
    and q: "fresh_queue g w [MSG_QUEUE_READER]"
  shows "\<exists>h. env' = env \<and> ev = Quiet \<and> act = Running (k h) \<and> fresh_queue (g\<lparr>st_wr := h\<rparr>) w' [MSG_QUEUE_WRITER, MSG_QUEUE_READER] \<and>
    has_writer (g\<lparr>st_wr := h\<rparr>)"
  using assms(1)
proof (rule exec_OpenE)
  fix h assume ev: "ev = Quiet" and a: "c' = c" "act = Running (k h)" "msg_queue_open env w (st_rd g) MSG_QUEUE_WRITER = Some (h, env', w')"
  obtain mq where mq: "queue_at w (st_addr g) mq []" "counts mq [MSG_QUEUE_READER]" "rb_capacity (mq_buffer mq) = st_cap g"
    "\<not> no_readers mq" "\<not> no_writers mq" "space_full mq = \<lparr>waiting = [], woken = []\<rparr>" "space_empty mq = \<lparr>waiting = [], woken = []\<rparr>"
    "st_addr g \<noteq> 0" "st_addr g AND 7 = 0" "get_backend (st_rd g) = Some (st_addr g)" "st_rd g \<noteq> 0"
    using q by (auto simp: fresh_queue_def)
  have "self env \<noteq> 0" "MSG_QUEUE_WRITER AND NOT ALL_FLAGS = 0" "length [MSG_QUEUE_READER] < 2 ^ 64 - 1"
    using assms(2) by (simp_all add: ALL_FLAGS_def)
  from msg_queue_open_effect [OF mq(1) this(1) mq(10,11,9,8,2) this(3,2)] a(3) obtain mq' where
    "env' = env" "queue_at w' (st_addr g) mq' []" "get_backend h = Some (st_addr g)" "get_flags h = MSG_QUEUE_WRITER"
    "counts mq' [MSG_QUEUE_WRITER, MSG_QUEUE_READER]" "mq_buffer mq' = mq_buffer mq" "space_full mq' = space_full mq"
    "space_empty mq' = space_empty mq" "no_readers mq' = (no_readers mq \<and> \<not> reads MSG_QUEUE_WRITER)"
    "no_writers mq' = (no_writers mq \<and> \<not> writes MSG_QUEUE_WRITER)" by auto
  moreover have "h \<noteq> 0" using calculation(3) by (auto simp: get_backend_def)
  ultimately show ?thesis
    using q mq a(2) ev by (intro exI [of _ h]) (auto simp: fresh_queue_def has_writer_def)
qed

text \<open>The producer starts: the invariant holds.\<close>

lemma spawn_next:
  assumes q: "fresh_queue g (memory s) [MSG_QUEUE_WRITER, MSG_QUEUE_READER]" "has_writer g" and none: "sent s = []" "received s = []" and t: "t \<noteq> 0" "t \<noteq> 1"
    and ab: "\<forall>t. t \<noteq> 1 \<longrightarrow> code s t = Absent" "\<forall>t. self (envs s t) = t"
    and c: "pc_queue (shared s) = st_wr g" "pc_numberCount (shared s) = st_n g"
    and n: "13 \<le> st_cap g" "- (2 ^ 31) \<le> st_n g" "st_n g \<le> 34087042"
  shows "scene_ok (g\<lparr>st_tid := t\<rparr>) \<and> prodcon_inv (g\<lparr>st_tid := t\<rparr>)
    (s\<lparr>envs := (envs s)(t := fresh_env t),
       code := (code s)(1 := Running (main_consumer (st_rd g) (st_n g) t), t := Running producer)\<rparr>) M_read P_start 0 []"
proof -
  obtain mq where mq: "queue_at (memory s) (st_addr g) mq []" "counts mq [MSG_QUEUE_WRITER, MSG_QUEUE_READER]"
    "rb_capacity (mq_buffer mq) = st_cap g" "\<not> no_readers mq" "\<not> no_writers mq" "space_full mq = \<lparr>waiting = [], woken = []\<rparr>"
    "space_empty mq = \<lparr>waiting = [], woken = []\<rparr>"
    using q(1) by (auto simp: fresh_queue_def)
  have "counts mq [MSG_QUEUE_READER, MSG_QUEUE_WRITER]" using mq(2) by (simp add: counts_def reads_def writes_def)
  with mq have "queue_ok (g\<lparr>st_tid := t\<rparr>) (memory s) M_read P_start 0 []"
    by (auto simp: queue_ok_def reader_open_def writer_open_def on_empty_def on_full_def)
  moreover have "scene_ok (g\<lparr>st_tid := t\<rparr>)"
    using q t n by (simp add: scene_ok_def fresh_queue_def has_writer_def)
  ultimately show ?thesis
    using t ab c none by (simp add: prodcon_inv_def consumer_at_def context_ok_def couples_def outs_ok_def fresh_env_def)
qed

definition running_ok :: "int \<Rightarrow> int \<Rightarrow> producer_context process \<Rightarrow> nat \<Rightarrow> bool" where
  "running_ok cap n s k \<longleftrightarrow> (\<exists>g mp pp r outs. scene_ok g \<and> st_n g = n \<and> st_cap g = nat cap \<and>
     prodcon_inv g s mp pp r outs \<and> k = rank g mp pp r outs)"

lemma context_open:
  "context_code q n w \<noteq> Create a b k1" "context_code q n w \<noteq> Open x y k2" "spawn_code q n \<noteq> Access f"
  by (simp_all add: context_code_def spawn_code_def)

lemma starting_step:
  assumes st: "starting cap n s j" and step: "step s s'"
    and n: "13 \<le> cap" "cap < 2 ^ 31" "- (2 ^ 31) \<le> n" "n \<le> 34087042"
  shows "(j = 4 \<or> j = 1) \<and> starting cap n s' 0 \<or> 1 < j \<and> starting cap n s' (j - 1) \<or>
    j = 1 \<and> running_ok cap n s' (6 * nat n + 11)"
proof -
  have ab: "\<And>t. t \<noteq> 1 \<Longrightarrow> code s t = Absent" "\<And>t. self (envs s t) = t" "sent s = []" "received s = []" using st by (simp_all add: starting_def)
  have run: "\<not> finished s" using step by cases
  then have j0: "code s 1 \<noteq> Running (Exit 1)" by (auto simp: finished_def)
  have one: "t = 1" if "code s t \<noteq> Absent" for t using ab(1) that by blast
  from st j0 consider (c4) "j = 4" "code s 1 = Running (create_code cap n)"
    | (c3) g where "j = 3" "st_cap g = nat cap" "st_n g = n" "fresh_queue g (memory s) [MSG_QUEUE_READER]"
        "code s 1 = Running (Open (st_rd g) MSG_QUEUE_WRITER (context_code (st_rd g) n))"
    | (c2) g where "j = 2" "st_cap g = nat cap" "st_n g = n" "fresh_queue g (memory s) [MSG_QUEUE_WRITER, MSG_QUEUE_READER]"
        "code s 1 = Running (context_code (st_rd g) n (st_wr g))" "has_writer g"
    | (c1) g where "j = 1" "st_cap g = nat cap" "st_n g = n" "fresh_queue g (memory s) [MSG_QUEUE_WRITER, MSG_QUEUE_READER]"
        "code s 1 = Running (spawn_code (st_rd g) n)" "has_writer g" "pc_queue (shared s) = st_wr g" "pc_numberCount (shared s) = n"
    unfolding starting_def by blast
  then show ?thesis
  proof cases
    case c4
    obtain env w c act ev where s': "s' = s\<lparr>memory := w, shared := c, envs := (envs s)(1 := env), code := (code s)(1 := act),
        sent := sent s @ sends ev, received := received s @ receives ev\<rparr>"
      and ex: "exec (envs s 1) (memory s) (shared s) (code s 1) env w c act ev"
      using only_main_steps [OF step ab(1)] c4(2) by (auto simp: create_code_def)
    from create_next [OF ex [unfolded c4(2)] ab(2) n(1,2)] have
      "self env = 1" "ev = Quiet" and a: "act = Running (Exit 1) \<or> (\<exists>g. st_cap g = nat cap \<and> st_n g = n \<and>
        act = Running (Open (st_rd g) MSG_QUEUE_WRITER (context_code (st_rd g) n)) \<and> fresh_queue g w [MSG_QUEUE_READER])"
      by blast+
    from a have "starting cap n s' 0 \<or> starting cap n s' 3"
      using ab \<open>self env = 1\<close> \<open>ev = Quiet\<close> by (auto simp: starting_def s')
    with c4(1) show ?thesis by auto
  next
    case c3
    obtain env w c act ev where s': "s' = s\<lparr>memory := w, shared := c, envs := (envs s)(1 := env), code := (code s)(1 := act),
        sent := sent s @ sends ev, received := received s @ receives ev\<rparr>"
      and ex: "exec (envs s 1) (memory s) (shared s) (code s 1) env w c act ev"
      using only_main_steps [OF step ab(1)] c3(5) by auto
    from open_next [OF ex [unfolded c3(5)] ab(2) c3(4)] obtain h where "env = envs s 1" "ev = Quiet"
      "act = Running (context_code (st_rd g) n h)" "fresh_queue (g\<lparr>st_wr := h\<rparr>) w [MSG_QUEUE_WRITER, MSG_QUEUE_READER]"
      "has_writer (g\<lparr>st_wr := h\<rparr>)" by blast
    then have "starting cap n s' 2"
      using ab c3(2,3) by (auto simp: starting_def s' intro!: exI [of _ "g\<lparr>st_wr := h\<rparr>"])
    with c3(1) show ?thesis by simp
  next
    case c2
    have "s' = s\<lparr>shared := (shared s)\<lparr>pc_queue := st_wr g, pc_numberCount := n\<rparr>, code := (code s)(1 := Running (spawn_code (st_rd g) n))\<rparr>"
      using only_main_steps [OF step ab(1)] c2(5) by (auto simp: context_code_def exec_simps)
    then have "starting cap n s' 1" using ab c2(2-4,6) by (auto simp: starting_def)
    with c2(1) show ?thesis by simp
  next
    case c1
    from step show ?thesis
    proof cases
      case (call t env w c act ev)
      with one [of t] c1(5) show ?thesis by (cases "t = 1") (auto simp: exec_simps spawn_code_def ab(1))
    next
      case (spawn t x k t')
      then have t: "t = 1" "t' \<noteq> 1" using one [of t] c1(5) by auto
      with spawn c1(5) have k: "x = producer" "k 0 t' = main_consumer (st_rd g) n t'" by (auto simp: spawn_code_def)
      have "scene_ok (g\<lparr>st_tid := t'\<rparr>) \<and> prodcon_inv (g\<lparr>st_tid := t'\<rparr>) s' M_read P_start 0 []"
        using spawn_next [OF c1(4,6) ab(3,4) spawn(5) t(2)] ab(1,2) c1(2,3,7,8) n by (simp add: spawn(1) t(1) k)
      then have "running_ok cap n s' (6 * nat n + 11)"
        using c1(2,3) unfolding running_ok_def
        by (intro exI [of _ "g\<lparr>st_tid := t'\<rparr>"] exI [of _ M_read] exI [of _ P_start] exI [of _ 0] exI [of _ "[]"])
           (simp add: rank_def)
      with c1(1) show ?thesis by simp
    next
      case (spawn_fails t x k e t')
      then have t: "t = 1" using one [of t] by auto
      with spawn_fails c1(5) have "k e t' = Exit 1" by (auto simp: spawn_code_def)
      then have "starting cap n s' 0" using ab by (auto simp: starting_def spawn_fails(1) t)
      with c1(1) show ?thesis by simp
    next
      case (join t t' k v)
      then show ?thesis using one [of t] c1(5) by (auto simp: spawn_code_def)
    qed
  qed
qed

lemma fresh_queue_spurious:
  assumes "spurious s s'" "fresh_queue g (memory s) fs"
  shows "fresh_queue g (memory s') fs"
proof -
  obtain mq where mq: "queue_at (memory s) (st_addr g) mq []" "space_full mq = \<lparr>waiting = [], woken = []\<rparr>"
    "space_empty mq = \<lparr>waiting = [], woken = []\<rparr>" "counts mq fs" "rb_capacity (mq_buffer mq) = st_cap g"
     "\<not> no_readers mq" "\<not> no_writers mq"
    using assms(2) by (auto simp: fresh_queue_def)
  have "queue_at (memory s') (st_addr g) mq []"
    using assms(1)
  proof cases
    case (wake_reader a mq1 t x)
    then have "a \<noteq> st_addr g" using mq(1,3) by (auto simp: queue_at_def cond_spurious_def)
    then show ?thesis using queue_at_cond [OF mq(1) wake_reader(3)] by (simp add: wake_reader(1))
  next
    case (wake_writer a mq1 t x)
    then have "a \<noteq> st_addr g" using mq(1,2) by (auto simp: queue_at_def cond_spurious_def)
    then show ?thesis using queue_at_cond [OF mq(1) wake_writer(3)] by (simp add: wake_writer(1))
  qed
  with assms(2) mq show ?thesis by (auto simp: fresh_queue_def)
qed

lemma starting_spurious:
  assumes "starting cap n s j" "spurious s s'"
  shows "starting cap n s' j"
proof -
  have same: "code s' = code s" "envs s' = envs s" "shared s' = shared s" "sent s' = sent s" "received s' = received s" using assms(2) by (auto elim: spuriousE)
  show ?thesis
    using assms(1) fresh_queue_spurious [OF assms(2)] unfolding starting_def same by blast
qed

lemma starting_can_step:
  assumes st: "starting cap n s j" and run: "\<not> finished s"
  shows "\<exists>s'. step s s'"
proof -
  have env: "self (envs s 1) = 1" using st by (simp add: starting_def)
  have "code s 1 \<noteq> Running (Exit 1)" using run by (auto simp: finished_def)
  with st consider (c4) "code s 1 = Running (create_code cap n)"
    | (c3) g k where "fresh_queue g (memory s) [MSG_QUEUE_READER]" "code s 1 = Running (Open (st_rd g) MSG_QUEUE_WRITER k)"
    | (c2) q w where "code s 1 = Running (context_code q n w)"
    | (c1) q where "code s 1 = Running (spawn_code q n)"
    unfolding starting_def by blast
  then show ?thesis
  proof cases
    case c4
    have "\<exists>e. msg_queue_create (envs s 1) (memory s) None None 0 (word_of_int cap) MSG_QUEUE_READER = Some (0, e, memory s)"
      by (simp add: msg_queue_create_def)
    then obtain e where "msg_queue_create (envs s 1) (memory s) None None 0 (word_of_int cap) MSG_QUEUE_READER = Some (0, e, memory s)" ..
    from exec.create [OF _ this, where k = "\<lambda>q. if q = 0 then Exit 1 else Open q MSG_QUEUE_WRITER (context_code q n)" and c = "shared s"]
    have "exec (envs s 1) (memory s) (shared s) (code s 1) e (memory s) (shared s) (Running (Exit 1)) Quiet"
      by (simp add: malloc_ok_def c4 create_code_def)
    with run show ?thesis by (blast intro: step.call)
  next
    case c3
    have "self (envs s 1) \<noteq> 0" "MSG_QUEUE_WRITER AND NOT ALL_FLAGS = 0" "length [MSG_QUEUE_READER] < 2 ^ 64 - 1"
      using env by (simp_all add: ALL_FLAGS_def)
    moreover obtain mq where mq: "queue_at (memory s) (st_addr g) mq []" "counts mq [MSG_QUEUE_READER]"
        "get_backend (st_rd g) = Some (st_addr g)" "st_rd g \<noteq> 0" "st_addr g AND 7 = 0" "st_addr g \<noteq> 0"
      using c3(1) by (auto simp: fresh_queue_def)
    ultimately obtain h w where "msg_queue_open (envs s 1) (memory s) (st_rd g) MSG_QUEUE_WRITER = Some (h, envs s 1, w)"
      using msg_queue_open_effect [OF mq(1) _ mq(3-6,2)] by blast
    from exec.open_queue [OF this, where k = k and c = "shared s"]
    have "exec (envs s 1) (memory s) (shared s) (code s 1) (envs s 1) w (shared s) (Running (k h)) Quiet" by (simp add: c3(2))
    with run show ?thesis by (blast intro: step.call)
  next
    case c2
    then have "\<exists>w c act ev. exec (envs s 1) (memory s) (shared s) (code s 1) (envs s 1) w c act ev"
      by (simp add: context_code_def exec_simps)
    with run show ?thesis by (blast intro: step.call)
  next
    case c1
    show ?thesis by (rule exI, rule step.spawn_fails [OF run c1 [unfolded spawn_code_def], of 1]) simp
  qed
qed

section \<open>Every run\<close>

text \<open>A command line with room for a message in the queue and few enough numbers for their sum to
  fit an \<open>int\<close>.\<close>

definition args_ok :: "string list \<Rightarrow> int \<Rightarrow> int \<Rightarrow> bool" where
  "args_ok argv cap n \<longleftrightarrow> 3 \<le> length argv \<and> to_int (strtol (argv ! 1)) = cap \<and> to_int (strtol (argv ! 2)) = n \<and>
     13 \<le> cap \<and> n \<le> 34087042"

lemma to_int_range: "- (2 ^ 31) \<le> to_int v" "to_int v < 2 ^ 31"
  using sint_ge [of "word_of_int v :: u32"] sint_lt [of "word_of_int v :: u32"] by (simp_all add: to_int_def)

definition run_ok :: "int \<Rightarrow> int \<Rightarrow> producer_context process \<Rightarrow> nat \<Rightarrow> bool" where
  "run_ok cap n s k \<longleftrightarrow> (\<exists>j. starting cap n s j \<and> k = 6 * nat n + 11 + j) \<or> running_ok cap n s k"

lemma run_ok_boot: "args_ok argv cap n \<Longrightarrow> run_ok cap n (boot (prodcon_main argv) c) (6 * nat n + 15)"
  unfolding run_ok_def starting_def
  by (intro disjI1 exI [of _ 4]) (simp add: boot_def args_ok_def prodcon_main_code fresh_env_def)

lemma run_ok_step:
  assumes a: "args_ok argv cap n" and ok: "run_ok cap n s k" and st: "step s s'"
  shows "\<exists>k' < k. run_ok cap n s' k'"
proof -
  have n: "13 \<le> cap" "cap < 2 ^ 31" "- (2 ^ 31) \<le> n" "n \<le> 34087042"
    using a to_int_range by (auto simp: args_ok_def)
  from ok consider j where "starting cap n s j" "k = 6 * nat n + 11 + j" | "running_ok cap n s k"
    unfolding run_ok_def by blast
  then show ?thesis
  proof cases
    case 1
    have "j \<noteq> 0"
    proof
      assume "j = 0"
      with 1(1) have "finished s" by (auto simp: starting_def finished_def)
      with st show False by cases simp_all
    qed
    from starting_step [OF 1(1) st n] consider "starting cap n s' 0" | "starting cap n s' (j - 1)" | "running_ok cap n s' (6 * nat n + 11)"
      by blast
    then show ?thesis
    proof cases
      assume "starting cap n s' 0"
      with 1(2) \<open>j \<noteq> 0\<close> show ?thesis by (intro exI [of _ "6 * nat n + 11"]) (auto simp: run_ok_def)
    next
      assume "starting cap n s' (j - 1)"
      with 1(2) \<open>j \<noteq> 0\<close> show ?thesis by (intro exI [of _ "6 * nat n + 11 + (j - 1)"]) (auto simp: run_ok_def)
    next
      assume "running_ok cap n s' (6 * nat n + 11)"
      with 1(2) \<open>j \<noteq> 0\<close> show ?thesis by (intro exI [of _ "6 * nat n + 11"]) (simp add: run_ok_def)
    qed
  next
    case 2
    then obtain g mp pp r outs where g: "scene_ok g" "st_n g = n" "st_cap g = nat cap" "prodcon_inv g s mp pp r outs"
      "k = rank g mp pp r outs" unfolding running_ok_def by blast
    obtain mp' pp' r' outs' where "prodcon_inv g s' mp' pp' r' outs'" "rank g mp' pp' r' outs' < rank g mp pp r outs"
      using prodcon_step [OF g(1,4) st] by blast
    with g show ?thesis unfolding run_ok_def running_ok_def by blast
  qed
qed

lemma run_ok_spurious:
  assumes "run_ok cap n s k" "spurious s s'"
  shows "\<exists>k' \<le> Suc k. run_ok cap n s' k'"
  using assms(1) unfolding run_ok_def
proof
  assume "\<exists>j. starting cap n s j \<and> k = 6 * nat n + 11 + j"
  with starting_spurious [OF _ assms(2)] show "\<exists>k' \<le> Suc k. (\<exists>j. starting cap n s' j \<and> k' = 6 * nat n + 11 + j) \<or> running_ok cap n s' k'"
    by (intro exI [of _ k]) auto
next
  assume "running_ok cap n s k"
  then obtain g mp pp r outs where g: "scene_ok g" "st_n g = n" "st_cap g = nat cap" "prodcon_inv g s mp pp r outs"
    "k = rank g mp pp r outs" unfolding running_ok_def by blast
  obtain mp' pp' where "prodcon_inv g s' mp' pp' r outs" "rank g mp' pp' r outs \<le> Suc k"
    using prodcon_spurious [OF g(4) assms(2)] g(5) by blast
  with g(1-3) show "\<exists>k' \<le> Suc k. (\<exists>j. starting cap n s' j \<and> k' = 6 * nat n + 11 + j) \<or> running_ok cap n s' k'"
    unfolding running_ok_def by blast
qed

lemma runs_ok:
  assumes a: "args_ok argv cap n" and r: "runs (boot (prodcon_main argv) c) m k s"
  shows "\<exists>l. run_ok cap n s l \<and> m + l \<le> 6 * nat n + 15 + k"
  using r
proof induction
  case refl
  show ?case using run_ok_boot [OF a] by (intro exI [of _ "6 * nat n + 15"]) simp
next
  case (step m k s s')
  then obtain l where "run_ok cap n s l" "m + l \<le> 6 * nat n + 15 + k" by blast
  with run_ok_step [OF a _ step.hyps(2)] show ?case by fastforce
next
  case (wake m k s s')
  then obtain l where "run_ok cap n s l" "m + l \<le> 6 * nat n + 15 + k" by blast
  with run_ok_spurious [OF _ wake.hyps(2)] show ?case by fastforce
qed

lemma run_ok_can_step:
  assumes "run_ok cap n s k" "\<not> finished s"
  shows "\<exists>s'. step s s'"
  using assms starting_can_step prodcon_progress unfolding run_ok_def running_ok_def by blast

text \<open>What has been sent and received, and what \<open>main\<close> returns.\<close>

definition all_delivered :: "int \<Rightarrow> producer_context process \<Rightarrow> bool" where
  "all_delivered n s \<longleftrightarrow> (\<exists>vs. length vs = nat n \<and> set vs \<subseteq> {0..<64} \<and> sent s = map int_bytes (n # vs) \<and>
     received s = sent s \<and> pc_sum (shared s) = sum_list vs)"

lemma running_delivered:
  assumes "scene_ok g" "st_n g = n" "prodcon_inv g s mp pp r outs" "code s 1 = Running (Exit v)"
  shows "v = 0 \<and> all_delivered n s"
proof -
  have f: "v = 0" "pc_sum (shared s) = all_sum outs" "mp = M_done"
    using prodcon_finished [OF assms(3,1)] assms(4) by (auto simp: finished_def)
  have i: "outs_ok g outs" "r = length outs" "length outs = Suc (nat n)"
    "sent s = map int_bytes outs" "received s = map int_bytes (take r outs)"
    using assms(2,3) f(3) by (auto simp: prodcon_inv_def couples_def outs_ok_def)
  obtain m vs where o: "outs = m # vs" using i(3) by (cases outs) auto
  have "m = n" "length vs = nat n" "set vs \<subseteq> {0..<64}"
    using i(1,3) assms(2) by (auto simp: o outs_ok_def number_def)
  then show ?thesis using f i(2,4,5) by (auto simp: o all_delivered_def all_sum_def)
qed

lemma run_ok_result:
  assumes "run_ok cap n s k"
  shows "code s t \<noteq> Running Abort" "\<exists>rest. sent s = received s @ rest"
    "code s 1 = Running (Exit v) \<Longrightarrow> v = 1 \<and> (\<forall>t. t \<noteq> 1 \<longrightarrow> code s t = Absent) \<and> sent s = [] \<or> v = 0 \<and> all_delivered n s"
proof -
  have st: "code s t \<noteq> Running Abort" "sent s = [] \<and> received s = []"
      "code s 1 = Running (Exit v) \<Longrightarrow> v = 1 \<and> (\<forall>t. t \<noteq> 1 \<longrightarrow> code s t = Absent)"
    if "starting cap n s j" for j
    using that by (cases "t = 1"; auto simp: starting_def create_code_def context_code_def spawn_code_def)+
  have ru: "code s t \<noteq> Running Abort" "\<exists>rest. sent s = received s @ rest"
    if "scene_ok g" "st_n g = n" "prodcon_inv g s mp pp r outs" for g mp pp r outs
  proof -
    show "code s t \<noteq> Running Abort" by (rule prodcon_finished(2) [OF that(3,1)])
    have "sent s = map int_bytes outs" "received s = map int_bytes (take r outs)" using that(3) by (simp_all add: prodcon_inv_def)
    then have "sent s = received s @ map int_bytes (drop r outs)" by (simp flip: map_append)
    then show "\<exists>rest. sent s = received s @ rest" ..
  qed
  show "code s t \<noteq> Running Abort" using assms st(1) ru(1) unfolding run_ok_def running_ok_def by blast
  show "\<exists>rest. sent s = received s @ rest" using assms st(2) ru(2) unfolding run_ok_def running_ok_def by fastforce
  show "v = 1 \<and> (\<forall>t. t \<noteq> 1 \<longrightarrow> code s t = Absent) \<and> sent s = [] \<or> v = 0 \<and> all_delivered n s"
    if "code s 1 = Running (Exit v)"
    using assms st(2,3) that running_delivered [OF _ _ _ that] unfolding run_ok_def running_ok_def by blast
qed

section \<open>A run that succeeds\<close>

lemma starting_unfinished:
  assumes "starting cap n s j" "j \<noteq> 0"
  shows "\<not> finished s"
proof -
  have "code s 1 \<noteq> Running (Exit v)" for v
    using assms by (auto simp: starting_def create_code_def context_code_def spawn_code_def)
  moreover have "code s t \<noteq> Running Abort" for t
    using assms by (cases "t = 1") (auto simp: starting_def create_code_def context_code_def spawn_code_def)
  ultimately show ?thesis by (simp add: finished_def)
qed

text \<open>When memory and threads are to be had, the producer is started.\<close>

lemma producer_starts:
  assumes a: "args_ok argv cap n"
  shows "\<exists>m s k. runs (boot (prodcon_main argv) c) m 0 s \<and> running_ok cap n s k"
proof -
  have n: "13 \<le> cap" "cap < 2 ^ 31" "- (2 ^ 31) \<le> n" "n \<le> 34087042"
    using a to_int_range by (auto simp: args_ok_def)
  let ?s0 = "boot (prodcon_main argv) c" and ?cap = "word_of_int cap :: u64"
  have st0: "starting cap n ?s0 4" and c0: "code ?s0 1 = Running (create_code cap n)"
    using a by (simp_all add: starting_def boot_def args_ok_def prodcon_main_code fresh_env_def)
  have fin0: "\<not> finished ?s0" using c0 by (auto simp: finished_def boot_def create_code_def)
  have "has_tid (envs ?s0 1)" by (simp add: boot_def has_tid_def fresh_env_def)
  then obtain h s where cr: "msg_queue_create (envs ?s0 1) (memory ?s0) (Some (0x1000, demo_mq [], \<lparr>le_next = 0, le_prev = 0\<rparr>))
      (Some (replicate (unat ?cap) 0)) 0 ?cap MSG_QUEUE_READER = Some (h, envs ?s0 1, store_queue (memory ?s0) 0x1000 s)"
    "get_backend h = Some 0x1000"
    using queue_create_effect [of MSG_QUEUE_READER ?cap "replicate (unat ?cap) 0" "0x1000" "demo_mq []" "envs ?s0 1"
        "memory ?s0" "\<lparr>le_next = 0, le_prev = 0\<rparr>" 0] cap_word(1,2) [OF n(1,2)]
    by (auto simp: ALL_FLAGS_def demo_mq_def)
  have h: "h \<noteq> 0" using cr(2) by (auto simp: get_backend_def)
  have "malloc_ok (memory ?s0) ?cap (Some (0x1000, demo_mq [], \<lparr>le_next = 0, le_prev = 0\<rparr>)) (Some (replicate (unat ?cap) 0))"
    by (simp add: malloc_ok_def boot_def demo_mq_def)
  from exec.create [OF this cr(1), where k = "\<lambda>q. if q = 0 then Exit 1 else Open q MSG_QUEUE_WRITER (context_code q n)" and c = c]
  have "exec (envs ?s0 1) (memory ?s0) (shared ?s0) (code ?s0 1) (envs ?s0 1) (store_queue (memory ?s0) 0x1000 s) c
      (Running (Open h MSG_QUEUE_WRITER (context_code h n))) Quiet"
    unfolding c0 create_code_def using h by (simp add: boot_def)
  from step.call [OF fin0 this] obtain s1 where s1: "step ?s0 s1" "code s1 1 = Running (Open h MSG_QUEUE_WRITER (context_code h n))"
    by auto
  have st1: "starting cap n s1 3" using starting_step [OF st0 s1(1) n] s1(2) by (auto simp: starting_def)
  then obtain s2 where s2: "step s1 s2" using starting_can_step starting_unfinished by (metis zero_neq_numeral)
  have st2: "starting cap n s2 2" using starting_step [OF st1 s2 n] by auto
  then obtain s3 where s3: "step s2 s3" using starting_can_step starting_unfinished by (metis zero_neq_numeral)
  have st3: "starting cap n s3 1" using starting_step [OF st2 s3 n] by auto
  then obtain q where q: "code s3 1 = Running (spawn_code q n)" "code s3 2 = Absent" by (auto simp: starting_def)
  have "\<not> finished s3" using starting_unfinished [OF st3] by simp
  from step.spawn [OF this q(1) [unfolded spawn_code_def] q(2)] obtain s4 where
    s4: "step s3 s4" "code s4 1 = Running (main_consumer q n 2)" by auto
  have "running_ok cap n s4 (6 * nat n + 11)"
    using starting_step [OF st3 s4(1) n] s4(2) by (auto simp: starting_def main_consumer_def)
  moreover have "runs ?s0 (Suc (Suc (Suc (Suc 0)))) 0 s4" 
    by (rule runs.step [OF runs.step [OF runs.step [OF runs.step [OF runs.refl s1(1)] s2] s3] s4(1)])
  ultimately show ?thesis by blast
qed

lemma running_finishes:
  "running_ok cap n s k \<Longrightarrow> runs s0 m j s \<Longrightarrow> \<exists>m' s'. runs s0 m' j s' \<and> code s' 1 = Running (Exit 0)"
proof (induction k arbitrary: s m rule: less_induct)
  case (less k)
  then obtain g mp pp r outs where g: "scene_ok g" "st_n g = n" "st_cap g = nat cap" "prodcon_inv g s mp pp r outs"
    "k = rank g mp pp r outs" unfolding running_ok_def by blast
  show ?case
  proof (cases "finished s")
    case True
    then have "code s 1 = Running (Exit 0)" using prodcon_finished(1) [OF g(4,1)] g(4) by (simp add: prodcon_inv_def)
    with less.prems(2) show ?thesis by blast
  next
    case False
    then obtain s' where s': "step s s'" using prodcon_progress [OF g(1,4)] by blast
    obtain mp' pp' r' outs' where i: "prodcon_inv g s' mp' pp' r' outs'" "rank g mp' pp' r' outs' < k"
      using prodcon_step [OF g(1,4) s'] g(5) by blast
    have "running_ok cap n s' (rank g mp' pp' r' outs')" unfolding running_ok_def using g(1-3) i(1) by blast
    from less.IH [OF i(2) this runs.step [OF less.prems(2) s']] show ?thesis .
  qed
qed

section \<open>Properties\<close>

text \<open>C8. \<open>prodcon\<close> with a capacity of at least 13 bytes and at most 34087042 numbers (so that the
  sum fits an \<open>int\<close>), in every interleaving of its two threads, with spurious wakeups: no assertion
  fails and nothing overflows; at every moment the messages that \<open>main\<close> has received are the first
  of those that the producer has sent, in that order and unchanged.  When \<open>main\<close> returns 1, no
  producer was started and nothing was sent.  Otherwise it returns 0, and then the producer has
  sent the count \<open>numberCount\<close> and exactly that many numbers, each between 0 and 63, all of them
  have been received, and the sum of exactly these numbers is the one that the producer has left
  in the shared context, with which \<open>main\<close> has compared its own.\<close>

theorem prodcon_sums_agree:
  assumes "args_ok argv cap n" and "runs (boot (prodcon_main argv) c) m k s"
  shows "(\<forall>t. code s t \<noteq> Running Abort) \<and> (\<exists>rest. sent s = received s @ rest) \<and>
    (\<forall>v. code s 1 = Running (Exit v) \<longrightarrow>
       v = 1 \<and> (\<forall>t. t \<noteq> 1 \<longrightarrow> code s t = Absent) \<and> sent s = [] \<or>
       v = 0 \<and> (\<exists>vs. length vs = nat n \<and> set vs \<subseteq> {0..<64} \<and> sent s = map int_bytes (n # vs) \<and>
         received s = sent s \<and> pc_sum (shared s) = sum_list vs))"
proof -
  obtain l where "run_ok cap n s l" using runs_ok [OF assms] by blast
  from run_ok_result [OF this] show ?thesis unfolding all_delivered_def by blast
qed

text \<open>C9. \<open>prodcon\<close> terminates: as long as \<open>main\<close> has not returned, some thread can go on (the two
  never block each other, and no call is undefined), and a run with \<open>k\<close> spurious wakeups takes
  at most \<open>6 * numberCount + 15 + k\<close> steps.\<close>

theorem prodcon_terminates:
  assumes "args_ok argv cap n" and "runs (boot (prodcon_main argv) c) m k s"
  shows "m \<le> 6 * nat n + 15 + k \<and> ((\<exists>v. code s 1 = Running (Exit v)) \<or> (\<exists>s'. step s s'))"
proof -
  obtain l where l: "run_ok cap n s l" "m + l \<le> 6 * nat n + 15 + k" using runs_ok [OF assms] by blast
  show ?thesis using l run_ok_can_step [OF l(1)] run_ok_result(1) [OF l(1)] by (auto simp: finished_def)
qed

text \<open>A run of \<open>prodcon 64 3\<close>.\<close>

definition demo_prodcon :: "producer_context process" where
  "demo_prodcon = boot (prodcon_main [''prodcon'', ''64'', ''3'']) \<lparr>pc_queue = 0, pc_numberCount = 0, pc_sum = 0\<rparr>"

lemma demo_args: "args_ok [''prodcon'', ''64'', ''3''] 64 3"
  by (simp add: args_ok_def to_int_def strtol_def digit_def isspace_def sint_of_int)

lemma demo_run: "\<exists>m s. runs demo_prodcon m 0 s \<and> code s 1 = Running (Exit 0)"
  using producer_starts [OF demo_args] running_finishes unfolding demo_prodcon_def by blast

theorem prodcon_sums_agree_witness:
  "\<exists>m s vs. runs demo_prodcon m 0 s \<and> code s 1 = Running (Exit 0) \<and> length vs = 3 \<and>
     sent s = map int_bytes (3 # vs) \<and> received s = sent s \<and> pc_sum (shared s) = sum_list vs"
proof -
  obtain m s where r: "runs demo_prodcon m 0 s" "code s 1 = Running (Exit 0)" using demo_run by blast
  from prodcon_sums_agree [OF demo_args r(1) [unfolded demo_prodcon_def]] r show ?thesis by fastforce
qed

theorem prodcon_terminates_witness:
  "\<exists>m s. runs demo_prodcon m 0 s \<and> code s 1 = Running (Exit 0) \<and> m \<le> 33"
proof -
  obtain m s where r: "runs demo_prodcon m 0 s" "code s 1 = Running (Exit 0)" using demo_run by blast
  from prodcon_terminates [OF demo_args r(1) [unfolded demo_prodcon_def]] r show ?thesis by auto
qed

end
