(* ===== verification/Multiprod.thy ===== *)
theory Multiprod
  imports Thread_Calls
begin

text \<open>
  The program \<open>multiprod.c\<close>: a consumer polls the queues of several producers and reads one
  message from each that is readable.  Since \<open>msg_queue_poll\<close> does not return a count in a
  defined way, neither does the program.
\<close>

section \<open>The program\<close>

text \<open>The difference of two times as \<open>uint64_t\<close>.\<close>

definition time_diff_ns :: "int \<times> int \<Rightarrow> int \<times> int \<Rightarrow> u64" where
  "time_diff_ns t1 t0 = word_of_int ((fst t1 - fst t0) * 1000000000 + (snd t1 - snd t0))"

record message =
  msg_data :: int

definition message_bytes_of :: "message \<Rightarrow> u8 list" where
  "message_bytes_of m = int_bytes (msg_data m)"

definition message_of :: "u8 list \<Rightarrow> message" where
  "message_of bs = \<lparr>msg_data = bytes_int bs\<rparr>"

record prod_args =
  pa_mq :: u64
  pa_nmsgs :: nat

record cons_args =
  poll_time_ns :: u64
  read_time_ns :: u64
  nmqs :: nat
  ca_mqs :: "u64 list"

text \<open>The arguments of the threads lie on the stack of \<open>main\<close>.\<close>

record multi_args =
  ma_cons :: cons_args
  ma_prods :: "nat \<Rightarrow> prod_args"

text \<open>\<open>+\<close> on \<open>long\<close> and \<open>*\<close> on \<open>int\<close>: overflow is undefined.\<close>

definition add_long :: "int \<Rightarrow> int \<Rightarrow> int option" where
  "add_long a b = (if - (2 ^ 63) \<le> a + b \<and> a + b < 2 ^ 63 then Some (a + b) else None)"

definition mul_int :: "int \<Rightarrow> int \<Rightarrow> int option" where
  "mul_int a b = (if - (2 ^ 31) \<le> a * b \<and> a * b < 2 ^ 31 then Some (a * b) else None)"

subsection \<open>Producers\<close>

text \<open>The loop with \<open>k\<close> messages to go.  The first random number, times 1000, is the delay.\<close>

fun prod_loop :: "u64 \<Rightarrow> nat \<Rightarrow> int \<Rightarrow> (int \<Rightarrow> multi_args thread) \<Rightarrow> multi_args thread" where
  "prod_loop mq 0 acc rest = rest acc"
| "prod_loop mq (Suc k) acc rest =
     Rand (\<lambda>d. if mul_int d 1000 = None then Abort else Rand (\<lambda>r.
       let msg = \<lparr>msg_data = r\<rparr>
       in Write mq (message_bytes_of msg) 4 (\<lambda>ret.
            if ret \<noteq> 0 then Abort
            else (case add_long acc (msg_data msg) of
                    None \<Rightarrow> Abort
                  | Some acc' \<Rightarrow> prod_loop mq k acc' rest))))"

definition prod_thread_f :: "nat \<Rightarrow> multi_args thread" where
  "prod_thread_f j = Access (\<lambda>c. (c,
     let args = ma_prods c j
     in prod_loop (pa_mq args) (pa_nmsgs args) 0 (\<lambda>acc.
          Close (Some (pa_mq args)) (\<lambda>ret mq'.
            Access (\<lambda>c. (c\<lparr>ma_prods := (ma_prods c)(j := args\<lparr>pa_mq := (case mq' of None \<Rightarrow> 0 | Some h \<Rightarrow> h)\<rparr>)\<rparr>,
              if ret \<noteq> 0 then Abort else Exit acc))))))"

subsection \<open>The consumer\<close>

text \<open>One pass over the entries with the indices \<open>is\<close>; \<open>ready\<close> entries with events are left.
  \<open>next\<close> gets the entries, the number of closed queues, the time spent reading and the sum.\<close>

function cons_entries ::
  "u64 list \<Rightarrow> nat list \<Rightarrow> int \<Rightarrow> pollfd list \<Rightarrow> nat \<Rightarrow> u64 \<Rightarrow> int \<Rightarrow>
   (pollfd list \<Rightarrow> nat \<Rightarrow> u64 \<Rightarrow> int \<Rightarrow> multi_args thread) \<Rightarrow> multi_args thread" where
  "cons_entries mqs [] ready fds closed rtime acc rest = rest fds closed rtime acc"
| "cons_entries mqs (i # is) ready fds closed rtime acc rest =
     (let e = pf_revents (fds ! i)
      in if \<not> (e = 0 \<or> e = MQPOLL_READABLE \<or> e = MQPOLL_READABLE OR MQPOLL_NOWRITERS) then Abort
         else if e AND MQPOLL_READABLE \<noteq> 0 then
           Clock (\<lambda>s0 ns0. Read (mqs ! i) 4 (\<lambda>len msg. Clock (\<lambda>s1 ns1.
             let rtime' = rtime + time_diff_ns (s1, ns1) (s0, ns0);
                 go_on = (\<lambda>fds' closed' acc'.
                   if ready - 1 = 0 then rest fds' closed' rtime' acc'
                   else cons_entries mqs is (ready - 1) fds' closed' rtime' acc' rest)
             in if len > 0 then
                  (if len \<noteq> 4 then Abort
                   else case add_long acc (msg_data (message_of msg)) of
                          None \<Rightarrow> Abort | Some acc' \<Rightarrow> go_on fds closed acc')
                else if len = 0 then
                  Poll [\<lparr>pf_queue = mqs ! i, pf_events = MQPOLL_NOWRITERS, pf_revents = 0\<rparr>] (\<lambda>r fd.
                    if r \<noteq> 1 then Abort
                    else if pf_revents (fd ! 0) \<noteq> MQPOLL_NOWRITERS then Abort
                    else Close (Some (pf_queue (fds ! i))) (\<lambda>ret q'.
                      if q' \<noteq> Some 0 then Abort
                      else if ret \<noteq> 0 then Abort
                      else go_on (fds[i := (fds ! i)\<lparr>pf_queue := 0\<rparr>]) (Suc closed) acc))
                else Get_errno (\<lambda>err. if err \<noteq> EAGAIN then Abort else go_on fds closed acc))))
         else cons_entries mqs is ready fds closed rtime acc rest)"
  by pat_completeness auto
termination by (relation "measure (\<lambda>(mqs, is, _). length is)") auto

declare cons_entries.simps [simp del]

text \<open>The \<open>while\<close> loop, for at most the given number of iterations.\<close>

fun cons_loop ::
  "nat \<Rightarrow> u64 list \<Rightarrow> nat \<Rightarrow> pollfd list \<Rightarrow> nat \<Rightarrow> u64 \<Rightarrow> u64 \<Rightarrow> int \<Rightarrow>
   (u64 \<Rightarrow> u64 \<Rightarrow> int \<Rightarrow> multi_args thread) \<Rightarrow> multi_args thread" where
  "cons_loop 0 mqs n fds closed ptime rtime acc rest = (if closed < n then Unfinished else rest ptime rtime acc)"
| "cons_loop (Suc fuel) mqs n fds closed ptime rtime acc rest =
     (if closed < n then
        Clock (\<lambda>s0 ns0. Poll fds (\<lambda>ready fds'. Clock (\<lambda>s1 ns1.
          let ptime' = ptime + time_diff_ns (s1, ns1) (s0, ns0)
          in if ready \<le> 0 then Abort
             else cons_entries mqs [0..<n] ready fds' closed rtime acc
                    (\<lambda>fds'' closed' rtime' acc'. cons_loop fuel mqs n fds'' closed' ptime' rtime' acc' rest))))
      else rest ptime rtime acc)"

definition cons_thread_f :: "nat \<Rightarrow> multi_args thread" where
  "cons_thread_f fuel = Access (\<lambda>c. (c,
     let mqs = ca_mqs (ma_cons c); n = nmqs (ma_cons c);
         fds = map (\<lambda>i. \<lparr>pf_queue = mqs ! i, pf_events = MQPOLL_READABLE, pf_revents = 0\<rparr>) [0..<n]
     in cons_loop fuel mqs n fds 0 0 0 0 (\<lambda>ptime rtime acc.
          Access (\<lambda>c. (c\<lparr>ma_cons := (ma_cons c)\<lparr>poll_time_ns := ptime, read_time_ns := rtime\<rparr>\<rparr>, Exit acc)))))"

subsection \<open>main\<close>

text \<open>The loops of \<open>main\<close>, with \<open>k\<close> iterations to go: creating the queues, opening the consumer's
  handles, starting and joining the producers, destroying the queues.\<close>

fun create_queues :: "u64 \<Rightarrow> nat \<Rightarrow> u64 list \<Rightarrow> (u64 list \<Rightarrow> multi_args thread) \<Rightarrow> multi_args thread" where
  "create_queues qsize 0 mqs rest = rest mqs"
| "create_queues qsize (Suc k) mqs rest =
     Create (qsize * (4 + 8)) 0 (\<lambda>q. if q = 0 then Abort else create_queues qsize k (mqs @ [q]) rest)"

fun open_readers :: "u64 list \<Rightarrow> u64 list \<Rightarrow> (u64 list \<Rightarrow> multi_args thread) \<Rightarrow> multi_args thread" where
  "open_readers [] hs rest = rest hs"
| "open_readers (q # qs) hs rest = Open q MSG_QUEUE_READER (\<lambda>h. open_readers qs (hs @ [h]) rest)"

fun start_producers ::
  "u64 list \<Rightarrow> nat \<Rightarrow> nat \<Rightarrow> u64 list \<Rightarrow> (u64 list \<Rightarrow> multi_args thread) \<Rightarrow> multi_args thread" where
  "start_producers [] i nmsgs ts rest = rest ts"
| "start_producers (q # qs) i nmsgs ts rest =
     Open q MSG_QUEUE_WRITER (\<lambda>h.
       Access (\<lambda>c. (c\<lparr>ma_prods := (ma_prods c)(i := \<lparr>pa_mq = h, pa_nmsgs = nmsgs\<rparr>)\<rparr>,
         Spawn (prod_thread_f i) (\<lambda>ret t. if ret \<noteq> 0 then Abort
           else start_producers qs (Suc i) nmsgs (ts @ [t]) rest))))"

fun join_producers :: "u64 list \<Rightarrow> int \<Rightarrow> (int \<Rightarrow> multi_args thread) \<Rightarrow> multi_args thread" where
  "join_producers [] acc rest = rest acc"
| "join_producers (t # ts) acc rest =
     Join t (\<lambda>ret v. if ret \<noteq> 0 then Abort
       else case add_long acc v of None \<Rightarrow> Abort | Some acc' \<Rightarrow> join_producers ts acc' rest)"

fun close_queues :: "u64 list \<Rightarrow> multi_args thread \<Rightarrow> multi_args thread" where
  "close_queues [] rest = rest"
| "close_queues (q # qs) rest =
     Close (Some q) (\<lambda>ret q'. if ret \<noteq> 0 then Abort else if q' \<noteq> Some 0 then Abort else close_queues qs rest)"

definition check_closed :: "u64 list \<Rightarrow> nat \<Rightarrow> multi_args thread \<Rightarrow> multi_args thread" where
  "check_closed mqs nprod rest =
     (let fds = map (\<lambda>q. \<lparr>pf_queue = q, pf_events = MQPOLL_NOREADERS OR MQPOLL_NOWRITERS, pf_revents = 0\<rparr>) mqs
      in if \<exists>q \<in> set mqs. q = 0 then Abort
         else Poll fds (\<lambda>ready fds'.
           if unat (word_of_int ready :: u64) \<noteq> nprod then Abort
           else if \<exists>p \<in> set fds'. pf_revents p \<noteq> MQPOLL_NOREADERS OR MQPOLL_NOWRITERS then Abort
           else rest))"

text \<open>\<open>mqs[nprod]\<close> is an array of 64-bit handles; its size must fit a \<open>size_t\<close>, else the declaration
  is undefined.\<close>

definition multiprod_main :: "nat \<Rightarrow> string list \<Rightarrow> multi_args thread" where
  "multiprod_main fuel argv =
     (if length argv < 4 then Exit 1
      else (let qsize = strtoul (argv ! 1); nprod = unat (strtoul (argv ! 2)); nmsgs = unat (strtoul (argv ! 3))
            in if 2 ^ 64 \<le> 8 * nprod then Abort
               else create_queues qsize nprod [] (\<lambda>mqs. open_readers mqs [] (\<lambda>hs.
                 Access (\<lambda>c. (c\<lparr>ma_cons := (ma_cons c)\<lparr>nmqs := nprod, ca_mqs := hs\<rparr>\<rparr>,
                   Spawn (cons_thread_f fuel) (\<lambda>ret consumer. if ret \<noteq> 0 then Abort
                     else start_producers mqs 0 nmsgs [] (\<lambda>producers.
                       join_producers producers 0 (\<lambda>prod_sum.
                         Join consumer (\<lambda>ret cons_sum. if ret \<noteq> 0 then Abort
                           else check_closed mqs nprod (close_queues mqs
                                  (if prod_sum \<noteq> cons_sum then Exit 1 else Exit 0))))))))))))"

section \<open>What never happens\<close>

text \<open>\<open>stays x P\<close>: when every \<open>msg_queue_poll\<close> fails, the code \<open>x\<close> reads no message and ends only
  with a value in \<open>P\<close>; the same holds of the threads it starts, whatever they end with.\<close>

primrec stays :: "'c thread \<Rightarrow> (int \<Rightarrow> bool) \<Rightarrow> bool" where
  "stays (Create cap f k) P \<longleftrightarrow> (\<forall>h. stays (k h) P)"
| "stays (Open q f k) P \<longleftrightarrow> (\<forall>h. stays (k h) P)"
| "stays (Close q k) P \<longleftrightarrow> (\<forall>r q'. stays (k r q') P)"
| "stays (Write q src len k) P \<longleftrightarrow> (\<forall>r. stays (k r) P)"
| "stays (Read q len k) P \<longleftrightarrow> False"
| "stays (Poll fds k) P \<longleftrightarrow> (\<forall>fds'. stays (k (-1) fds') P)"
| "stays (Access f) P \<longleftrightarrow> (\<forall>c. snd (map_prod id (\<lambda>x. stays x P) (f c)))"
| "stays (Rand k) P \<longleftrightarrow> (\<forall>r. stays (k r) P)"
| "stays (Clock k) P \<longleftrightarrow> (\<forall>s ns. stays (k s ns) P)"
| "stays (Printf x) P \<longleftrightarrow> stays x P"
| "stays (Get_errno k) P \<longleftrightarrow> (\<forall>e. stays (k e) P)"
| "stays (Report l m x) P \<longleftrightarrow> stays x P"
| "stays (Spawn x k) P \<longleftrightarrow> stays x (\<lambda>v. True) \<and> (\<forall>r t. stays (k r t) P)"
| "stays (Join t k) P \<longleftrightarrow> (\<forall>r v. stays (k r v) P)"
| "stays (Exit v) P \<longleftrightarrow> P v"
| "stays Abort P \<longleftrightarrow> True"
| "stays Unfinished P \<longleftrightarrow> True"

fun act_stays :: "'c activity \<Rightarrow> (int \<Rightarrow> bool) \<Rightarrow> bool" where
  "act_stays Absent P \<longleftrightarrow> True"
| "act_stays (Running x) P \<longleftrightarrow> stays x P"
| "act_stays (In_read q out len k) P \<longleftrightarrow> False"
| "act_stays (In_write q src len k) P \<longleftrightarrow> (\<forall>r. stays (k r) P)"
| "act_stays (In_poll es fds k) P \<longleftrightarrow> True"

lemma exec_stays:
  assumes "exec env w c act env' w' c' act' ev" "act_stays act P"
  shows "act_stays act' P" "receives ev = []"
proof -
  show "act_stays act' P"
    using assms
  proof cases
    case (poll alloc fds r fds' k)
    with poll_results [of env w alloc fds] assms(2) show ?thesis by auto
  next
    case (poll_on es fds r fds' k)
    with poll_results [of env w None fds es] show ?thesis by auto
  next
    case (access f x)
    then show ?thesis using assms(2) by (auto dest: spec [of _ c])
  qed (use assms(2) in auto)
  show "receives ev = []" using assms by cases (auto simp: write_event_def)
qed

definition ends :: "(int \<Rightarrow> bool) \<Rightarrow> u64 \<Rightarrow> int \<Rightarrow> bool" where
  "ends P t = (if t = 1 then P else (\<lambda>v. True))"

definition all_stay :: "'c process \<Rightarrow> (int \<Rightarrow> bool) \<Rightarrow> bool" where
  "all_stay s P \<longleftrightarrow> (\<forall>t. act_stays (code s t) (ends P t)) \<and> code s 1 \<noteq> Absent \<and> received s = []"

lemma all_stay_update:
  assumes "all_stay s P" "act_stays act (ends P t)" "act \<noteq> Absent" "code s' = (code s)(t := act)" "received s' = []"
  shows "all_stay s' P"
  using assms by (auto simp: all_stay_def)

lemma step_stays:
  assumes "all_stay s P" "step s s'"
  shows "all_stay s' P"
proof -
  have at: "act_stays (code s t) (ends P t)" and none: "received s = []" for t using assms(1) by (simp_all add: all_stay_def)
  from assms(2) show ?thesis
  proof cases
    case (call t env w c act ev)
    have "act \<noteq> Absent" using call(3) by cases auto
    then show ?thesis using all_stay_update [OF assms(1) exec_stays(1) [OF call(3) at]] exec_stays(2) [OF call(3) at] none
      by (simp add: call(1))
  next
    case (spawn t x k t')
    have x: "stays x (\<lambda>v. True)" "stays (k 0 t') (ends P t)" using at [of t] spawn(3) by simp_all
    have "t' \<noteq> 1" using spawn(4) assms(1) by (auto simp: all_stay_def)
    then have "stays x (ends P t')" using x(1) by (simp add: ends_def)
    with x(2) \<open>t' \<noteq> 1\<close> show ?thesis using assms(1) by (auto simp: all_stay_def spawn(1))
  next
    case (spawn_fails t x k e t')
    then have "stays (k e t') (ends P t)" using at [of t] by simp
    then show ?thesis using all_stay_update [OF assms(1), of "Running (k e t')" t] none by (simp add: spawn_fails(1))
  next
    case (join t t' k v)
    then have "stays (k 0 v) (ends P t)" using at [of t] by simp
    then show ?thesis using all_stay_update [OF assms(1), of "Running (k 0 v)" t] none by (simp add: join(1))
  qed
qed

lemma runs_stay:
  assumes "stays x P" "runs (boot x c) m k s"
  shows "all_stay s P"
  using assms(2)
proof (induction rule: runs_invariant)
  case start
  show ?case using assms(1) by (simp add: all_stay_def ends_def boot_def)
next
  case (step s s')
  then show ?case by (rule step_stays)
next
  case (wake s s')
  have "code s' = code s" "received s' = received s" using wake(2) by (cases; simp)+
  with wake(1) show ?case by (simp add: all_stay_def)
qed

section \<open>The program does not succeed\<close>

lemma prod_loop_stays: "(\<And>acc. stays (rest acc) P) \<Longrightarrow> stays (prod_loop mq k acc rest) P"
  by (induction k arbitrary: acc) (auto simp: Let_def split: option.split)

lemma create_queues_stays: "(\<And>qs. stays (rest qs) P) \<Longrightarrow> stays (create_queues qsize k mqs rest) P"
  by (induction qsize k mqs rest rule: create_queues.induct) auto

lemma open_readers_stays: "(\<And>qs. stays (rest qs) P) \<Longrightarrow> stays (open_readers mqs hs rest) P"
  by (induction mqs hs rest rule: open_readers.induct) auto

lemma prod_thread_stays: "stays (prod_thread_f j) (\<lambda>v. True)"
  by (simp add: prod_thread_f_def Let_def prod_loop_stays)

lemma start_producers_stays: "(\<And>ts. stays (rest ts) P) \<Longrightarrow> stays (start_producers qs i nmsgs ts rest) P"
  by (induction qs i nmsgs ts rest rule: start_producers.induct) (auto simp: prod_thread_stays)

lemma join_producers_stays: "(\<And>v. stays (rest v) P) \<Longrightarrow> stays (join_producers ts acc rest) P"
  by (induction ts acc rest rule: join_producers.induct) (auto split: option.split)

lemma cons_thread_stays: "stays (cons_thread_f fuel) (\<lambda>v. True)"
  by (cases fuel) (simp_all add: cons_thread_f_def Let_def)

text \<open>The last poll of \<open>main\<close> fails, and -1 is not the number of producers.\<close>

lemma unat_max: "unat (- 1 :: u64) = 2 ^ 64 - 1"
proof -
  have "(- 1 :: u64) = of_nat (2 ^ 64 - 1)" by simp
  then have "unat (- 1 :: u64) = unat (of_nat (2 ^ 64 - 1) :: u64)" by (rule arg_cong)
  also have "\<dots> = 2 ^ 64 - 1" by (rule unat_of_nat_u64) simp
  finally show ?thesis .
qed

lemma check_closed_stays:
  assumes "nprod \<noteq> 2 ^ 64 - 1"
  shows "stays (check_closed mqs nprod rest) P"
  using assms by (auto simp add: check_closed_def Let_def unat_max)

lemma multiprod_main_stays: "stays (multiprod_main fuel argv) (\<lambda>v. v = 1 \<and> length argv < 4)"
proof -
  have "2 ^ 64 \<le> 8 * n" if "n = 2 ^ 64 - 1" for n :: nat using that by simp
  then have "unat (strtoul (argv ! 2)) \<noteq> 2 ^ 64 - 1 \<or> 2 ^ 64 \<le> 8 * unat (strtoul (argv ! 2))" by blast
  then show ?thesis
    by (auto simp: multiprod_main_def Let_def cons_thread_stays
        intro!: create_queues_stays open_readers_stays start_producers_stays join_producers_stays check_closed_stays)
qed

text \<open>C10. \<open>multiprod\<close> never succeeds: in every interleaving, \<open>main\<close> returns only when there are fewer
  than three arguments, and then 1, and no thread ever calls \<open>msg_queue_read\<close> or receives a message.
  The reason is that no call of \<open>msg_queue_poll\<close> comes back in a defined way except with -1: the
  assertion of the consumer on its first poll then fails, and so does that of \<open>main\<close> on the poll
  with which it checks the queues at the end.\<close>

theorem multiprod_never_returns:
  assumes "runs (boot (multiprod_main fuel argv) c) m k s"
  shows "(code s 1 = Running (Exit v) \<longrightarrow> v = 1 \<and> length argv < 4) \<and>
    code s t \<noteq> Running (Read q len kr) \<and> received s = []"
proof -
  note st = runs_stay [OF multiprod_main_stays assms]
  have "act_stays (code s 1) (ends (\<lambda>v. v = 1 \<and> length argv < 4) 1)"
    "act_stays (code s t) (ends (\<lambda>v. v = 1 \<and> length argv < 4) t)" "received s = []"
    using st by (simp_all add: all_stay_def)
  then show ?thesis by (auto simp: ends_def)
qed

text \<open>A run of \<open>multiprod 4 1 5\<close> up to the consumer's poll, for which there is no memory: it returns
  -1, and the assertion fails.\<close>

definition demo_multiprod :: "multi_args process" where
  "demo_multiprod = boot (multiprod_main 1 [''multiprod'', ''4'', ''1'', ''5''])
     \<lparr>ma_cons = \<lparr>poll_time_ns = 0, read_time_ns = 0, nmqs = 0, ca_mqs = []\<rparr>, ma_prods = (\<lambda>j. \<lparr>pa_mq = 0, pa_nmsgs = 0\<rparr>)\<rparr>"

lemma demo_strtoul: "strtoul ''4'' = 4" "strtoul ''1'' = 1" "strtoul ''5'' = 5"
  by (simp_all add: strtoul_def digit_def isspace_def)

lemma runs_call:
  assumes "runs s0 n k s" "\<not> finished s" "code s t = Running x"
    "exec (envs s t) (memory s) (shared s) (Running x) env w c act ev"
  shows "\<exists>s'. runs s0 (Suc n) k s' \<and> memory s' = w \<and> shared s' = c \<and> envs s' = (envs s)(t := env) \<and>
    code s' = (code s)(t := act)"
  using runs.step [OF assms(1) step.call [OF assms(2) assms(4) [folded assms(3)]]] by fastforce

lemma demo_multiprod_code:
  obtains K where "code demo_multiprod = (\<lambda>t. Absent)(1 := Running (Create 48 0 (\<lambda>h. if h = 0 then Abort
    else Open h MSG_QUEUE_READER (\<lambda>r. Access (\<lambda>c. (c\<lparr>ma_cons := (ma_cons c)\<lparr>nmqs := Suc 0, ca_mqs := [r]\<rparr>\<rparr>,
      Spawn (cons_thread_f 1) (K h)))))))" "\<And>h t. \<exists>k. K h 0 t = Open h MSG_QUEUE_WRITER k"
proof -
  have one: "unat (1 :: u64) = Suc 0" "unat (5 :: u64) = 5" "\<not> 2 ^ 64 \<le> 8 * Suc 0" "(4 :: u64) * (4 + 8) = 48" by simp_all
  have args: "[w, x, y, z] ! 1 = x" "[w, x, y, z] ! 2 = y" "[w, x, y, z] ! 3 = z" "\<not> length [w, x, y, z] < 4" for w x y z :: string
    by simp_all
  show ?thesis
    by (rule that, simp only: demo_multiprod_def boot_def process.simps multiprod_main_def Let_def args if_False demo_strtoul one
        create_queues.simps open_readers.simps append_Nil) simp
qed

text \<open>The code of the consumer with one queue.\<close>

lemma cons_thread_code:
  "\<exists>g. cons_thread_f 1 = Access (\<lambda>c. (c, g c)) \<and>
     (\<forall>c r. nmqs (ma_cons c) = Suc 0 \<and> ca_mqs (ma_cons c) = [r] \<longrightarrow>
       (\<exists>kp. g c = Clock (\<lambda>s0 ns0. Poll [\<lparr>pf_queue = r, pf_events = MQPOLL_READABLE, pf_revents = 0\<rparr>] (kp s0 ns0)) \<and>
         (\<forall>s0 ns0 fds. kp s0 ns0 (-1) fds = Clock (\<lambda>s1 ns1. Abort))))"
proof -
  let ?g = "\<lambda>c. (case cons_thread_f 1 of Access f \<Rightarrow> snd (f c))"
  have 1: "cons_thread_f 1 = Access (\<lambda>c. (c, ?g c))" by (simp add: cons_thread_f_def Let_def)
  have 2: "\<exists>kp. ?g c = Clock (\<lambda>s0 ns0. Poll [\<lparr>pf_queue = r, pf_events = MQPOLL_READABLE, pf_revents = 0\<rparr>] (kp s0 ns0)) \<and>
      (\<forall>s0 ns0 fds. kp s0 ns0 (-1) fds = Clock (\<lambda>s1 ns1. Abort))"
    if c: "nmqs (ma_cons c) = Suc 0 \<and> ca_mqs (ma_cons c) = [r]" for c r
  proof -
    let ?stop = "\<lambda>ptime rtime acc. Access (\<lambda>c. (c\<lparr>ma_cons := (ma_cons c)\<lparr>poll_time_ns := ptime, read_time_ns := rtime\<rparr>\<rparr>, Exit acc))"
    let ?kp = "\<lambda>s0 ns0 ready fds'. Clock (\<lambda>s1 ns1. if ready \<le> 0 then Abort
      else cons_entries (ca_mqs (ma_cons c)) [0..<nmqs (ma_cons c)] ready fds' 0 0 0 (\<lambda>fds'' closed' rtime' acc'.
             cons_loop 0 (ca_mqs (ma_cons c)) (nmqs (ma_cons c)) fds'' closed' (time_diff_ns (s1, ns1) (s0, ns0)) rtime' acc' ?stop))"
    show ?thesis by (rule exI [of _ ?kp]) (simp add: cons_thread_f_def Let_def c)
  qed
  show ?thesis by (intro exI [of _ ?g] conjI allI impI 1 2) simp_all
qed

lemma demo_multiprod_run:
  "\<exists>s s' r kp. runs demo_multiprod 6 0 s \<and> get_flags r = MSG_QUEUE_READER \<and>
     code s 2 = Running (Poll [\<lparr>pf_queue = r, pf_events = MQPOLL_READABLE, pf_revents = 0\<rparr>] kp) \<and>
     runs demo_multiprod 8 0 s' \<and> code s' 2 = Running Abort"
proof -
  let ?s = demo_multiprod
  have env: "self (envs ?s t) = t" "has_tid (envs ?s 1)" for t by (simp_all add: demo_multiprod_def boot_def fresh_env_def has_tid_def)
  obtain K where c0: "code ?s = (\<lambda>t. Absent)(1 := Running (Create 48 0 (\<lambda>h. if h = 0 then Abort
      else Open h MSG_QUEUE_READER (\<lambda>r. Access (\<lambda>c. (c\<lparr>ma_cons := (ma_cons c)\<lparr>nmqs := Suc 0, ca_mqs := [r]\<rparr>\<rparr>,
        Spawn (cons_thread_f 1) (K h)))))))"
    and K: "\<And>h t. \<exists>k. K h 0 t = Open h MSG_QUEUE_WRITER k"
    using demo_multiprod_code by blast
  have fin: "\<not> finished s" if "\<And>v. code s 1 \<noteq> Running (Exit v)" "\<And>t. code s t \<noteq> Running Abort" for s :: "multi_args process"
    using that by (simp add: finished_def)
  have cr: "\<exists>h s. msg_queue_create (envs ?s 1) (memory ?s) (Some (0x1000, demo_mq [], \<lparr>le_next = 0, le_prev = 0\<rparr>))
      (Some (replicate (unat (48 :: u64)) 0)) 0 48 0 = Some (h, envs ?s 1, store_queue (memory ?s) 0x1000 s) \<and>
      get_backend h = Some 0x1000 \<and> mq_ready s [] [] \<and> counts (q_mq s) [0]"
    using queue_create_effect [of 0 48 "replicate (unat (48 :: u64)) 0" "0x1000" "demo_mq []" "envs ?s 1"
        "memory ?s" "\<lparr>le_next = 0, le_prev = 0\<rparr>" 0] env(2)
    by (fastforce simp: demo_mq_def)
  then obtain h q where h: "msg_queue_create (envs ?s 1) (memory ?s) (Some (0x1000, demo_mq [], \<lparr>le_next = 0, le_prev = 0\<rparr>))
      (Some (replicate (unat (48 :: u64)) 0)) 0 48 0 = Some (h, envs ?s 1, store_queue (memory ?s) 0x1000 q)"
    "get_backend h = Some 0x1000" "mq_ready q [] []" "counts (q_mq q) [0]" by blast
  have h0: "h \<noteq> 0" using h(2) by (auto simp: get_backend_def)
  have "malloc_ok (memory ?s) 48 (Some (0x1000, demo_mq [], \<lparr>le_next = 0, le_prev = 0\<rparr>)) (Some (replicate (unat (48 :: u64)) 0))"
    by (simp add: malloc_ok_def demo_multiprod_def boot_def demo_mq_def)
  note ex1 = exec.create [OF this h(1), where c = "shared ?s"]
  obtain s1 where s1: "runs ?s 1 0 s1" "memory s1 = store_queue (memory ?s) 0x1000 q" "envs s1 = envs ?s"
    "code s1 = (\<lambda>t. Absent)(1 := Running (Open h MSG_QUEUE_READER (\<lambda>r. Access (\<lambda>c.
        (c\<lparr>ma_cons := (ma_cons c)\<lparr>nmqs := Suc 0, ca_mqs := [r]\<rparr>\<rparr>, Spawn (cons_thread_f 1) (K h))))))"
    using runs_call [where t = 1, OF runs.refl _ _ ex1] fin [of ?s] h0 by (auto simp: c0)
  have qa: "queue_at (memory s1) 0x1000 (q_mq q) []" using queue_at_store [OF h(3)] s1(2) by simp
  have flag: "MSG_QUEUE_READER AND NOT ALL_FLAGS = 0" "length [0 :: u32] < 2 ^ 64 - 1" "(0x1000 :: u64) AND 7 = 0" "(0x1000 :: u64) \<noteq> 0"
    by (simp_all add: ALL_FLAGS_def)
  obtain r w2 where r: "msg_queue_open (envs s1 1) (memory s1) h MSG_QUEUE_READER = Some (r, envs s1 1, w2)"
    "get_backend r = Some 0x1000" "get_flags r = MSG_QUEUE_READER"
    using msg_queue_open_effect [OF qa _ h(2) h0 flag(3,4) h(4) flag(2,1), of "envs s1 1"] env(1) s1(3) by auto
  have r0: "r \<noteq> 0" using r(2) by (auto simp: get_backend_def)
  note ex2 = exec.open_queue [OF r(1), where c = "shared s1"]
  obtain s2 where s2: "runs ?s 2 0 s2" "envs s2 = envs ?s" "code s2 = (\<lambda>t. Absent)(1 := Running (Access (\<lambda>c.
        (c\<lparr>ma_cons := (ma_cons c)\<lparr>nmqs := Suc 0, ca_mqs := [r]\<rparr>\<rparr>, Spawn (cons_thread_f 1) (K h)))))"
    using runs_call [where t = 1, OF s1(1) _ _ ex2] fin [of s1] s1(3) by (auto simp: s1(4) eval_nat_numeral)
  have ex3: "exec (envs s2 1) (memory s2) (shared s2) (Running (Access (\<lambda>c.
        (c\<lparr>ma_cons := (ma_cons c)\<lparr>nmqs := Suc 0, ca_mqs := [r]\<rparr>\<rparr>, Spawn (cons_thread_f 1) (K h)))))
      (envs s2 1) (memory s2) ((shared s2)\<lparr>ma_cons := (ma_cons (shared s2))\<lparr>nmqs := Suc 0, ca_mqs := [r]\<rparr>\<rparr>)
      (Running (Spawn (cons_thread_f 1) (K h))) Quiet"
    by (simp add: exec_simps)
  obtain s3 where s3: "runs ?s 3 0 s3" "envs s3 = envs ?s" "nmqs (ma_cons (shared s3)) = Suc 0" "ca_mqs (ma_cons (shared s3)) = [r]"
    "code s3 = (\<lambda>t. Absent)(1 := Running (Spawn (cons_thread_f 1) (K h)))"
  proof -
    have "\<not> finished s2" by (rule fin) (auto simp: s2(3))
    moreover have "Suc 2 = 3" by simp
    ultimately show ?thesis using that runs_call [where t = 1, OF s2(1) _ _ ex3] s2(2) by (fastforce simp: s2(3))
  qed
  obtain g where cg: "cons_thread_f 1 = Access (\<lambda>c. (c, g c))"
    "\<forall>c r. nmqs (ma_cons c) = Suc 0 \<and> ca_mqs (ma_cons c) = [r] \<longrightarrow>
       (\<exists>kp. g c = Clock (\<lambda>s0 ns0. Poll [\<lparr>pf_queue = r, pf_events = MQPOLL_READABLE, pf_revents = 0\<rparr>] (kp s0 ns0)) \<and>
         (\<forall>s0 ns0 fds. kp s0 ns0 (-1) fds = Clock (\<lambda>s1 ns1. Abort)))"
    using cons_thread_code by blast
  obtain kp where kp: "g (shared s3) = Clock (\<lambda>s0 ns0. Poll [\<lparr>pf_queue = r, pf_events = MQPOLL_READABLE, pf_revents = 0\<rparr>] (kp s0 ns0))"
    "\<forall>s0 ns0 fds. kp s0 ns0 (-1) fds = Clock (\<lambda>s1 ns1. Abort)"
    using cg(2) s3(3,4) by blast
  have f3: "\<not> finished s3" by (rule fin) (auto simp: s3(5))
  let ?s4 = "s3\<lparr>envs := (envs s3)(2 := fresh_env 2), code := (code s3)(1 := Running (K h 0 2), 2 := Running (cons_thread_f 1))\<rparr>"
  have s4: "runs ?s 4 0 ?s4"
    using runs.step [OF s3(1) step.spawn [OF f3, of 1 _ _ 2]] by (simp add: s3(5) eval_nat_numeral)
  obtain k where k: "K h 0 2 = Open h MSG_QUEUE_WRITER k" using K by blast
  have f4: "\<not> finished s" if "code s = (code ?s4)(2 := act)" "act \<noteq> Running Abort" for s act
    using that by (intro fin) (auto simp: s3(5) k split: if_splits)
  have ex5: "exec (envs ?s4 2) (memory ?s4) (shared ?s4) (Running (cons_thread_f 1)) (envs ?s4 2) (memory ?s4) (shared ?s4)
      (Running (g (shared s3))) Quiet"
    unfolding cg(1) by (simp add: exec_simps)
  have f: "\<not> finished ?s4" by (rule f4 [of _ "Running (cons_thread_f 1)"], simp_all only: cg(1)) simp_all
  obtain s5 where s5: "runs ?s (Suc 4) 0 s5" "code s5 = (code ?s4)(2 := Running (g (shared s3)))"
    using runs_call [where t = 2, OF s4 f _ ex5] by auto
  have f5: "\<not> finished s5" by (rule f4 [OF s5(2)]) (simp add: kp(1))
  have ex6: "exec (envs s5 2) (memory s5) (shared s5) (Running (g (shared s3))) (envs s5 2) (memory s5) (shared s5)
      (Running (Poll [\<lparr>pf_queue = r, pf_events = MQPOLL_READABLE, pf_revents = 0\<rparr>] (kp 0 0))) Quiet"
    by (auto simp: exec_simps kp(1))
  obtain s6 where s6: "runs ?s (Suc (Suc 4)) 0 s6" "code s6 = (code ?s4)(2 :=
      Running (Poll [\<lparr>pf_queue = r, pf_events = MQPOLL_READABLE, pf_revents = 0\<rparr>] (kp 0 0)))"
    using runs_call [where t = 2, OF s5(1) f5 _ ex6] s5(2) by auto
  have f6: "\<not> finished s6" by (rule f4 [OF s6(2)]) simp
  obtain fds' env' where "msg_queue_poll (envs s6 2) (memory s6) None [\<lparr>pf_queue = r, pf_events = MQPOLL_READABLE, pf_revents = 0\<rparr>] =
      Some (Returned (-1), fds', env', memory s6)"
    using r0 r(3) by (simp add: msg_queue_poll_def poll_invalid_def)
  from exec.poll [OF this, where k = "kp 0 0" and c = "shared s6"]
  obtain s7 where s7: "runs ?s (Suc (Suc (Suc 4))) 0 s7" "code s7 = (code ?s4)(2 := Running (Clock (\<lambda>s1 ns1. Abort)))"
    using runs_call [where t = 2, OF s6(1) f6] s6(2) kp(2) by fastforce
  have f7: "\<not> finished s7" by (rule f4 [OF s7(2)]) simp
  have ex8: "exec (envs s7 2) (memory s7) (shared s7) (Running (Clock (\<lambda>s1 ns1. Abort))) (envs s7 2) (memory s7) (shared s7)
      (Running Abort) Quiet"
    by (auto simp: exec_simps)
  obtain s8 where s8: "runs ?s (Suc (Suc (Suc (Suc 4)))) 0 s8" "code s8 2 = Running Abort"
    using runs_call [where t = 2, OF s7(1) f7 _ ex8] s7(2) by auto
  have "code s6 2 = Running (Poll [\<lparr>pf_queue = r, pf_events = MQPOLL_READABLE, pf_revents = 0\<rparr>] (kp 0 0))" by (simp add: s6(2))
  moreover have "Suc (Suc 4) = 6" "Suc (Suc (Suc (Suc 4))) = 8" by simp_all
  ultimately show ?thesis using s6(1) s8 r(3) by metis
qed

theorem multiprod_never_returns_witness:
  "\<exists>s s' r kp. runs demo_multiprod 6 0 s \<and> get_flags r = MSG_QUEUE_READER \<and>
     code s 2 = Running (Poll [\<lparr>pf_queue = r, pf_events = MQPOLL_READABLE, pf_revents = 0\<rparr>] kp) \<and>
     runs demo_multiprod 8 0 s' \<and> code s' 2 = Running Abort \<and> code s' 1 \<noteq> Running (Exit 0) \<and> received s' = []"
proof -
  obtain s s' r kp where s: "runs demo_multiprod 6 0 s" "get_flags r = MSG_QUEUE_READER"
    "code s 2 = Running (Poll [\<lparr>pf_queue = r, pf_events = MQPOLL_READABLE, pf_revents = 0\<rparr>] kp)"
    "runs demo_multiprod 8 0 s'" "code s' 2 = Running Abort" using demo_multiprod_run by blast
  have "code s' 1 \<noteq> Running (Exit 0)" "received s' = []"
    using multiprod_never_returns [OF s(4) [unfolded demo_multiprod_def], of 0] by auto
  with s show ?thesis by blast
qed

end
