(* ===== verification/Nap.thy ===== *)
theory Nap
  imports Errors
begin

text \<open>
  The delay in the validators' critical sections (\<open>a2_message_queue/mutex_validator.c\<close>: \<open>nap\<close>),
  for any signals that interrupt it.
\<close>

section \<open>The loop over nanosleep\<close>

record timespec =
  tv_sec :: int
  tv_nsec :: int

definition nanoseconds_of :: "timespec \<Rightarrow> int" where
  "nanoseconds_of ts = tv_sec ts * 1000000000 + tv_nsec ts"

text \<open>\<open>nanosleep\<close> of POSIX.  Each pair of \<open>signals\<close> is the time from the start of a call to the next
  signal, which interrupts the call when it comes early enough, and what rounding adds to the
  remaining time that is reported then.  A call that is not interrupted sleeps at least as long
  as asked for; \<open>late\<close> is what it sleeps longer.  \<open>remainder\<close> is written only by an interrupted
  call.  The result, \<open>errno\<close> if it is set, the remainder, the time slept and the signals left.\<close>

definition nanosleep ::
  "timespec \<Rightarrow> timespec \<Rightarrow> nat \<Rightarrow> (nat \<times> nat) list \<Rightarrow> int \<times> int option \<times> timespec \<times> int \<times> (nat \<times> nat) list" where
  "nanosleep req remainder late signals =
     (if tv_sec req < 0 \<or> tv_nsec req < 0 \<or> 1000000000 \<le> tv_nsec req then (-1, Some EINVAL, remainder, 0, signals)
      else case signals of
        [] \<Rightarrow> (0, None, remainder, nanoseconds_of req + int late, [])
      | (t, up) # ts \<Rightarrow>
          if int t < nanoseconds_of req
          then let left = nanoseconds_of req - int t + int up
               in (-1, Some EINTR, \<lparr>tv_sec = left div 1000000000, tv_nsec = left mod 1000000000\<rparr>, int t, ts)
          else (0, None, remainder, nanoseconds_of req + int late, ts))"

text \<open>The \<open>do\<close> loop: every iteration after the first follows a signal.  It returns the last result,
  the environment and the time slept.\<close>

function nap_loop :: "thread_env \<Rightarrow> timespec \<Rightarrow> timespec \<Rightarrow> nat \<Rightarrow> (nat \<times> nat) list \<Rightarrow> int \<times> thread_env \<times> int" where
  "nap_loop env required remainder late signals =
     (case nanosleep required remainder late signals of
        (res, e, remainder', slept, signals') \<Rightarrow>
          let env' = (case e of None \<Rightarrow> env | Some x \<Rightarrow> env\<lparr>errno := x\<rparr>)
          in if res = -1 \<and> errno env' = EINTR
             then (case nap_loop env' remainder' remainder' late signals' of (r, env'', t) \<Rightarrow> (r, env'', slept + t))
             else (res, env', slept))"
  by pat_completeness auto
termination
  by (relation "measure (\<lambda>(env, required, remainder, late, signals). length signals)")
    (auto simp: nanosleep_def Let_def split: if_splits list.splits option.splits)

text \<open>\<open>nap\<close>: \<open>tv_nsec\<close> is a \<open>long\<close>; \<open>garbage\<close> is what the uninitialised \<open>remainder\<close> holds.\<close>

definition nap :: "thread_env \<Rightarrow> timespec \<Rightarrow> nat \<Rightarrow> (nat \<times> nat) list \<Rightarrow> u64 \<Rightarrow> thread_env \<times> int" where
  "nap env garbage late signals nanoseconds =
     (if nanoseconds = 0 then (env, 0)
      else case nap_loop env \<lparr>tv_sec = 0, tv_nsec = sint nanoseconds\<rparr> garbage late signals of
        (res, env', slept) \<Rightarrow>
          (if res \<noteq> 0 then report_error ''mutex_validator.c:106'' ''nanosleep'' env' else env', slept))"

lemma sint_u64_cases: "sint (n :: u64) < 0 \<or> sint n = int (unat n)"
proof (cases "sint n < 0")
  case False
  then have "take_bit 64 (sint n) = sint n" using sint_less [of n] by (intro take_bit_int_eq_self) simp_all
  then have "uint n = sint n" using uint_sint [of n] by simp
  then show ?thesis by (simp only: uint_nat) simp
qed simp

lemma sint_u64_small:
  assumes "unat (n :: u64) < 2 ^ 63"
  shows "sint n = int (unat n)"
proof -
  have "sint n = signed_take_bit 63 (uint n)" by (simp add: sint_uint)
  also have "\<dots> = uint n"
  proof (rule signed_take_bit_int_eq_self)
    have "int (unat n) < int (2 ^ 63)" using assms by (simp only: of_nat_less_iff)
    then show "uint n < 2 ^ 63" by (simp only: uint_nat) simp
  qed (simp add: order_trans [OF _ uint_ge_0])
  finally show ?thesis by (simp only: uint_nat)
qed

declare nap_loop.simps [simp del]

lemma nap_loop_sleeps:
  assumes "0 \<le> tv_sec required" "0 \<le> tv_nsec required" "tv_nsec required < 1000000000"
  shows "\<exists>slept. nap_loop env required remainder late signals =
      (0, env\<lparr>errno := if signals \<noteq> [] \<and> int (fst (hd signals)) < nanoseconds_of required then EINTR else errno env\<rparr>, slept) \<and>
    nanoseconds_of required \<le> slept \<and> slept \<le> nanoseconds_of required + int (sum_list (map snd signals) + late)"
  using assms
proof (induction signals arbitrary: env required remainder)
  case Nil
  then show ?case by (simp add: nap_loop.simps [of env] nanosleep_def)
next
  case (Cons s ts)
  obtain t up where s: "s = (t, up)" by fastforce
  show ?case
  proof (cases "int t < nanoseconds_of required")
    case True
    define left where "left = nanoseconds_of required - int t + int up"
    let ?rest = "\<lparr>tv_sec = left div 1000000000, tv_nsec = left mod 1000000000\<rparr>"
    have left: "0 \<le> left" "nanoseconds_of ?rest = left" using True by (simp_all add: left_def nanoseconds_of_def)
    then have ok: "0 \<le> tv_sec ?rest" "0 \<le> tv_nsec ?rest" "tv_nsec ?rest < 1000000000" by simp_all
    have "nanosleep required remainder late (s # ts) = (-1, Some EINTR, ?rest, int t, ts)"
      using True Cons.prems by (simp add: nanosleep_def left_def Let_def s)
    then show ?thesis
      using Cons.IH [OF ok, of "env\<lparr>errno := EINTR\<rparr>" ?rest] True left
      by (auto simp: nap_loop.simps [of env required] left_def s)
  next
    case False
    then show ?thesis using Cons.prems by (simp add: nap_loop.simps [of env] nanosleep_def s)
  qed
qed

section \<open>Properties\<close>

text \<open>C40. \<open>nap\<close> of less than a second sleeps for at least that long, however often signals interrupt
  it, and for no longer than the rounding of the remaining times and the lateness of the last
  call add; it reports nothing, and its only trace is \<open>EINTR\<close> in \<open>errno\<close> after an interruption.
  A second or more is not divided into seconds and nanoseconds: \<open>nanosleep\<close> rejects it, and
  \<open>nap\<close> reports \<open>EINVAL\<close> without having slept at all.\<close>

theorem nap_sleeps:
  "if n = 0 then nap env garbage late signals n = (env, 0)
   else if n < 1000000000 then
     \<exists>slept. nap env garbage late signals n =
         (env\<lparr>errno := if signals \<noteq> [] \<and> fst (hd signals) < unat n then EINTR else errno env\<rparr>, slept) \<and>
       int (unat n) \<le> slept \<and> slept \<le> int (unat n + sum_list (map snd signals) + late)
   else nap env garbage late signals n =
     (report_error ''mutex_validator.c:106'' ''nanosleep'' (env\<lparr>errno := EINVAL\<rparr>), 0)"
proof -
  consider "n = 0" | "n \<noteq> 0" "n < 1000000000" | "n \<noteq> 0" "\<not> n < 1000000000" by blast
  then show ?thesis
  proof cases
    case 1
    then show ?thesis by (simp add: nap_def)
  next
    case 2
    let ?req = "\<lparr>tv_sec = 0, tv_nsec = int (unat n)\<rparr>"
    have u: "unat n < 1000000000" using 2(2) by (simp add: word_less_nat_alt)
    then have s: "sint n = int (unat n)" by (intro sint_u64_small) simp
    have lt: "(int (fst (hd signals)) < int (unat n)) = (fst (hd signals) < unat n)" by (simp only: of_nat_less_iff)
    have ns: "nanoseconds_of ?req = int (unat n)" by (simp add: nanoseconds_of_def)
    have "int (unat n) < int 1000000000" using u by (simp only: of_nat_less_iff)
    then have pre: "0 \<le> tv_sec ?req" "0 \<le> tv_nsec ?req" "tv_nsec ?req < 1000000000"
      by (simp_all only: timespec.select_convs of_nat_numeral of_nat_0_le_iff order_refl)
    obtain slept where "nap_loop env ?req garbage late signals =
        (0, env\<lparr>errno := if signals \<noteq> [] \<and> fst (hd signals) < unat n then EINTR else errno env\<rparr>, slept)"
      "int (unat n) \<le> slept" "slept \<le> int (unat n) + int (sum_list (map snd signals) + late)"
      using nap_loop_sleeps [OF pre, of env garbage late signals] unfolding ns lt by blast
    then show ?thesis
      using 2 by (simp only: nap_def s prod.case if_True if_False simp_thms not_True_eq_False) (auto simp: algebra_simps)
  next
    case 3
    have "\<not> unat n < 1000000000" using 3(2) by (simp add: word_less_nat_alt)
    then have "int 1000000000 \<le> int (unat n)" by (simp only: of_nat_le_iff not_less)
    then have "sint n < 0 \<or> 1000000000 \<le> sint n" using sint_u64_cases [of n] by (metis of_nat_numeral)
    then show ?thesis using 3 by (auto simp: nap_def nap_loop.simps nanosleep_def)
  qed
qed

text \<open>The delays that the validators of the ring buffer and of the list use.\<close>

definition RING_BUFFER_VALIDATOR_DELAY :: u64 where "RING_BUFFER_VALIDATOR_DELAY = 1000"
definition LIST_DELAY :: u64 where "LIST_DELAY = 1000"

lemma validator_delays:
  "stderr_log (fst (nap env garbage late signals RING_BUFFER_VALIDATOR_DELAY)) = stderr_log env"
  "stderr_log (fst (nap env garbage late signals LIST_DELAY)) = stderr_log env"
proof -
  obtain slept where "nap_loop env \<lparr>tv_sec = 0, tv_nsec = 1000\<rparr> garbage late signals =
      (0, env\<lparr>errno := if signals \<noteq> [] \<and> int (fst (hd signals)) < 1000 then EINTR else errno env\<rparr>, slept)"
    using nap_loop_sleeps [of "\<lparr>tv_sec = 0, tv_nsec = 1000\<rparr>" env garbage late signals] by (auto simp: nanoseconds_of_def)
  then have "stderr_log (fst (nap env garbage late signals 1000)) = stderr_log env" by (simp add: nap_def)
  then show "stderr_log (fst (nap env garbage late signals RING_BUFFER_VALIDATOR_DELAY)) = stderr_log env"
    "stderr_log (fst (nap env garbage late signals LIST_DELAY)) = stderr_log env"
    by (simp_all add: RING_BUFFER_VALIDATOR_DELAY_def LIST_DELAY_def)
qed

end
