(* ===== verification/Image.thy ===== *)
theory Image
  imports Prelude
begin

text \<open>
  The memory-mapped image of the file system (\<open>a1_filesystem\<close>): a flat array of bytes with
  bounds-checked access, the typed accesses of the code (little-endian integers and C
  strings), and the arithmetic of its \<open>int\<close> offsets.  Reading what was written is captured by
  two laws, for ranges inside a write and for disjoint ones.  The helpers of \<open>util.h\<close> are
  here too.
\<close>

section \<open>Bytes\<close>

record image =
  img_size :: nat
  img_byte :: "nat \<Rightarrow> u8"

text \<open>Offsets are C \<open>int\<close>s; an access outside the image is undefined.\<close>

definition rd :: "image \<Rightarrow> int \<Rightarrow> nat \<Rightarrow> u8 list option" where
  "rd img off n =
     (if 0 \<le> off \<and> nat off + n \<le> img_size img
      then Some (map (\<lambda>i. img_byte img (nat off + i)) [0..<n]) else None)"

definition wr :: "image \<Rightarrow> int \<Rightarrow> u8 list \<Rightarrow> image option" where
  "wr img off bs =
     (if 0 \<le> off \<and> nat off + length bs \<le> img_size img
      then Some (img\<lparr>img_byte := (\<lambda>i. if nat off \<le> i \<and> i < nat off + length bs
                                     then bs ! (i - nat off) else img_byte img i)\<rparr>)
      else None)"

lemma rd_length: "rd img off n = Some bs \<Longrightarrow> length bs = n"
  by (auto simp: rd_def split: if_splits)

lemma rd_defined: "(\<exists>bs. rd img off n = Some bs) \<longleftrightarrow> 0 \<le> off \<and> nat off + n \<le> img_size img"
  by (simp add: rd_def)

lemma wr_size: "wr img off bs = Some img' \<Longrightarrow> img_size img' = img_size img"
  by (auto simp: wr_def split: if_splits)

text \<open>A write that stays inside the image succeeds.\<close>

lemma wr_ok:
  "0 \<le> off \<Longrightarrow> nat off + length bs \<le> img_size img \<Longrightarrow> \<exists>img'. wr img off bs = Some img' \<and> img_size img' = img_size img"
  by (simp add: wr_def)

text \<open>Reading inside what was written, and reading elsewhere.\<close>

lemma rd_wr_inside:
  assumes "wr img off bs = Some img'" "off \<le> o'" "o' + int n \<le> off + int (length bs)"
  shows "rd img' o' n = Some (take n (drop (nat (o' - off)) bs))"
proof -
  from assms(1) have b: "0 \<le> off" "nat off + length bs \<le> img_size img"
    and img': "img' = img\<lparr>img_byte := (\<lambda>i. if nat off \<le> i \<and> i < nat off + length bs
                                     then bs ! (i - nat off) else img_byte img i)\<rparr>"
    by (auto simp: wr_def split: if_splits)
  have "map (\<lambda>i. img_byte img' (nat o' + i)) [0..<n] = take n (drop (nat (o' - off)) bs)"
  proof (rule nth_equalityI)
    show "length (map (\<lambda>i. img_byte img' (nat o' + i)) [0..<n]) = length (take n (drop (nat (o' - off)) bs))"
      using assms(2,3) by (simp add: min_def) linarith
    fix i assume "i < length (map (\<lambda>i. img_byte img' (nat o' + i)) [0..<n])"
    then have i: "i < n" by simp
    have r: "nat off \<le> nat o' + i" "nat o' + i < nat off + length bs" "nat o' + i - nat off = nat (o' - off) + i"
      "nat (o' - off) \<le> length bs"
      using assms(2,3) i b by linarith+
    with i assms(3) b show "map (\<lambda>i. img_byte img' (nat o' + i)) [0..<n] ! i = take n (drop (nat (o' - off)) bs) ! i"
      by (simp add: img')
  qed
  moreover have "0 \<le> o'" "nat o' + n \<le> img_size img'" using assms(2,3) b by (simp_all add: img')
  ultimately show ?thesis by (simp add: rd_def)
qed

lemma rd_wr_same: "wr img off bs = Some img' \<Longrightarrow> rd img' off (length bs) = Some bs"
  using rd_wr_inside [of img off bs img' off "length bs"] by simp

lemma rd_wr_disjoint:
  assumes "wr img off bs = Some img'" "o' + int n \<le> off \<or> off + int (length bs) \<le> o'"
  shows "rd img' o' n = rd img o' n"
proof -
  from assms(1) have b: "0 \<le> off" "nat off + length bs \<le> img_size img"
    and img': "img' = img\<lparr>img_byte := (\<lambda>i. if nat off \<le> i \<and> i < nat off + length bs
                                     then bs ! (i - nat off) else img_byte img i)\<rparr>"
    by (auto simp: wr_def split: if_splits)
  have "img_byte img' (nat o' + i) = img_byte img (nat o' + i)" if "i < n" "0 \<le> o'" for i
    using that assms(2) b by (auto simp: img')
  then show ?thesis by (auto simp: rd_def img' intro!: map_cong)
qed

lemma wr_room:
  assumes "0 \<le> off" "off + int (length bs) \<le> int (img_size img)"
  shows "\<exists>img'. wr img off bs = Some img' \<and> img_size img' = img_size img"
proof -
  have "int (nat off + length bs) \<le> int (img_size img)" using assms by simp
  then show ?thesis using assms(1) by (intro wr_ok) (simp_all only: of_nat_le_iff)
qed

lemma rd_sub:
  assumes "rd img off n = Some bs" "off \<le> o'" "o' + int k \<le> off + int n"
  shows "rd img o' k = Some (take k (drop (nat (o' - off)) bs))"
proof -
  have b: "0 \<le> off" "nat off + n \<le> img_size img" "bs = map (\<lambda>i. img_byte img (nat off + i)) [0..<n]"
    using assms(1) by (auto simp: rd_def split: if_splits)
  have "map (\<lambda>i. img_byte img (nat o' + i)) [0..<k] = take k (drop (nat (o' - off)) bs)"
  proof (rule nth_equalityI)
    show "length (map (\<lambda>i. img_byte img (nat o' + i)) [0..<k]) = length (take k (drop (nat (o' - off)) bs))"
      using assms(2,3) b by (simp add: min_def) linarith
    fix i assume "i < length (map (\<lambda>i. img_byte img (nat o' + i)) [0..<k])"
    then have i: "i < k" by simp
    have "nat off + (nat (o' - off) + i) = nat o' + i" "nat (o' - off) + i < n" using assms(2,3) i b by linarith+
    with i b(3) show "map (\<lambda>i. img_byte img (nat o' + i)) [0..<k] ! i = take k (drop (nat (o' - off)) bs) ! i"
      by (simp flip: add.assoc)
  qed
  moreover have "0 \<le> o'" "nat o' + k \<le> img_size img" using assms(2,3) b by linarith+
  ultimately show ?thesis by (simp add: rd_def)
qed

text \<open>Two adjacent ranges are one.\<close>

lemma rd_append:
  assumes "rd img off n = Some as" "rd img (off + int n) k = Some bs"
  shows "rd img off (n + k) = Some (as @ bs)"
proof -
  have "[0..<n + k] = [0..<n] @ map (\<lambda>i. n + i) [0..<k]"
    by (induction k) auto
  with assms show ?thesis
    by (auto simp: rd_def nat_add_distrib add.assoc split: if_splits)
qed

section \<open>Integers\<close>

definition ld32 :: "image \<Rightarrow> int \<Rightarrow> u32 option" where
  "ld32 img off = map_option of_le (rd img off 4)"

definition ld64 :: "image \<Rightarrow> int \<Rightarrow> u64 option" where
  "ld64 img off = map_option of_le (rd img off 8)"

definition st32 :: "image \<Rightarrow> int \<Rightarrow> u32 \<Rightarrow> image option" where
  "st32 img off v = wr img off (le_bytes 4 v)"

definition st64 :: "image \<Rightarrow> int \<Rightarrow> u64 \<Rightarrow> image option" where
  "st64 img off v = wr img off (le_bytes 8 v)"

lemma ld_defined:
  "(\<exists>v. ld32 img off = Some v) \<longleftrightarrow> 0 \<le> off \<and> nat off + 4 \<le> img_size img"
  "(\<exists>v. ld64 img off = Some v) \<longleftrightarrow> 0 \<le> off \<and> nat off + 8 \<le> img_size img"
  using rd_defined [of img off 4] rd_defined [of img off 8] by (auto simp: ld32_def ld64_def)

lemma ld32_st32: "st32 img off v = Some img' \<Longrightarrow> ld32 img' off = Some v"
  using rd_wr_same [of img off "le_bytes 4 v" img'] by (simp add: st32_def ld32_def)

lemma ld64_st64: "st64 img off v = Some img' \<Longrightarrow> ld64 img' off = Some v"
  using rd_wr_same [of img off "le_bytes 8 v" img'] by (simp add: st64_def ld64_def)

text \<open>Arithmetic of type \<open>int\<close>: a result outside its range is undefined.\<close>

definition int_ok :: "int \<Rightarrow> bool" where
  "int_ok x \<longleftrightarrow> - 2147483648 \<le> x \<and> x \<le> 2147483647"

definition cint :: "int \<Rightarrow> int option" where
  "cint x = (if int_ok x then Some x else None)"

lemma cint_eq [simp]: "cint x = Some y \<longleftrightarrow> int_ok x \<and> y = x"
  by (auto simp: cint_def)

lemma cint_ok: "int_ok x \<Longrightarrow> cint x = Some x"
  by (simp add: cint_def)

definition A1FS_BLOCK_SIZE :: int where
  "A1FS_BLOCK_SIZE = 4096"

text \<open>The offset of a block, \<open>(a + b) * A1FS_BLOCK_SIZE\<close>.\<close>

definition block_off :: "int \<Rightarrow> int \<Rightarrow> int option" where
  "block_off a b = do {
     s \<leftarrow> cint (a + b);
     cint (s * A1FS_BLOCK_SIZE)
   }"

section \<open>Strings\<close>

text \<open>A null-terminated string that starts at an offset and ends within \<open>n\<close> bytes.\<close>

fun cstr :: "image \<Rightarrow> int \<Rightarrow> nat \<Rightarrow> u8 list option" where
  "cstr img off 0 = None"
| "cstr img off (Suc n) = do {
     b \<leftarrow> rd img off 1;
     if hd b = 0 then Some []
     else do {
       rest \<leftarrow> cstr img (off + 1) n;
       Some (hd b # rest)
     }
   }"

text \<open>The bytes of a string with its terminator.\<close>

definition str_bytes :: "u8 list \<Rightarrow> u8 list" where
  "str_bytes s = s @ [0]"

lemma cstr_rd:
  assumes "rd img off (length s + 1) = Some (s @ [0])" "0 \<notin> set s" "length s < n"
  shows "cstr img off n = Some s"
  using assms
proof (induction s arbitrary: off n)
  case Nil
  then show ?case by (cases n) auto
next
  case (Cons b s)
  then obtain k where n: "n = Suc k" by (cases n) auto
  have off: "0 \<le> off" "nat off + Suc (Suc (length s)) \<le> img_size img"
    and bytes: "map (\<lambda>i. img_byte img (nat off + i)) [0..<Suc (Suc (length s))] = b # s @ [0]"
    using Cons.prems(1) by (auto simp: rd_def simp del: upt_Suc split: if_splits)
  have first: "rd img off 1 = Some [b]"
    using off bytes by (simp add: rd_def upt_rec)
  have "rd img (off + 1) (length s + 1) = Some (s @ [0])"
  proof -
    have "map (\<lambda>i. img_byte img (nat (off + 1) + i)) [0..<Suc (length s)] =
        tl (map (\<lambda>i. img_byte img (nat off + i)) [0..<Suc (Suc (length s))])"
      by (rule nth_equalityI) (use off(1) in \<open>simp_all add: nth_tl nat_add_distrib del: upt_Suc\<close>)
    also have "\<dots> = s @ [0]" by (simp only: bytes list.sel)
    finally show ?thesis using off by (simp add: rd_def nat_add_distrib del: upt_Suc)
  qed
  then have "cstr img (off + 1) k = Some s" using Cons.IH [of "off + 1" k] Cons.prems(2,3) n by simp
  with first Cons.prems(2) n show ?case by simp
qed

text \<open>\<open>strcpy\<close> into an array of \<open>n\<close> characters.\<close>

definition put_str :: "nat \<Rightarrow> image \<Rightarrow> int \<Rightarrow> u8 list \<Rightarrow> image option" where
  "put_str n img off s = (if length s < n then wr img off (str_bytes s) else None)"

section \<open>Frames\<close>

text \<open>The images differ at most in the listed ranges (offset and width).\<close>

definition apart :: "int \<Rightarrow> nat \<Rightarrow> int \<times> nat \<Rightarrow> bool" where
  "apart off n r \<longleftrightarrow> off + int n \<le> fst r \<or> fst r + int (snd r) \<le> off"

definition changed :: "image \<Rightarrow> image \<Rightarrow> (int \<times> nat) list \<Rightarrow> bool" where
  "changed img img' rs \<longleftrightarrow> img_size img' = img_size img \<and>
     (\<forall>off n. list_all (apart off n) rs \<longrightarrow> rd img' off n = rd img off n)"

text \<open>The images agree in a range.\<close>

definition agrees :: "image \<Rightarrow> image \<Rightarrow> int \<Rightarrow> nat \<Rightarrow> bool" where
  "agrees img img' off n \<longleftrightarrow>
     (\<forall>o' k. off \<le> o' \<longrightarrow> o' + int k \<le> off + int n \<longrightarrow> rd img' o' k = rd img o' k)"

lemma changed_refl [simp]: "changed img img []"
  by (simp add: changed_def)

lemma changed_size: "changed img img' rs \<Longrightarrow> img_size img' = img_size img"
  by (simp add: changed_def)

lemma changed_trans: "changed img img1 rs \<Longrightarrow> changed img1 img2 rs' \<Longrightarrow> changed img img2 (rs @ rs')"
  by (simp add: changed_def)

text \<open>Ranges inside one range.\<close>

lemma changed_merge:
  assumes "changed img img' rs" "list_all (\<lambda>(o', k). off \<le> o' \<and> o' + int k \<le> off + int n) rs"
  shows "changed img img' [(off, n)]"
proof -
  have "list_all (apart o' k) rs" if "apart o' k (off, n)" for o' k
    using assms(2) that by (fastforce simp: list_all_iff apart_def)
  with assms(1) show ?thesis by (simp add: changed_def)
qed

lemma changed_agrees:
  assumes "changed img img' rs" "list_all (apart off n) rs"
  shows "agrees img img' off n"
proof -
  have "list_all (apart o' k) rs" if "off \<le> o'" "o' + int k \<le> off + int n" for o' k
    using assms(2) that by (fastforce simp: list_all_iff apart_def)
  with assms(1) show ?thesis by (simp add: changed_def agrees_def)
qed

lemma agrees_refl [simp]: "agrees img img off n"
  by (simp add: agrees_def)

lemma agrees_sub: "agrees img img' off n \<Longrightarrow> off \<le> o' \<Longrightarrow> o' + int k \<le> off + int n \<Longrightarrow> agrees img img' o' k"
  by (simp add: agrees_def)

lemma agrees_rd: "agrees img img' off n \<Longrightarrow> off \<le> o' \<Longrightarrow> o' + int k \<le> off + int n \<Longrightarrow> rd img' o' k = rd img o' k"
  by (simp add: agrees_def)

lemma agrees_ld32: "agrees img img' off n \<Longrightarrow> off \<le> o' \<Longrightarrow> o' + 4 \<le> off + int n \<Longrightarrow> ld32 img' o' = ld32 img o'"
  using agrees_rd [of img img' off n o' 4] by (simp add: ld32_def)

lemma agrees_ld64: "agrees img img' off n \<Longrightarrow> off \<le> o' \<Longrightarrow> o' + 8 \<le> off + int n \<Longrightarrow> ld64 img' o' = ld64 img o'"
  using agrees_rd [of img img' off n o' 8] by (simp add: ld64_def)

lemma agrees_cstr: "agrees img img' off n \<Longrightarrow> off \<le> o' \<Longrightarrow> o' + int k \<le> off + int n \<Longrightarrow> cstr img' o' k = cstr img o' k"
proof (induction k arbitrary: o')
  case (Suc k)
  have "rd img' o' 1 = rd img o' 1" using agrees_rd [OF Suc.prems(1,2), of 1] Suc.prems(3) by simp
  moreover have "cstr img' (o' + 1) k = cstr img (o' + 1) k" using Suc by simp
  ultimately show ?case by (simp cong: if_cong)
qed simp

lemmas agrees_access = agrees_rd agrees_ld32 agrees_ld64 agrees_cstr

section \<open>Stores\<close>

text \<open>What every store to the image promises: it succeeds inside the image, keeps its size, and
  changes only the bytes it covers.\<close>

locale store_op =
  fixes st :: "image \<Rightarrow> int \<Rightarrow> 'v \<Rightarrow> image option"
    and valid :: "'v \<Rightarrow> bool"
    and width :: "'v \<Rightarrow> nat"
  assumes st_defined: "0 \<le> off \<Longrightarrow> off + int (width v) \<le> int (img_size img) \<Longrightarrow> valid v \<Longrightarrow>
      \<exists>img'. st img off v = Some img'"
    and st_size: "st img off v = Some img' \<Longrightarrow> img_size img' = img_size img"
    and st_frame: "st img off v = Some img' \<Longrightarrow> o' + int n \<le> off \<or> off + int (width v) \<le> o' \<Longrightarrow>
      rd img' o' n = rd img o' n"
begin

lemma st_ok:
  assumes "0 \<le> off" "off + int (width v) \<le> int (img_size img)" "valid v"
  shows "\<exists>img'. st img off v = Some img' \<and> img_size img' = img_size img"
  using st_defined [OF assms] st_size by blast

lemma st_changed: "st img off v = Some img' \<Longrightarrow> changed img img' [(off, width v)]"
  using st_size st_frame by (simp add: changed_def apart_def)

lemma st_effect:
  assumes "0 \<le> off" "off + int (width v) \<le> int (img_size img)" "valid v"
  shows "\<exists>img'. st img off v = Some img' \<and> changed img img' [(off, width v)]"
  using st_defined [OF assms] st_changed by blast

end

text \<open>A store with a matching load.\<close>

locale field = store_op +
  fixes ld :: "image \<Rightarrow> int \<Rightarrow> 'v option"
  assumes ld_st: "st img off v = Some img' \<Longrightarrow> ld img' off = Some v"
begin

lemma field_effect:
  assumes "0 \<le> off" "off + int (width v) \<le> int (img_size img)" "valid v"
  shows "\<exists>img'. st img off v = Some img' \<and> changed img img' [(off, width v)] \<and> ld img' off = Some v"
  using st_effect [OF assms] ld_st by blast

end

interpretation raw: store_op wr "\<lambda>_. True" length
  by unfold_locales (auto simp: wr_size rd_wr_disjoint dest: wr_room)

interpretation f32: field st32 "\<lambda>_. True" "\<lambda>_. 4" ld32
  using raw.st_defined raw.st_size raw.st_frame
  by unfold_locales (auto simp: st32_def ld32_st32 [unfolded st32_def])

interpretation f64: field st64 "\<lambda>_. True" "\<lambda>_. 8" ld64
  using raw.st_defined raw.st_size raw.st_frame
  by unfold_locales (auto simp: st64_def ld64_st64 [unfolded st64_def])

interpretation text_field: store_op "put_str n" "\<lambda>s. length s < n" "\<lambda>s. length s + 1" for n
proof (unfold_locales, goal_cases)
  case (1 off v img)
  then show ?case using raw.st_defined [of off "str_bytes v" img] by (auto simp: put_str_def str_bytes_def)
next
  case (2 img off v img')
  then show ?case using raw.st_size by (auto simp: put_str_def split: if_splits)
next
  case (3 img off v img' o' k)
  then show ?case
    using raw.st_frame [of img off "str_bytes v" img' o' k] by (auto simp: put_str_def str_bytes_def split: if_splits)
qed

lemma cstr_put_str:
  assumes "put_str n img off s = Some img'" "0 \<notin> set s"
  shows "cstr img' off n = Some s"
proof -
  have "length s < n" "wr img off (s @ [0]) = Some img'"
    using assms(1) by (auto simp: put_str_def str_bytes_def split: if_splits)
  then show ?thesis using cstr_rd [of img' off s n] rd_wr_same [of img off "s @ [0]" img'] assms(2) by simp
qed

section \<open>util.h\<close>

definition is_powerof2 :: "u64 \<Rightarrow> bool" where
  "is_powerof2 x \<longleftrightarrow> x AND (x - 1) = 0"

definition is_aligned :: "u64 \<Rightarrow> u64 \<Rightarrow> bool option" where
  "is_aligned x alignment =
     (if is_powerof2 alignment then Some (x AND (alignment - 1) = 0) else None)"

definition align_up :: "u64 \<Rightarrow> u64 \<Rightarrow> u64 option" where
  "align_up x alignment =
     (if is_powerof2 alignment then Some ((x + alignment - 1) AND (NOT alignment + 1)) else None)"

lemma pow2_minus_1: "(2 ^ k - 1 :: u64) = mask k"
  by (simp add: mask_eq_exp_minus_1)

lemma pow2_neg: "k < 64 \<Longrightarrow> NOT (2 ^ k :: u64) + 1 = NOT (mask k)"
  by (simp add: mask_eq_exp_minus_1 not_eq_complement)

lemma is_powerof2_pow: "k < 64 \<Longrightarrow> is_powerof2 (2 ^ k)"
  unfolding is_powerof2_def pow2_minus_1
  by (rule bit_word_eqI) (auto simp: bit_simps)

lemma is_aligned_pow: "k < 64 \<Longrightarrow> is_aligned x (2 ^ k) = Some (2 ^ k dvd unat x)"
  using is_powerof2_pow by (simp only: is_aligned_def pow2_minus_1 and_mask_dvd_nat if_True)

lemma unat_and_not_mask: "unat (y AND NOT (mask k) :: u64) = (unat y div 2 ^ k) * 2 ^ k"
proof -
  have "y AND NOT (mask k) = push_bit k (drop_bit k y)"
    by (rule bit_word_eqI) (auto simp: bit_simps)
  moreover have "(unat y div 2 ^ k) * 2 ^ k < 2 ^ 64"
    by (rule le_less_trans [OF div_times_less_eq_dividend]) (use unsigned_less [of y] in simp)
  moreover have "unat (push_bit k (drop_bit k y)) = take_bit 64 (push_bit k (drop_bit k (take_bit 64 (unat y))))"
    by (simp only: unsigned_push_bit_eq unsigned_drop_bit_eq) simp
  moreover have "take_bit 64 (unat y) = unat y"
    using unsigned_less [of y, where ?'a = nat] by (simp add: take_bit_nat_eq_self)
  ultimately show ?thesis by (simp only: push_bit_eq_mult drop_bit_eq_div take_bit_nat_eq_self)
qed

lemma unat_and_mask: "unat (x AND mask k :: u64) = unat x mod 2 ^ k"
proof -
  have "unat (x AND mask k) = take_bit k (unat x)"
    by (simp only: take_bit_eq_mask [symmetric] unsigned_take_bit_eq)
  then show ?thesis by (simp only: take_bit_eq_mod)
qed

text \<open>\<open>is_aligned\<close> and \<open>align_up\<close> for an alignment that is a power of two, as their callers
  must pass (\<open>is_powerof2\<close> accepts it): \<open>is_aligned\<close> decides divisibility, and \<open>align_up\<close>
  gives the least multiple of the alignment that is not below \<open>x\<close>, as long as it fits 64 bits.\<close>

lemma align_up_least:
  assumes k: "k < 64" and x: "unat x + 2 ^ k \<le> 2 ^ 64"
  shows "is_powerof2 (2 ^ k) \<and> is_aligned x (2 ^ k) = Some (2 ^ k dvd unat x) \<and>
    (\<exists>r. align_up x (2 ^ k) = Some r \<and> 2 ^ k dvd unat r \<and> unat x \<le> unat r \<and> unat r < unat x + 2 ^ k)"
proof -
  let ?p = "2 ^ k :: nat" and ?r = "(x + 2 ^ k - 1) AND NOT (mask k)"
  have p: "unat (2 ^ k :: u64) = ?p" using unat_of_nat_u64 [OF power_strict_increasing [OF k]] by simp
  note is_aligned_pow [OF k, of x]
  moreover have "unat (x + 2 ^ k - 1) = unat x + ?p - 1"
  proof -
    have "x + 2 ^ k - 1 = x + (2 ^ k - 1)" by simp
    moreover have "unat (2 ^ k - 1 :: u64) = ?p - 1" using p k by (subst unat_sub) (simp_all add: word_le_nat_alt)
    moreover have "0 < ?p" by simp
    ultimately show ?thesis using x unat_plus_small [of x "2 ^ k - 1"] by (simp only:)
  qed
  then have r: "unat ?r = ((unat x + ?p - 1) div ?p) * ?p" by (simp only: unat_and_not_mask)
  moreover have "unat x \<le> unat ?r" "unat ?r < unat x + ?p"
  proof -
    have pos: "0 < ?p" by simp
    have "unat x + ?p - 1 = unat ?r + (unat x + ?p - 1) mod ?p" unfolding r by (rule div_mult_mod_eq [symmetric])
    moreover have "(unat x + ?p - 1) mod ?p < ?p" using pos by (rule mod_less_divisor)
    ultimately show "unat x \<le> unat ?r" "unat ?r < unat x + ?p" using pos by linarith+
  qed
  ultimately show ?thesis
    using is_powerof2_pow [OF k] pow2_neg [OF k] by (simp add: align_up_def)
qed

lemma align_up_example:
  "is_aligned 5000 4096 = Some False \<and> (\<exists>r. align_up 5000 4096 = Some r \<and> 4096 dvd unat r \<and> 5000 \<le> unat r \<and> unat r < 9096)"
  using align_up_least [of 12 5000] by simp

end
