(* ===== verification/A1fs_Format.thy ===== *)
theory A1fs_Format
  imports Image
begin

text \<open>
  The on-disk format (\<open>a1fs.h\<close>) and the formatting tool (\<open>mkfs.c\<close>).  The structures are
  records of their fields with functions that give their bytes; padding bytes, which C leaves
  unspecified, are a parameter.  The layout of a formatted image is shown to be the one that
  the superblock describes.
\<close>

section \<open>Structures\<close>

definition A1FS_MAGIC :: u64 where
  "A1FS_MAGIC = 0xC5C369A1C5C369A1"

definition A1FS_NAME_MAX :: nat where
  "A1FS_NAME_MAX = 252"

abbreviation (input) S_IFDIR :: u32 where "S_IFDIR \<equiv> 0x4000"

record a1fs_superblock =
  magic :: u64
  sb_size :: u64
  start_inode_map :: u32
  start_data_map :: u32
  start_inode :: u32
  start_extent :: u32
  start_data :: u32
  inodes_count :: u32
  blocks_count :: u32
  free_blocks_count :: u32
  free_inodes_count :: u32

definition sb_bytes :: "a1fs_superblock \<Rightarrow> u32 \<Rightarrow> u8 list" where
  "sb_bytes sb pad =
     le_bytes 8 (magic sb) @ le_bytes 8 (sb_size sb) @ le_bytes 4 (start_inode_map sb) @
     le_bytes 4 (start_data_map sb) @ le_bytes 4 (start_inode sb) @ le_bytes 4 (start_extent sb) @
     le_bytes 4 (start_data sb) @ le_bytes 4 (inodes_count sb) @ le_bytes 4 (blocks_count sb) @
     le_bytes 4 (free_blocks_count sb) @ le_bytes 4 (free_inodes_count sb) @ le_bytes 4 pad"

record a1fs_inode =
  mode :: u32
  links :: u32
  ino_size :: u64
  mtime_sec :: u64
  mtime_nsec :: u64
  ino_number :: u32
  extent_count :: u32

definition inode_bytes :: "a1fs_inode \<Rightarrow> u32 \<Rightarrow> u8 list" where
  "inode_bytes ino pad =
     le_bytes 4 (mode ino) @ le_bytes 4 (links ino) @ le_bytes 8 (ino_size ino) @
     le_bytes 8 (mtime_sec ino) @ le_bytes 8 (mtime_nsec ino) @ le_bytes 4 (ino_number ino) @
     le_bytes 4 (extent_count ino) @ replicate 20 0 @ le_bytes 4 pad"

record a1fs_extent =
  ext_start :: u32
  ext_count :: u32

definition extent_bytes :: "a1fs_extent \<Rightarrow> u8 list" where
  "extent_bytes e = le_bytes 4 (ext_start e) @ le_bytes 4 (ext_count e)"

record a1fs_dentry =
  d_ino :: u32
  d_name :: "u8 list"

definition dentry_bytes :: "a1fs_dentry \<Rightarrow> u8 list" where
  "dentry_bytes d =
     le_bytes 4 (d_ino d) @ d_name d @ replicate (A1FS_NAME_MAX - length (d_name d)) 0"

lemma length_bytes [simp]:
  "length (sb_bytes sb pad) = 56" "length (inode_bytes ino pad) = 64" "length (extent_bytes e) = 8"
  by (simp_all add: sb_bytes_def inode_bytes_def extent_bytes_def)

lemma length_dentry_bytes [simp]: "length (d_name d) \<le> 252 \<Longrightarrow> length (dentry_bytes d) = 256"
  by (simp add: dentry_bytes_def A1FS_NAME_MAX_def)

text \<open>\<open>"."\<close>, \<open>".."\<close> and \<open>"/"\<close> as bytes.\<close>

definition dot :: "u8 list" where "dot = [46]"
definition dotdot :: "u8 list" where "dotdot = [46, 46]"
definition slash :: u8 where "slash = 47"

section \<open>mkfs\<close>

record mkfs_opts =
  opt_img_path :: "string option"
  n_inodes :: u64
  opt_help :: bool
  opt_force :: bool
  opt_zero :: bool

definition a1fs_is_present :: "image \<Rightarrow> bool option" where
  "a1fs_is_present img = map_option (\<lambda>m. m = A1FS_MAGIC) (ld64 img 0)"

text \<open>The loop that zeroes the inode bitmap, from \<open>i\<close> on with \<open>n\<close> iterations left.\<close>

fun zero_maps :: "image \<Rightarrow> int \<Rightarrow> int \<Rightarrow> nat \<Rightarrow> image option" where
  "zero_maps img start i 0 = Some img"
| "zero_maps img start i (Suc n) = do {
     s \<leftarrow> cint (start * A1FS_BLOCK_SIZE);
     off \<leftarrow> cint (s * i);
     img' \<leftarrow> wr img off (replicate 4096 0);
     zero_maps img' start (i + 1) n
   }"

text \<open>A \<open>size_t\<close> that is stored in an \<open>int\<close>, and an \<open>int\<close> in an expression of type \<open>size_t\<close>.\<close>

definition to_int :: "u64 \<Rightarrow> int" where
  "to_int x = sint (ucast x :: u32)"

definition mkfs :: "image \<Rightarrow> u64 \<Rightarrow> mkfs_opts \<Rightarrow> u32 \<Rightarrow> u32 \<Rightarrow> image option" where
  "mkfs img sz opts pad ipad = do {
     let n = n_inodes opts;
     let inode_bit_size = to_int (n div (4096 * 8) + 1);
     let inode_size = to_int (n div 64 + 1);
     si \<leftarrow> cint (inode_bit_size + 3);
     se \<leftarrow> cint (si + inode_size);
     let sd = to_int (word_of_int se + n);
     sdm \<leftarrow> cint (1 + inode_bit_size);
     let blocks = (ucast (sz div 4096 - (word_of_int se + n + 3)) :: u32);
     let sb = \<lparr>magic = A1FS_MAGIC, sb_size = sz, start_inode_map = 1, start_data_map = word_of_int sdm,
               start_inode = word_of_int si, start_extent = word_of_int se, start_data = word_of_int sd,
               inodes_count = ucast n, blocks_count = blocks, free_blocks_count = blocks,
               free_inodes_count = ucast n\<rparr>;
     img1 \<leftarrow> wr img 0 (sb_bytes sb pad);
     si_off \<leftarrow> cint (si * A1FS_BLOCK_SIZE);
     img2 \<leftarrow> wr img1 si_off (inode_bytes \<lparr>mode = S_IFDIR OR 511, links = 2, ino_size = 512,
               mtime_sec = 0, mtime_nsec = 0, ino_number = 0, extent_count = 1\<rparr> ipad);
     img3 \<leftarrow> zero_maps img2 1 0 (nat inode_bit_size);
     sdm_off \<leftarrow> cint (sdm * A1FS_BLOCK_SIZE);
     img4 \<leftarrow> wr img3 sdm_off (replicate 4096 0);
     sdm1 \<leftarrow> cint (sdm + 1);
     sdm1_off \<leftarrow> cint (sdm1 * A1FS_BLOCK_SIZE);
     img5 \<leftarrow> wr img4 sdm1_off (replicate 4096 0);
     img6 \<leftarrow> wr img5 0 (sb_bytes sb pad);
     let start = (128 :: u32);
     img7 \<leftarrow> wr img6 (1 * A1FS_BLOCK_SIZE) (le_bytes 4 start);
     img8 \<leftarrow> wr img7 sdm_off (le_bytes 4 start);
     sd_off \<leftarrow> cint (sd * A1FS_BLOCK_SIZE);
     img9 \<leftarrow> wr img8 sd_off (dentry_bytes \<lparr>d_ino = 0, d_name = dot\<rparr>);
     img10 \<leftarrow> wr img9 (sd_off + 256) (dentry_bytes \<lparr>d_ino = 0, d_name = dotdot\<rparr>);
     se_off \<leftarrow> cint (se * A1FS_BLOCK_SIZE);
     wr img10 se_off (extent_bytes \<lparr>ext_start = 0, ext_count = 1\<rparr>)
   }"

text \<open>\<open>main\<close> after the image has been mapped: the exit status and the image.\<close>

definition mkfs_main :: "image \<Rightarrow> u64 \<Rightarrow> mkfs_opts \<Rightarrow> u32 \<Rightarrow> u32 \<Rightarrow> (int \<times> image) option" where
  "mkfs_main img sz opts pad ipad = do {
     present \<leftarrow> (if opt_force opts then Some False else a1fs_is_present img);
     if present then Some (1, img)
     else do {
       img1 \<leftarrow> (if opt_zero opts then wr img 0 (replicate (unat sz) 0) else Some img);
       img2 \<leftarrow> mkfs img1 sz opts pad ipad;
       Some (0, img2)
     }
   }"

section \<open>The layout of a formatted image\<close>

text \<open>The block numbers as functions of the number of inodes.\<close>

definition map_blocks :: "nat \<Rightarrow> int" where "map_blocks n = int (n div 32768) + 1"
definition lay_inode :: "nat \<Rightarrow> int" where "lay_inode n = map_blocks n + 3"
definition lay_extent :: "nat \<Rightarrow> int" where "lay_extent n = lay_inode n + int (n div 64) + 1"
definition lay_data :: "nat \<Rightarrow> int" where "lay_data n = lay_extent n + int n"

lemmas lay_defs = map_blocks_def lay_inode_def lay_extent_def lay_data_def

text \<open>The image has room for all metadata and the first data block, and offsets fit an \<open>int\<close>.\<close>

definition fits :: "image \<Rightarrow> nat \<Rightarrow> bool" where
  "fits img n \<longleftrightarrow> (lay_data n + 1) * 4096 \<le> int (img_size img) \<and> (lay_data n + 1) * 4096 \<le> 2147483647"

lemma to_int_small:
  assumes "unat x < 2 ^ 31"
  shows "to_int x = int (unat x)"
proof -
  have "unat (ucast x :: u32) = unat x"
    using assms by (simp add: unsigned_ucast_eq take_bit_nat_eq_self)
  with assms sint_small [of "ucast x"] show ?thesis by (simp only: to_int_def)
qed

lemma zero_maps_ok:
  assumes "0 \<le> i" "(i + int n) * 4096 \<le> int (img_size img)" "(i + int n) * 4096 \<le> 2147483647"
  shows "\<exists>img'. zero_maps img 1 i n = Some img' \<and> img_size img' = img_size img \<and>
    (\<forall>off k. (i + int n) * 4096 \<le> off \<longrightarrow> rd img' off k = rd img off k)"
  using assms
proof (induction n arbitrary: img i)
  case (Suc n)
  have "int (nat (4096 * i) + 4096) \<le> int (img_size img)" using Suc.prems by (simp add: algebra_simps)
  then have room: "nat (4096 * i) + 4096 \<le> img_size img" by (simp only: of_nat_le_iff)
  obtain img1 where w: "wr img (4096 * i) (replicate 4096 0) = Some img1" "img_size img1 = img_size img"
    using wr_ok [of "4096 * i" "replicate 4096 0" img] Suc.prems(1) room by auto
  obtain img' where z: "zero_maps img1 1 (i + 1) n = Some img'" "img_size img' = img_size img1"
    "\<forall>off k. (i + 1 + int n) * 4096 \<le> off \<longrightarrow> rd img' off k = rd img1 off k"
    using Suc.IH [of "i + 1" img1] Suc.prems w(2) by (auto simp: algebra_simps)
  have "rd img' off k = rd img off k" if "(i + int (Suc n)) * 4096 \<le> off" for off k
    using z(3) that rd_wr_disjoint [OF w(1), of off k] Suc.prems(1) by (simp add: algebra_simps)
  moreover have "int_ok (4096 * i)" using Suc.prems by (simp add: int_ok_def)
  ultimately show ?case
    using w z by (simp add: A1FS_BLOCK_SIZE_def cint_def int_ok_def)
qed simp

definition root_inode :: a1fs_inode where
  "root_inode = \<lparr>mode = S_IFDIR OR 511, links = 2, ino_size = 512, mtime_sec = 0, mtime_nsec = 0,
     ino_number = 0, extent_count = 1\<rparr>"

definition mkfs_sb :: "u64 \<Rightarrow> u64 \<Rightarrow> a1fs_superblock" where
  "mkfs_sb sz n =
     (let se = lay_extent (unat n); blocks = ucast (sz div 4096 - (word_of_int se + n + 3))
      in \<lparr>magic = A1FS_MAGIC, sb_size = sz, start_inode_map = 1,
          start_data_map = word_of_int (map_blocks (unat n) + 1),
          start_inode = word_of_int (lay_inode (unat n)), start_extent = word_of_int se,
          start_data = word_of_int (lay_data (unat n)), inodes_count = ucast n,
          blocks_count = blocks, free_blocks_count = blocks, free_inodes_count = ucast n\<rparr>)"

text \<open>The numbers that \<open>mkfs\<close> computes are those of the layout.\<close>

lemma fits_bounds:
  assumes "fits img n"
  shows "lay_data n \<le> 524286" "n < 524288"
proof -
  have "(lay_data n + 1) * 4096 \<le> 2147483647" using assms by (simp add: fits_def)
  then show "lay_data n \<le> 524286" by simp
  moreover have "int n + 5 \<le> lay_data n" by (simp add: lay_defs)
  ultimately show "n < 524288" by linarith
qed

lemma fits_room:
  assumes "fits img n"
  shows "24576 \<le> img_size img"
proof -
  have "5 \<le> lay_data n" "(lay_data n + 1) * 4096 \<le> int (img_size img)"
    using assms by (simp_all add: fits_def lay_defs)
  then show ?thesis by simp
qed

lemma mkfs_numbers:
  assumes "fits img (unat n)"
  shows "to_int (n div (4096 * 8) + 1) = map_blocks (unat n)"
    and "to_int (n div 64 + 1) = int (unat n div 64) + 1"
    and "to_int (word_of_int (lay_extent (unat n)) + n) = lay_data (unat n)"
proof -
  let ?n = "unat n"
  have small: "?n < 524288" using fits_bounds(2) [OF assms] .
  then have small': "?n div 64 < 8192" "?n div 32768 < 16" by linarith+
  have q: "unat (n div 64 + 1) = ?n div 64 + 1" "unat (n div (4096 * 8) + 1) = ?n div 32768 + 1"
    using small' by (simp_all add: unat_div unat_word_ariths)
  show "to_int (n div (4096 * 8) + 1) = map_blocks (unat n)"
    using small' to_int_small [of "n div (4096 * 8) + 1"] by (simp only: q map_blocks_def) simp
  show "to_int (n div 64 + 1) = int (unat n div 64) + 1"
    using small' to_int_small [of "n div 64 + 1"] by (simp only: q) simp
  have e: "lay_extent ?n = int (?n div 32768 + ?n div 64 + 5)" by (simp add: lay_defs)
  have "unat (word_of_int (lay_extent ?n) :: u64) = ?n div 32768 + ?n div 64 + 5"
    unfolding e of_int_of_nat_eq using small' by (intro unat_of_nat_u64) simp
  then have "unat (word_of_int (lay_extent ?n) + n) = ?n div 32768 + ?n div 64 + 5 + ?n"
    using small small' by (simp add: unat_word_ariths)
  then show "to_int (word_of_int (lay_extent ?n) + n) = lay_data ?n"
    using small small' to_int_small [of "word_of_int (lay_extent ?n) + n"] by (simp only: lay_defs) simp
qed

text \<open>What \<open>mkfs\<close> leaves in the image: the superblock, the first entries of the bitmaps, and the
  inode, the extent and the entries of the root directory.\<close>

definition formatted :: "image \<Rightarrow> nat \<Rightarrow> a1fs_superblock \<Rightarrow> u32 \<Rightarrow> u32 \<Rightarrow> bool" where
  "formatted img n sb pad ipad \<longleftrightarrow>
     rd img 0 56 = Some (sb_bytes sb pad) \<and>
     rd img 4096 4 = Some (le_bytes 4 (128 :: u32)) \<and>
     rd img ((map_blocks n + 1) * 4096) 4096 = Some (le_bytes 4 (128 :: u32) @ replicate 4092 0) \<and>
     rd img (lay_inode n * 4096) 64 = Some (inode_bytes root_inode ipad) \<and>
     rd img (lay_extent n * 4096) 8 = Some (extent_bytes \<lparr>ext_start = 0, ext_count = 1\<rparr>) \<and>
     rd img (lay_data n * 4096) 256 = Some (dentry_bytes \<lparr>d_ino = 0, d_name = dot\<rparr>) \<and>
     rd img (lay_data n * 4096 + 256) 256 = Some (dentry_bytes \<lparr>d_ino = 0, d_name = dotdot\<rparr>)"

lemma mkfs_ok:
  assumes f: "fits img (unat (n_inodes opts))" and pos: "n_inodes opts \<noteq> 0"
  shows "\<exists>img'. mkfs img sz opts pad ipad = Some img' \<and> img_size img' = img_size img \<and>
    formatted img' (unat (n_inodes opts)) (mkfs_sb sz (n_inodes opts)) pad ipad \<and>
    (unat (n_inodes opts) < 32768 \<longrightarrow> rd img' 4100 4092 = rd img 4100 4092)"
proof -
  define n where "n = unat (n_inodes opts)"
  define b where "b = map_blocks n"
  define si where "si = lay_inode n"
  define se where "se = lay_extent n"
  define sd where "sd = lay_data n"
  let ?sb = "sb_bytes (mkfs_sb sz (n_inodes opts)) pad" and ?one = "le_bytes 4 (128 :: u32)"
  note num = mkfs_numbers [OF f, folded n_def, folded b_def se_def sd_def]
  have lay: "1 \<le> b" "si = b + 3" "si < se" "se \<le> sd" "se = si + int (n div 64) + 1" "n < 32768 \<longrightarrow> b = 1"
    by (simp_all add: b_def si_def se_def sd_def lay_defs)
  have "n \<noteq> 0" using pos by (simp add: n_def unat_eq_0)
  then have sep: "se < sd" by (simp add: se_def sd_def lay_defs)
  have room: "(sd + 1) * 4096 \<le> int (img_size img)" "(sd + 1) * 4096 \<le> 2147483647"
    using f by (simp_all add: fits_def n_def sd_def)
  obtain i1 where w1: "wr img 0 ?sb = Some i1" "img_size i1 = img_size img"
    using wr_room [of 0 ?sb img] room lay by auto
  obtain i2 where w2: "wr i1 (si * 4096) (inode_bytes root_inode ipad) = Some i2" "img_size i2 = img_size img"
    using wr_room [of "si * 4096" "inode_bytes root_inode ipad" i1] room lay w1 by auto
  obtain i3 where w3: "zero_maps i2 1 0 (nat b) = Some i3" "img_size i3 = img_size img"
    "\<forall>off k. b * 4096 \<le> off \<longrightarrow> rd i3 off k = rd i2 off k"
    using zero_maps_ok [of 0 "nat b" i2] room lay w2(2) by auto
  obtain i4 where w4: "wr i3 ((b + 1) * 4096) (replicate 4096 0) = Some i4" "img_size i4 = img_size img"
    using wr_room [of "(b + 1) * 4096" "replicate 4096 0" i3] room lay w3(2) by auto
  obtain i5 where w5: "wr i4 ((b + 2) * 4096) (replicate 4096 0) = Some i5" "img_size i5 = img_size img"
    using wr_room [of "(b + 2) * 4096" "replicate 4096 0" i4] room lay w4(2) by auto
  obtain i6 where w6: "wr i5 0 ?sb = Some i6" "img_size i6 = img_size img"
    using wr_room [of 0 ?sb i5] room lay w5(2) by auto
  obtain i7 where w7: "wr i6 4096 ?one = Some i7" "img_size i7 = img_size img"
    using wr_room [of 4096 ?one i6] room lay w6(2) by auto
  obtain i8 where w8: "wr i7 ((b + 1) * 4096) ?one = Some i8" "img_size i8 = img_size img"
    using wr_room [of "(b + 1) * 4096" ?one i7] room lay w7(2) by auto
  let ?d1 = "dentry_bytes \<lparr>d_ino = 0, d_name = dot\<rparr>" and ?d2 = "dentry_bytes \<lparr>d_ino = 0, d_name = dotdot\<rparr>"
  have d [simp]: "length ?d1 = 256" "length ?d2 = 256" by (simp_all add: dot_def dotdot_def)
  obtain i9 where w9: "wr i8 (sd * 4096) ?d1 = Some i9" "img_size i9 = img_size img"
    using wr_room [of "sd * 4096" ?d1 i8] room lay w8(2) by auto
  obtain i10 where w10: "wr i9 (sd * 4096 + 256) ?d2 = Some i10" "img_size i10 = img_size img"
    using wr_room [of "sd * 4096 + 256" ?d2 i9] room lay w9(2) by auto
  let ?e = "extent_bytes \<lparr>ext_start = 0, ext_count = 1\<rparr>"
  obtain i11 where w11: "wr i10 (se * 4096) ?e = Some i11" "img_size i11 = img_size img"
    using wr_room [of "se * 4096" ?e i10] room lay w10(2) by auto
  have le: "0 \<le> b" "b + 3 \<le> sd" "0 \<le> si" "si \<le> sd" "0 \<le> se" "se \<le> sd" "sd \<le> 524286" "0 \<le> sd"
    using lay fits_bounds(1) [OF f] by (simp_all add: n_def sd_def)
  have ok: "cint (b + 3) = Some si" "cint (si + (int (n div 64) + 1)) = Some se" "cint (1 + b) = Some (b + 1)"
    "cint (si * 4096) = Some (si * 4096)" "cint ((b + 1) * 4096) = Some ((b + 1) * 4096)"
    "cint (b + 1 + 1) = Some (b + 2)" "cint ((b + 2) * 4096) = Some ((b + 2) * 4096)"
    "cint (sd * 4096) = Some (sd * 4096)" "cint (se * 4096) = Some (se * 4096)"
    using lay(2,5) le by (simp_all add: int_ok_def)
  have sb: "mkfs_sb sz (n_inodes opts) = \<lparr>magic = A1FS_MAGIC, sb_size = sz, start_inode_map = 1,
      start_data_map = word_of_int (b + 1), start_inode = word_of_int si, start_extent = word_of_int se,
      start_data = word_of_int sd, inodes_count = ucast (n_inodes opts),
      blocks_count = ucast (sz div 4096 - (word_of_int se + n_inodes opts + 3)),
      free_blocks_count = ucast (sz div 4096 - (word_of_int se + n_inodes opts + 3)),
      free_inodes_count = ucast (n_inodes opts)\<rparr>"
    by (simp only: mkfs_sb_def Let_def n_def b_def si_def se_def sd_def)
  have call: "mkfs img sz opts pad ipad = Some i11"
    unfolding mkfs_def Let_def num(1,2) A1FS_BLOCK_SIZE_def root_inode_def [symmetric]
    by (simp only: ok Option.bind.bind_lunit num(3) sb [symmetric] w1 w2 w3 w4 w5 w6 w7 w8 w9 w10 w11
        mult_1)
  note keep = rd_wr_disjoint [OF w11(1)] rd_wr_disjoint [OF w10(1)] rd_wr_disjoint [OF w9(1)]
    rd_wr_disjoint [OF w8(1)] rd_wr_disjoint [OF w7(1)] rd_wr_disjoint [OF w6(1)]
    rd_wr_disjoint [OF w5(1)] rd_wr_disjoint [OF w4(1)] w3(3) [rule_format]
    rd_wr_disjoint [OF w2(1)] rd_wr_disjoint [OF w1(1)]
  note lay' = lay(1,2,3,4) sep
  have "rd i11 0 56 = Some ?sb"
    using lay' rd_wr_same [OF w6(1)] by (simp add: keep)
  moreover have "rd i11 4096 4 = Some ?one"
    using lay' rd_wr_same [OF w7(1)] by (simp add: keep)
  moreover have "rd i11 ((b + 1) * 4096) 4096 = Some (?one @ replicate 4092 0)"
  proof -
    have "rd i11 ((b + 1) * 4096) 4 = Some ?one"
      using lay' rd_wr_same [OF w8(1)] by (simp add: keep)
    moreover have "rd i11 ((b + 1) * 4096 + int 4) 4092 = Some (replicate 4092 0)"
      using lay' rd_wr_inside [OF w4(1), of "(b + 1) * 4096 + int 4" 4092] by (simp add: keep)
    ultimately show ?thesis using rd_append [of i11 "(b + 1) * 4096" 4 ?one 4092] by simp
  qed
  moreover have "rd i11 (si * 4096) 64 = Some (inode_bytes root_inode ipad)"
    using lay' rd_wr_same [OF w2(1)] by (simp add: keep)
  moreover have "rd i11 (se * 4096) 8 = Some ?e"
    using rd_wr_same [OF w11(1)] by simp
  moreover have "rd i11 (sd * 4096) 256 = Some ?d1"
    using lay' rd_wr_same [OF w9(1)] by (simp add: keep)
  moreover have "rd i11 (sd * 4096 + 256) 256 = Some ?d2"
    using lay' rd_wr_same [OF w10(1)] by (simp add: keep)
  moreover have "rd i11 4100 4092 = rd img 4100 4092" if "n < 32768"
    using lay' lay(6) that by (simp add: keep)
  ultimately show ?thesis
    using call w11(2) by (simp add: formatted_def n_def b_def si_def se_def sd_def)
qed

section \<open>Typed access\<close>

text \<open>A field of type \<open>int\<close>.\<close>

definition ldi :: "image \<Rightarrow> int \<Rightarrow> int option" where
  "ldi img off = map_option sint (ld32 img off)"

text \<open>The fields of the superblock that the operations use.\<close>

definition sb_start_inode_map :: "image \<Rightarrow> int option" where "sb_start_inode_map img = ldi img 16"
definition sb_start_data_map :: "image \<Rightarrow> int option" where "sb_start_data_map img = ldi img 20"
definition sb_start_inode :: "image \<Rightarrow> int option" where "sb_start_inode img = ldi img 24"
definition sb_start_extent :: "image \<Rightarrow> int option" where "sb_start_extent img = ldi img 28"
definition sb_start_data :: "image \<Rightarrow> int option" where "sb_start_data img = ldi img 32"
definition sb_inodes_count :: "image \<Rightarrow> u32 option" where "sb_inodes_count img = ld32 img 36"
definition sb_free_blocks :: "image \<Rightarrow> u32 option" where "sb_free_blocks img = ld32 img 44"
definition sb_free_inodes :: "image \<Rightarrow> u32 option" where "sb_free_inodes img = ld32 img 48"

lemmas sb_access = sb_start_inode_map_def sb_start_data_map_def sb_start_inode_def sb_start_extent_def
  sb_start_data_def sb_inodes_count_def sb_free_blocks_def sb_free_inodes_def

lemma ld_sub:
  assumes "rd img off n = Some bs" "off \<le> o'"
  shows "o' + 4 \<le> off + int n \<Longrightarrow> ld32 img o' = Some (of_le (take 4 (drop (nat (o' - off)) bs)))"
    and "o' + 8 \<le> off + int n \<Longrightarrow> ld64 img o' = Some (of_le (take 8 (drop (nat (o' - off)) bs)))"
  using rd_sub [OF assms, of 4] rd_sub [OF assms, of 8] by (simp_all add: ld32_def ld64_def)

lemma sb_fields:
  assumes "rd img 0 56 = Some (sb_bytes sb pad)"
  shows "ld64 img 0 = Some (magic sb)" "ld64 img 8 = Some (sb_size sb)"
    "sb_start_inode_map img = Some (sint (start_inode_map sb))"
    "sb_start_data_map img = Some (sint (start_data_map sb))"
    "sb_start_inode img = Some (sint (start_inode sb))"
    "sb_start_extent img = Some (sint (start_extent sb))"
    "sb_start_data img = Some (sint (start_data sb))"
    "sb_inodes_count img = Some (inodes_count sb)"
    "sb_free_blocks img = Some (free_blocks_count sb)"
    "sb_free_inodes img = Some (free_inodes_count sb)"
  by (simp_all add: sb_access ldi_def ld_sub [OF assms] sb_bytes_def)

lemma inode_fields:
  assumes "rd img r 64 = Some (inode_bytes ino pad)"
  shows "ld32 img r = Some (mode ino)" "ld32 img (r + 4) = Some (links ino)"
    "ld64 img (r + 8) = Some (ino_size ino)" "ld32 img (r + 32) = Some (ino_number ino)"
    "ld32 img (r + 36) = Some (extent_count ino)"
  by (simp_all add: ld_sub [OF assms] inode_bytes_def)

lemma extent_fields:
  assumes "rd img r 8 = Some (extent_bytes e)"
  shows "ld32 img r = Some (ext_start e)" "ld32 img (r + 4) = Some (ext_count e)"
  by (simp_all add: ld_sub [OF assms] extent_bytes_def)

lemma dentry_fields:
  assumes "rd img r 256 = Some (dentry_bytes d)" "length (d_name d) < 252" "0 \<notin> set (d_name d)"
  shows "ld32 img r = Some (d_ino d)" "cstr img (r + 4) 252 = Some (d_name d)"
proof -
  show "ld32 img r = Some (d_ino d)"
    using assms(2) by (simp add: ld_sub [OF assms(1)] dentry_bytes_def)
  have "take (length (d_name d) + 1) (drop 4 (dentry_bytes d)) = d_name d @ [0]"
    using assms(2) by (simp add: dentry_bytes_def A1FS_NAME_MAX_def Suc_diff_le)
  then have "rd img (r + 4) (length (d_name d) + 1) = Some (d_name d @ [0])"
    using rd_sub [OF assms(1), of "r + 4" "length (d_name d) + 1"] assms(2) by simp
  then show "cstr img (r + 4) 252 = Some (d_name d)" using cstr_rd assms(2,3) by blast
qed

text \<open>The geometry that a formatted image describes in its superblock.\<close>

definition geometry :: "image \<Rightarrow> nat \<Rightarrow> bool" where
  "geometry img n \<longleftrightarrow> fits img n \<and> n \<noteq> 0 \<and>
     sb_start_inode_map img = Some 1 \<and> sb_start_data_map img = Some (map_blocks n + 1) \<and>
     sb_start_inode img = Some (lay_inode n) \<and> sb_start_extent img = Some (lay_extent n) \<and>
     sb_start_data img = Some (lay_data n)"

lemma sint_word_of_int:
  assumes "0 \<le> x" "x \<le> 2147483647"
  shows "sint (word_of_int x :: u32) = x"
proof -
  obtain k where k: "x = int k" using assms(1) nonneg_int_cases by blast
  then have "k < 2 ^ 31" using assms(2) by simp
  moreover from this have "unat (of_nat k :: u32) = k" by (simp add: unsigned_of_nat take_bit_nat_eq_self)
  ultimately show ?thesis using sint_small [of "of_nat k"] by (simp only: k of_int_of_nat_eq)
qed

lemma formatted_geometry:
  assumes "formatted img (unat n) (mkfs_sb sz n) pad ipad" "fits img (unat n)" "n \<noteq> 0"
  shows "geometry img (unat n)"
proof -
  let ?n = "unat n"
  have b: "0 \<le> map_blocks ?n" "map_blocks ?n + 4 \<le> lay_extent ?n" "lay_extent ?n \<le> lay_data ?n"
    "lay_inode ?n = map_blocks ?n + 3"
    by (simp_all add: lay_defs)
  then have le: "0 \<le> map_blocks ?n + 1" "0 \<le> lay_inode ?n" "0 \<le> lay_extent ?n" "0 \<le> lay_data ?n"
    "map_blocks ?n + 1 \<le> 2147483647" "lay_inode ?n \<le> 2147483647" "lay_extent ?n \<le> 2147483647"
    "lay_data ?n \<le> 2147483647"
    using fits_bounds(1) [OF assms(2)] by simp_all
  then have r: "sint (word_of_int (map_blocks ?n + 1) :: u32) = map_blocks ?n + 1"
    "sint (word_of_int (lay_inode ?n) :: u32) = lay_inode ?n"
    "sint (word_of_int (lay_extent ?n) :: u32) = lay_extent ?n"
    "sint (word_of_int (lay_data ?n) :: u32) = lay_data ?n"
    by (simp_all only: sint_word_of_int)
  have sb: "rd img 0 56 = Some (sb_bytes (mkfs_sb sz n) pad)" using assms(1) by (simp add: formatted_def)
  show ?thesis
    using assms(2,3) unfolding geometry_def sb_fields [OF sb] mkfs_sb_def Let_def
    by (simp add: r unat_eq_0 del: of_int_add)
qed

text \<open>The effect of \<open>main\<close> on a mapped image.\<close>

lemma mkfs_main_effect:
  assumes room: "fits img (unat (n_inodes opts))" and n: "n_inodes opts \<noteq> 0"
    and whole: "unat sz = img_size img"
  shows "if \<not> opt_force opts \<and> ld64 img 0 = Some A1FS_MAGIC then mkfs_main img sz opts pad ipad = Some (1, img)
    else \<exists>img'. mkfs_main img sz opts pad ipad = Some (0, img') \<and> img_size img' = img_size img \<and>
      a1fs_is_present img' = Some True \<and> geometry img' (unat (n_inodes opts)) \<and>
      formatted img' (unat (n_inodes opts)) (mkfs_sb sz (n_inodes opts)) pad ipad \<and>
      sb_free_inodes img' = sb_inodes_count img' \<and>
      (opt_zero opts \<and> unat (n_inodes opts) < 32768 \<longrightarrow> rd img' 4100 4092 = Some (replicate 4092 0))"
proof (cases "\<not> opt_force opts \<and> ld64 img 0 = Some A1FS_MAGIC")
  case True
  then show ?thesis by (simp add: mkfs_main_def a1fs_is_present_def)
next
  case False
  let ?n = "n_inodes opts"
  have sz: "8192 \<le> img_size img" using fits_room [OF room] by simp
  then obtain m where m: "ld64 img 0 = Some m" by (auto simp: ld64_def rd_def)
  with False have absent: "(if opt_force opts then Some False else a1fs_is_present img) = Some False"
    by (auto simp: a1fs_is_present_def)
  define img1 where "img1 = (if opt_zero opts then the (wr img 0 (replicate (unat sz) 0)) else img)"
  have zero: "(if opt_zero opts then wr img 0 (replicate (unat sz) 0) else Some img) = Some img1"
    "img_size img1 = img_size img" "opt_zero opts \<longrightarrow> rd img1 4100 4092 = Some (replicate 4092 0)"
    using wr_room [of 0 "replicate (unat sz) 0" img] whole sz
      rd_wr_inside [of img 0 "replicate (unat sz) 0" img1 4100 4092]
    by (auto simp: img1_def)
  have "fits img1 (unat ?n)" using room zero(2) by (simp add: fits_def)
  then obtain img' where img': "mkfs img1 sz opts pad ipad = Some img'" "img_size img' = img_size img1"
    "formatted img' (unat ?n) (mkfs_sb sz ?n) pad ipad"
    "unat ?n < 32768 \<longrightarrow> rd img' 4100 4092 = rd img1 4100 4092"
    using mkfs_ok [OF _ n] by blast
  have call: "mkfs_main img sz opts pad ipad = Some (0, img')"
    unfolding mkfs_main_def absent Option.bind.bind_lunit if_False zero(1) img'(1) ..
  have "fits img' (unat ?n)" using room zero(2) img'(2) by (simp add: fits_def)
  then have geo: "geometry img' (unat ?n)" using formatted_geometry [OF img'(3) _ n] by blast
  have sb: "rd img' 0 56 = Some (sb_bytes (mkfs_sb sz ?n) pad)" using img'(3) by (simp add: formatted_def)
  have fields: "a1fs_is_present img' = Some True" "sb_free_inodes img' = sb_inodes_count img'"
    unfolding a1fs_is_present_def sb_fields [OF sb] by (simp_all add: mkfs_sb_def Let_def)
  show ?thesis
    using False call img' geo fields zero(2,3) by auto
qed

section \<open>Properties\<close>

text \<open>C27. Formatting.  Without \<open>-f\<close>, an image that already carries the magic number is left alone
  and the exit status is 1.  Otherwise, for an image with room for the metadata and one data
  block, the exit status is 0 and the result is a file system: it carries the magic number,
  its superblock describes the consecutive regions of the layout, and the root directory is
  inode 0 with one data block that holds \<open>"."\<close> and \<open>".."\<close>.  The free counts of the superblock
  still include that inode and that block.\<close>

theorem mkfs_main_formats:
  assumes room: "fits img (unat (n_inodes opts))" and n: "n_inodes opts \<noteq> 0"
    and whole: "unat sz = img_size img"
  shows "if \<not> opt_force opts \<and> ld64 img 0 = Some A1FS_MAGIC then mkfs_main img sz opts pad ipad = Some (1, img)
    else \<exists>img'. mkfs_main img sz opts pad ipad = Some (0, img') \<and> img_size img' = img_size img \<and>
      a1fs_is_present img' = Some True \<and> geometry img' (unat (n_inodes opts)) \<and>
      formatted img' (unat (n_inodes opts)) (mkfs_sb sz (n_inodes opts)) pad ipad \<and>
      sb_free_inodes img' = sb_inodes_count img' \<and>
      (opt_zero opts \<and> unat (n_inodes opts) < 32768 \<longrightarrow> rd img' 4100 4092 = Some (replicate 4092 0))"
  using mkfs_main_effect [OF assms] .

text \<open>An image of 16 blocks and four inodes.\<close>

definition demo_opts :: mkfs_opts where
  "demo_opts = \<lparr>opt_img_path = None, n_inodes = 4, opt_help = False, opt_force = True, opt_zero = True\<rparr>"

definition demo_disk :: image where
  "demo_disk = \<lparr>img_size = 65536, img_byte = (\<lambda>_. 255)\<rparr>"

theorem mkfs_main_formats_witness:
  "\<exists>img'. mkfs_main demo_disk 65536 demo_opts 0 0 = Some (0, img') \<and> geometry img' 4 \<and>
    formatted img' 4 (mkfs_sb 65536 4) 0 0"
proof -
  have "fits demo_disk (unat (n_inodes demo_opts))" by (simp add: fits_def lay_defs demo_disk_def demo_opts_def)
  from mkfs_main_formats [OF this, of 65536 0 0] show ?thesis by (auto simp: demo_disk_def demo_opts_def)
qed

end
