(* ===== verification/A1fs_Bitmap.thy ===== *)
theory A1fs_Bitmap
  imports Image "HOL-Library.Signed_Division"
begin

text \<open>
  The allocation bitmaps of the file system (\<open>a1fs.c\<close>: \<open>modify\<close>, \<open>modify2\<close>,
  \<open>find_next_bit\<close>, and the search loops of \<open>a1fs_mkdir\<close> and \<open>a1fs_create\<close>).  A bitmap is a
  block of 4096 bytes in the image; bit \<open>i\<close> is bit \<open>7 - i mod 8\<close> of byte \<open>i div 8\<close>.
\<close>

section \<open>Operations\<close>

text \<open>\<open>1 << (7 - j)\<close>, cut to an \<open>unsigned char\<close>.\<close>

definition bit_mask :: "int \<Rightarrow> u8" where
  "bit_mask j = ucast (push_bit (nat (7 - j)) (1 :: u32))"

text \<open>C division and remainder round towards zero.  The bitmap starts at the offset \<open>bm\<close>.\<close>

definition modify :: "image \<Rightarrow> int \<Rightarrow> int \<Rightarrow> int \<Rightarrow> image option" where
  "modify img bm index value = do {
     let result = index sdiv 8;
     let remainder = index smod 8;
     (if 0 \<le> result \<and> result < 4096 then Some () else None);
     b \<leftarrow> rd img (bm + result) 1;
     let x1 = hd b;
     let mask = bit_mask remainder;
     if value = 1 then wr img (bm + result) [x1 OR mask]
     else wr img (bm + result) [x1 AND NOT mask]
   }"

definition modify2 :: "image \<Rightarrow> int \<Rightarrow> int \<Rightarrow> u8 \<Rightarrow> int \<Rightarrow> image option" where
  "modify2 img bm index msk value = do {
     let result = index sdiv 8;
     (if 0 \<le> result \<and> result < 4096 then Some () else None);
     b \<leftarrow> rd img (bm + result) 1;
     let x1 = hd b;
     if value = 1 then wr img (bm + result) [x1 OR msk]
     else wr img (bm + result) [x1 AND NOT msk]
   }"

text \<open>The inner loop over the bits of a byte: the first \<open>j\<close> whose bit is clear.\<close>

definition clear_bit :: "u8 \<Rightarrow> nat option" where
  "clear_bit x1 = find (\<lambda>j. x1 AND bit_mask (int j) = 0) [0..<8]"

text \<open>The outer loop, at the byte \<open>k\<close> with \<open>n\<close> bytes left.\<close>

fun find_next_bit_loop :: "image \<Rightarrow> int \<Rightarrow> nat \<Rightarrow> nat \<Rightarrow> int option" where
  "find_next_bit_loop img bm k 0 = Some (-1)"
| "find_next_bit_loop img bm k (Suc n) = do {
     b \<leftarrow> rd img (bm + int k) 1;
     case clear_bit (hd b) of
       Some j \<Rightarrow> Some (int j)
     | None \<Rightarrow> find_next_bit_loop img bm (Suc k) n
   }"

definition find_next_bit :: "image \<Rightarrow> int \<Rightarrow> int option" where
  "find_next_bit img bm = find_next_bit_loop img bm 0 4096"

text \<open>The loop that \<open>a1fs_mkdir\<close> (for inodes and for data blocks) and \<open>a1fs_create\<close> use: it
  counts the bits it passes and marks the bit it stops at.\<close>

fun alloc_bit_loop :: "image \<Rightarrow> int \<Rightarrow> nat \<Rightarrow> nat \<Rightarrow> int \<Rightarrow> (int \<times> image) option" where
  "alloc_bit_loop img bm k 0 free_ind = Some (free_ind, img)"
| "alloc_bit_loop img bm k (Suc n) free_ind = do {
     b \<leftarrow> rd img (bm + int k) 1;
     case clear_bit (hd b) of
       Some j \<Rightarrow> do {
         img' \<leftarrow> modify img bm (int j) 1;
         Some (free_ind + int j, img')
       }
     | None \<Rightarrow> alloc_bit_loop img bm (Suc k) n (free_ind + 8)
   }"

definition alloc_bit :: "image \<Rightarrow> int \<Rightarrow> (int \<times> image) option" where
  "alloc_bit img bm = alloc_bit_loop img bm 0 4096 0"

section \<open>Bits\<close>

definition bm_bit :: "image \<Rightarrow> int \<Rightarrow> nat \<Rightarrow> bool" where
  "bm_bit img bm i = bit (img_byte img (nat bm + i div 8)) (7 - i mod 8)"

text \<open>What the allocation loops mark when they return \<open>m\<close>: the bit with the index of \<open>m\<close> in its byte.\<close>

abbreviation marks :: "image \<Rightarrow> image \<Rightarrow> int \<Rightarrow> nat \<Rightarrow> bool" where
  "marks img img' bm m \<equiv> \<forall>j < 32768. bm_bit img' bm j = (j = m mod 8 \<or> bm_bit img bm j)"

definition bm_ok :: "image \<Rightarrow> int \<Rightarrow> bool" where
  "bm_ok img bm \<longleftrightarrow> 0 \<le> bm \<and> nat bm + 4096 \<le> img_size img"

lemma bit_bit_mask: "0 \<le> j \<Longrightarrow> j < 8 \<Longrightarrow> bit (bit_mask j) n \<longleftrightarrow> n = nat (7 - j)"
  by (auto simp: bit_mask_def bit_simps)

lemma and_bit_mask: "j < 8 \<Longrightarrow> x AND bit_mask (int j) = 0 \<longleftrightarrow> \<not> bit x (7 - j)"
proof -
  assume j: "j < 8"
  have "nat (7 - int j) = 7 - j" by simp
  then have "bit (x AND bit_mask (int j)) n \<longleftrightarrow> n = 7 - j \<and> bit x (7 - j)" for n
    using bit_bit_mask [of "int j" n] j by (auto simp: bit_and_iff)
  then show ?thesis by (metis bit_0_eq bit_eq_iff bot_apply bot_bool_def)
qed

lemma rd_byte: "bm_ok img bm \<Longrightarrow> k < 4096 \<Longrightarrow> rd img (bm + int k) 1 = Some [img_byte img (nat bm + k)]"
  by (simp add: rd_def bm_ok_def nat_add_distrib)

lemma modify_byte:
  assumes ok: "bm_ok img bm" and i: "i < 32768"
  shows "modify img bm (int i) v =
    wr img (bm + int (i div 8)) [if v = 1 then img_byte img (nat bm + i div 8) OR bit_mask (int (i mod 8))
                                else img_byte img (nat bm + i div 8) AND NOT (bit_mask (int (i mod 8)))]"
proof -
  have d: "int i sdiv 8 = int (i div 8)"
    by (cases "i = 0") (simp_all add: signed_divide_int_def of_nat_div)
  moreover have "int i smod 8 = int (i mod 8)"
    by (cases "i = 0") (simp_all add: signed_modulo_int_def of_nat_mod)
  moreover have "i div 8 < 4096" using i by linarith
  ultimately show ?thesis using rd_byte [OF ok, of "i div 8"] by (simp add: modify_def Let_def)
qed

lemma wr_byte:
  assumes "bm_ok img bm" "k < 4096"
  shows "wr img (bm + int k) [x] = Some (img\<lparr>img_byte := (img_byte img)(nat bm + k := x)\<rparr>)"
  using assms by (auto simp: wr_def bm_ok_def nat_add_distrib fun_eq_iff)

lemma modify_ok:
  assumes ok: "bm_ok img bm" and i: "i < 32768"
  shows "\<exists>img'. modify img bm (int i) v = Some img' \<and> img_size img' = img_size img \<and>
    (\<forall>n < 32768. bm_bit img' bm n = (if n = i then v = 1 else bm_bit img bm n)) \<and>
    (\<forall>x. x \<noteq> nat bm + i div 8 \<longrightarrow> img_byte img' x = img_byte img x)"
proof -
  let ?x = "img_byte img (nat bm + i div 8)" and ?m = "bit_mask (int (i mod 8))"
  let ?y = "if v = 1 then ?x OR ?m else ?x AND NOT ?m"
  let ?img = "img\<lparr>img_byte := (img_byte img)(nat bm + i div 8 := ?y)\<rparr>"
  have "i div 8 < 4096" using i by linarith
  then have "modify img bm (int i) v = Some ?img"
    using modify_byte [OF ok i] wr_byte [OF ok] by simp
  moreover have "bm_bit ?img bm n = (if n = i then v = 1 else bm_bit img bm n)" if "n < 32768" for n
  proof (cases "n div 8 = i div 8")
    case True
    then have eq: "n mod 8 = i mod 8 \<longleftrightarrow> n = i" by (metis div_mult_mod_eq)
    have m: "bit ?m (7 - n mod 8) \<longleftrightarrow> n mod 8 = i mod 8"
      using bit_bit_mask [of "int (i mod 8)" "7 - n mod 8"] by auto
    show ?thesis using True eq m
      by (cases "v = 1") (auto simp: bm_bit_def bit_or_iff bit_and_iff bit_not_iff)
  next
    case False
    then show ?thesis by (auto simp: bm_bit_def)
  qed
  ultimately show ?thesis by auto
qed

section \<open>Searching\<close>

lemma find_upt: "find P [0..<n] = Some j \<longleftrightarrow> j < n \<and> P j \<and> (\<forall>i < j. \<not> P i)"
  unfolding find_Some_iff by (auto simp del: upt_Suc)

lemma clear_bit_Some:
  "clear_bit x = Some j \<longleftrightarrow> j < 8 \<and> \<not> bit x (7 - j) \<and> (\<forall>i < j. bit x (7 - i))"
proof -
  have "x AND bit_mask (int i) = 0 \<longleftrightarrow> \<not> bit x (7 - i)" if "i \<le> j" "j < 8" for i
    using and_bit_mask [of i x] that by simp
  then show ?thesis unfolding clear_bit_def find_upt by auto
qed

lemma clear_bit_None: "clear_bit x = None \<longleftrightarrow> (\<forall>j < 8. bit x (7 - j))"
  by (auto simp: clear_bit_def find_None_iff and_bit_mask)

text \<open>\<open>first_free img bm m\<close>: \<open>m\<close> is the lowest clear bit.\<close>

definition first_free :: "image \<Rightarrow> int \<Rightarrow> nat \<Rightarrow> bool" where
  "first_free img bm m \<longleftrightarrow> m < 32768 \<and> \<not> bm_bit img bm m \<and> (\<forall>i < m. bm_bit img bm i)"

lemma bm_bit_byte: "j < 8 \<Longrightarrow> bm_bit img bm (8 * k + j) = bit (img_byte img (nat bm + k)) (7 - j)"
  by (simp add: bm_bit_def)

lemma clear_bit_first:
  assumes "first_free img bm m"
  shows "k < m div 8 \<Longrightarrow> clear_bit (img_byte img (nat bm + k)) = None"
    and "clear_bit (img_byte img (nat bm + m div 8)) = Some (m mod 8)"
proof -
  show "clear_bit (img_byte img (nat bm + k)) = None" if "k < m div 8"
    unfolding clear_bit_None
  proof (intro allI impI)
    fix j :: nat assume j: "j < 8"
    have "8 * k + j < m" using that j by linarith
    then show "bit (img_byte img (nat bm + k)) (7 - j)"
      using assms bm_bit_byte [OF j, of img bm k] by (simp add: first_free_def)
  qed
  have "bit (img_byte img (nat bm + m div 8)) (7 - i)" if "i < m mod 8" for i
  proof -
    have "8 * (m div 8) + i < m" using that mult_div_mod_eq [of 8 m] by linarith
    then show ?thesis
      using assms bm_bit_byte [of i img bm "m div 8"] that by (simp add: first_free_def)
  qed
  moreover have "\<not> bit (img_byte img (nat bm + m div 8)) (7 - m mod 8)"
    using assms bm_bit_byte [of "m mod 8" img bm "m div 8"] by (simp add: first_free_def)
  ultimately show "clear_bit (img_byte img (nat bm + m div 8)) = Some (m mod 8)"
    by (simp add: clear_bit_Some)
qed

lemma find_next_bit_loop_first:
  assumes ok: "bm_ok img bm" and m: "first_free img bm m"
  shows "k \<le> m div 8 \<Longrightarrow> k + n = 4096 \<Longrightarrow> find_next_bit_loop img bm k n = Some (int (m mod 8))"
proof (induction n arbitrary: k)
  case 0
  moreover have "m div 8 < 4096" using m unfolding first_free_def by linarith
  ultimately show ?case by simp
next
  case (Suc n)
  then have "rd img (bm + int k) 1 = Some [img_byte img (nat bm + k)]" using rd_byte [OF ok] by simp
  with Suc clear_bit_first(1) [OF m, of k] clear_bit_first(2) [OF m] show ?case
    by (cases "k = m div 8") simp_all
qed

lemma alloc_bit_loop_first:
  assumes ok: "bm_ok img bm" and m: "first_free img bm m"
  shows "k \<le> m div 8 \<Longrightarrow> k + n = 4096 \<Longrightarrow>
    alloc_bit_loop img bm k n (8 * int k) = map_option (\<lambda>img'. (int m, img')) (modify img bm (int (m mod 8)) 1)"
proof (induction n arbitrary: k)
  case 0
  moreover have "m div 8 < 4096" using m unfolding first_free_def by linarith
  ultimately show ?case by simp
next
  case (Suc n)
  then have r: "rd img (bm + int k) 1 = Some [img_byte img (nat bm + k)]" using rd_byte [OF ok] by simp
  show ?case
  proof (cases "k = m div 8")
    case True
    have "8 * int k + int (m mod 8) = int m" unfolding True using mult_div_mod_eq [of 8 m] by linarith
    with True r clear_bit_first(2) [OF m] show ?thesis
      by (simp add: map_conv_bind_option comp_def)
  next
    case False
    then have "k < m div 8" using Suc.prems by simp
    moreover have "8 * int k + 8 = 8 * int (Suc k)" by simp
    ultimately show ?thesis
      using r clear_bit_first(1) [OF m, of k] Suc.IH [of "Suc k"] Suc.prems by (simp add: add.commute)
  qed
qed

section \<open>Properties\<close>

text \<open>\<open>modify\<close> sets or clears exactly the bit with the given index: every other bit of the
  bitmap and every byte of the image outside it keep their values.\<close>

lemma modify_exact:
  assumes "bm_ok img bm" "i < 32768"
  shows "\<exists>img'. modify img bm (int i) v = Some img' \<and> bm_ok img' bm \<and>
    (\<forall>n < 32768. bm_bit img' bm n = (if n = i then v = 1 else bm_bit img bm n)) \<and>
    (\<forall>x. (x < nat bm \<or> nat bm + 4096 \<le> x) \<longrightarrow> img_byte img' x = img_byte img x)"
proof -
  have "i div 8 < 4096" using assms(2) by linarith
  with modify_ok [OF assms, of v] assms(1) show ?thesis by (fastforce simp: bm_ok_def)
qed

text \<open>\<open>find_next_bit\<close> on a bitmap whose lowest clear bit is \<open>m\<close> returns \<open>m mod 8\<close>: it is the
  index of a free bit only when that bit is in the first byte.\<close>

lemma find_next_bit_mod_8:
  assumes "bm_ok img bm" "first_free img bm m"
  shows "find_next_bit img bm = Some (int (m mod 8)) \<and>
    (\<not> bm_bit img bm (m mod 8) \<longleftrightarrow> m < 8)"
proof -
  have "find_next_bit img bm = Some (int (m mod 8))"
    using find_next_bit_loop_first [OF assms, of 0 4096] by (simp add: find_next_bit_def)
  moreover have "\<not> bm_bit img bm (m mod 8) \<longleftrightarrow> m < 8"
  proof (cases "m < 8")
    case True
    with assms(2) show ?thesis by (simp add: first_free_def)
  next
    case False
    then have "m mod 8 < m" using mod_less_divisor [of 8 m] by linarith
    with assms(2) False show ?thesis by (simp add: first_free_def)
  qed
  ultimately show ?thesis by simp
qed

text \<open>C39. The allocation loop of \<open>a1fs_mkdir\<close> and \<open>a1fs_create\<close> returns the lowest clear bit \<open>m\<close>.
  When it is in the first byte, exactly that bit is marked.  Otherwise no bit changes, so the
  next allocation returns \<open>m\<close> again: the same inode or block is handed out twice.\<close>

theorem alloc_bit_first_byte:
  assumes ok: "bm_ok img bm" and m: "first_free img bm m"
  shows "\<exists>img'. alloc_bit img bm = Some (int m, img') \<and> bm_ok img' bm \<and>
    (if m < 8 then \<forall>n < 32768. bm_bit img' bm n = (n = m \<or> bm_bit img bm n)
     else (\<forall>n < 32768. bm_bit img' bm n = bm_bit img bm n) \<and>
          (\<exists>img''. alloc_bit img' bm = Some (int m, img'')))"
proof -
  have m8: "m mod 8 < 32768" using mod_less_divisor [of 8 m] by linarith
  obtain img' where img': "modify img bm (int (m mod 8)) 1 = Some img'" "bm_ok img' bm"
    "\<forall>n < 32768. bm_bit img' bm n = (n = m mod 8 \<or> bm_bit img bm n)"
    using modify_ok [OF ok m8, of 1] ok by (auto simp: bm_ok_def)
  have alloc: "alloc_bit img bm = Some (int m, img')"
    using alloc_bit_loop_first [OF ok m, of 0 4096] img'(1) by (simp add: alloc_bit_def)
  show ?thesis
  proof (cases "m < 8")
    case True
    with alloc img' show ?thesis by simp
  next
    case False
    then have "m mod 8 < m" using mod_less_divisor [of 8 m] by linarith
    then have same: "\<forall>n < 32768. bm_bit img' bm n = bm_bit img bm n"
      using img'(3) m by (auto simp: first_free_def)
    have m': "first_free img' bm m" using m same by (simp add: first_free_def)
    obtain img'' where "modify img' bm (int (m mod 8)) 1 = Some img''"
      using modify_ok [OF img'(2) m8, of 1] by blast
    then have "alloc_bit img' bm = Some (int m, img'')"
      using alloc_bit_loop_first [OF img'(2) m', of 0 4096] by (simp add: alloc_bit_def)
    with alloc img'(2) same False show ?thesis by simp
  qed
qed

text \<open>A bitmap block at the offset 4096 whose first \<open>n\<close> bytes are full.\<close>

definition demo_bitmap :: "nat \<Rightarrow> image" where
  "demo_bitmap n = \<lparr>img_size = 8192, img_byte = (\<lambda>x. if 4096 \<le> x \<and> x < 4096 + n then 255 else 0)\<rparr>"

lemma demo_bitmap_ok: "bm_ok (demo_bitmap n) 4096"
  by (simp add: bm_ok_def demo_bitmap_def)

lemma bit_255: "j < 8 \<Longrightarrow> bit (255 :: u8) j"
proof -
  assume "j < 8"
  have "(255 :: u8) = mask 8" by (simp add: mask_eq_exp_minus_1)
  then have "bit (255 :: u8) j = bit (mask 8 :: u8) j" by (rule arg_cong)
  also have "\<dots>" using \<open>j < 8\<close> by (simp only: bit_mask_iff possible_bit_word) simp
  finally show ?thesis .
qed

lemma demo_bitmap_bit: "bm_bit (demo_bitmap n) 4096 i \<longleftrightarrow> i div 8 < n"
  using bit_255 [of "7 - i mod 8"] by (auto simp: bm_bit_def demo_bitmap_def)

lemma demo_bitmap_first: "n < 4096 \<Longrightarrow> first_free (demo_bitmap n) 4096 (8 * n)"
  by (auto simp: first_free_def demo_bitmap_bit)

lemma modify_exact_example:
  "\<exists>img'. modify (demo_bitmap 0) 4096 9 1 = Some img' \<and> bm_bit img' 4096 9 \<and> \<not> bm_bit img' 4096 8"
  using modify_exact [OF demo_bitmap_ok, of 9 0 1] by (auto simp: demo_bitmap_bit)

lemma find_next_bit_example:
  "find_next_bit (demo_bitmap 2) 4096 = Some 0 \<and> bm_bit (demo_bitmap 2) 4096 0"
  using find_next_bit_mod_8 [OF demo_bitmap_ok demo_bitmap_first [of 2]] by simp

theorem alloc_bit_first_byte_witness:
  "\<exists>img' img''. alloc_bit (demo_bitmap 2) 4096 = Some (16, img') \<and> alloc_bit img' 4096 = Some (16, img'')"
  using alloc_bit_first_byte [OF demo_bitmap_ok demo_bitmap_first [of 2]] by auto

end
