(* ===== verification/A1fs_Lookup.thy ===== *)
theory A1fs_Lookup
  imports A1fs_Format A1fs_Bitmap
begin

text \<open>
  Looking up names and paths (\<open>a1fs.c\<close>: \<open>helper\<close>, \<open>path_inode\<close>) and the operations that only
  read the image: \<open>a1fs_statfs\<close>, \<open>a1fs_getattr\<close> and \<open>a1fs_readdir\<close>.  The loops over extents,
  blocks and entries are recursions over the iterations that are left.  An access outside the
  image, an index outside an array of the code and an overflow of an \<open>int\<close> have no result.
\<close>

section \<open>Pointers into the image\<close>

text \<open>\<open>(a1fs_inode *)(fs->image + sb->start_inode * A1FS_BLOCK_SIZE + ino * 64)\<close>\<close>

definition inode_ptr :: "image \<Rightarrow> int \<Rightarrow> int option" where
  "inode_ptr img ino = do {
     si \<leftarrow> sb_start_inode img;
     base \<leftarrow> cint (si * A1FS_BLOCK_SIZE);
     disp \<leftarrow> cint (ino * 64);
     Some (base + disp)
   }"

text \<open>\<open>(a1fs_extent_block *)(fs->image + (sb->start_extent + ino) * A1FS_BLOCK_SIZE)\<close>\<close>

definition extent_ptr :: "image \<Rightarrow> int \<Rightarrow> int option" where
  "extent_ptr img ino = do {
     se \<leftarrow> sb_start_extent img;
     block_off se ino
   }"

text \<open>\<open>fs->image + (sb->start_data + j) * A1FS_BLOCK_SIZE\<close>\<close>

definition data_ptr :: "image \<Rightarrow> int \<Rightarrow> int option" where
  "data_ptr img j = do {
     sd \<leftarrow> sb_start_data img;
     block_off sd j
   }"

text \<open>The fields of an inode; \<open>r\<close> is its offset.\<close>

definition i_mode :: "image \<Rightarrow> int \<Rightarrow> u32 option" where "i_mode img r = ld32 img r"
definition i_links :: "image \<Rightarrow> int \<Rightarrow> u32 option" where "i_links img r = ld32 img (r + 4)"
definition i_size :: "image \<Rightarrow> int \<Rightarrow> u64 option" where "i_size img r = ld64 img (r + 8)"
definition i_number :: "image \<Rightarrow> int \<Rightarrow> int option" where "i_number img r = ldi img (r + 32)"
definition i_extents :: "image \<Rightarrow> int \<Rightarrow> int option" where "i_extents img r = ldi img (r + 36)"

lemmas inode_access = i_mode_def i_links_def i_size_def i_number_def i_extents_def

text \<open>\<open>extent_array[i]\<close> of the extent block at \<open>eb\<close>; the array has 512 elements.\<close>

definition extent_at :: "image \<Rightarrow> int \<Rightarrow> int \<Rightarrow> (u32 \<times> u32) option" where
  "extent_at img eb i =
     (if 0 \<le> i \<and> i < 512 then do {
        start \<leftarrow> ld32 img (eb + 8 * i);
        count \<leftarrow> ld32 img (eb + 8 * i + 4);
        Some (start, count)
      } else None)"

section \<open>Directory scans\<close>

type_synonym entries = "(int \<times> u8 list) list"

text \<open>The entries of a block, from \<open>16 - n\<close> on.  The arrays \<open>inodes_array\<close> and \<open>name_array\<close>
  of the code are the list \<open>acc\<close>, with \<open>current_i\<close> its length; they have 512 elements.\<close>

fun scan_entries :: "image \<Rightarrow> int \<Rightarrow> int \<Rightarrow> nat \<Rightarrow> entries \<Rightarrow> entries option" where
  "scan_entries img blk entry_count 0 acc = Some acc"
| "scan_entries img blk entry_count (Suc n) acc =
     (if int (length acc) < entry_count then do {
        (if length acc < 512 then Some () else None);
        ino \<leftarrow> ldi img (blk + 256 * (15 - int n));
        name \<leftarrow> cstr img (blk + 256 * (15 - int n) + 4) A1FS_NAME_MAX;
        scan_entries img blk entry_count n (acc @ [(ino, name)])
      } else Some acc)"

text \<open>The blocks of an extent, from \<open>j\<close> on with \<open>n\<close> left.  The loop of \<open>a1fs_readdir\<close> also stops
  when all entries have been seen (\<open>stop\<close>).\<close>

fun scan_blocks :: "image \<Rightarrow> bool \<Rightarrow> int \<Rightarrow> int \<Rightarrow> nat \<Rightarrow> entries \<Rightarrow> entries option" where
  "scan_blocks img stop entry_count j 0 acc = Some acc"
| "scan_blocks img stop entry_count j (Suc n) acc =
     (if stop \<and> entry_count \<le> int (length acc) then Some acc
      else do {
        blk \<leftarrow> data_ptr img j;
        acc' \<leftarrow> scan_entries img blk entry_count 16 acc;
        scan_blocks img stop entry_count (j + 1) n acc'
      })"

text \<open>The extents of an inode, from \<open>i\<close> on with \<open>n\<close> left.\<close>

fun scan_extents :: "image \<Rightarrow> bool \<Rightarrow> int \<Rightarrow> int \<Rightarrow> int \<Rightarrow> nat \<Rightarrow> entries \<Rightarrow> entries option" where
  "scan_extents img stop eb entry_count i 0 acc = Some acc"
| "scan_extents img stop eb entry_count i (Suc n) acc = do {
     (s, c) \<leftarrow> extent_at img eb i;
     let start = sint s;
     let count = sint c;
     cint (count + start);
     acc' \<leftarrow> scan_blocks img stop entry_count start (nat count) acc;
     scan_extents img stop eb entry_count (i + 1) n acc'
   }"

section \<open>Names\<close>

text \<open>The last entry with the name wins.\<close>

definition last_match :: "u8 list \<Rightarrow> entries \<Rightarrow> int" where
  "last_match current_name es =
     fold (\<lambda>(ino, name) result. if name = current_name then ino else result) es (- ENOENT)"

definition helper :: "image \<Rightarrow> int \<Rightarrow> u8 list \<Rightarrow> int option" where
  "helper img root current_name = do {
     sz \<leftarrow> i_size img root;
     let entry_count = to_int (sz div 256);
     num \<leftarrow> i_number img root;
     e_block \<leftarrow> extent_ptr img num;
     extents \<leftarrow> i_extents img root;
     es \<leftarrow> scan_extents img False e_block entry_count 0 (nat extents) [];
     Some (last_match current_name es)
   }"

section \<open>Paths\<close>

text \<open>A call of \<open>strtok\<close> on the rest of the string: the next token and what is left after it.\<close>

definition strtok :: "u8 list \<Rightarrow> (u8 list \<times> u8 list) option" where
  "strtok s =
     (let t = dropWhile (\<lambda>c. c = slash) s
      in if t = [] then None
         else Some (takeWhile (\<lambda>c. c \<noteq> slash) t, tl (dropWhile (\<lambda>c. c \<noteq> slash) t)))"

lemma strtok_shorter:
  assumes "strtok s = Some (tok, rest)"
  shows "length rest < length s"
proof -
  define t where "t = dropWhile (\<lambda>c. c = slash) s"
  define u where "u = dropWhile (\<lambda>c. c \<noteq> slash) t"
  have t: "t \<noteq> []" and r: "rest = tl u"
    using assms by (auto simp: strtok_def Let_def t_def u_def split: if_splits)
  have "length u \<le> length t" "length t \<le> length s" by (simp_all only: t_def u_def length_dropWhile_le)
  moreover have "length (tl u) = length u - 1" "0 < length t" using t by simp_all
  ultimately show ?thesis unfolding r by linarith
qed

text \<open>The loop of \<open>path_inode\<close> at the token \<open>real_token\<close>, with the directory at \<open>root\<close>.\<close>

function path_loop :: "image \<Rightarrow> int \<Rightarrow> u8 list \<Rightarrow> u8 list \<Rightarrow> int option" where
  "path_loop img root real_token rest = do {
     result \<leftarrow> helper img root real_token;
     if result = - ENOENT then Some (- ENOENT)
     else do {
       root' \<leftarrow> inode_ptr img result;
       case strtok rest of
         None \<Rightarrow> Some result
       | Some (tok, rest') \<Rightarrow> do {
           m \<leftarrow> i_mode img root';
           if m OR 511 \<noteq> S_IFDIR OR 511 then Some (- ENOTDIR)
           else path_loop img root' tok rest'
         }
     }
   }"
  by pat_completeness auto
termination
  by (relation "measure (\<lambda>(img, root, tok, rest). length rest)") (auto dest: strtok_shorter)

declare path_loop.simps [simp del]

definition path_inode :: "image \<Rightarrow> u8 list \<Rightarrow> int option" where
  "path_inode img path =
     (if path = [] \<or> hd path \<noteq> slash then Some (-1)
      else if path = [slash] then Some 0
      else if 4096 \<le> length path then None
      else do {
        root \<leftarrow> inode_ptr img 0;
        i_links img root;
        extents \<leftarrow> i_extents img root;
        case strtok path of
          None \<Rightarrow> Some extents
        | Some (tok, rest) \<Rightarrow> path_loop img root tok rest
      })"

section \<open>Operations that read\<close>

record fs_ctx =
  fs_image :: image
  fs_size :: u64

record statvfs =
  f_bsize :: u64
  f_frsize :: u64
  f_blocks :: u64
  f_bfree :: u64
  f_bavail :: u64
  f_files :: u64
  f_ffree :: u64
  f_favail :: u64
  f_namemax :: u64

definition a1fs_statfs :: "fs_ctx \<Rightarrow> u8 list \<Rightarrow> (int \<times> statvfs) option" where
  "a1fs_statfs fs path = do {
     let img = fs_image fs;
     bfree \<leftarrow> sb_free_blocks img;
     files \<leftarrow> sb_inodes_count img;
     ffree \<leftarrow> sb_free_inodes img;
     Some (0, \<lparr>f_bsize = 4096, f_frsize = 4096, f_blocks = fs_size fs div 4096,
               f_bfree = ucast bfree, f_bavail = ucast bfree, f_files = ucast files,
               f_ffree = ucast ffree, f_favail = ucast ffree, f_namemax = of_nat A1FS_NAME_MAX\<rparr>)
   }"

record stat =
  st_ino :: int
  st_mode :: u32
  st_nlink :: u32
  st_size :: u64
  st_blocks :: int
  st_mtim :: "u64 \<times> u64"

definition stat_zero :: stat where
  "stat_zero = \<lparr>st_ino = 0, st_mode = 0, st_nlink = 0, st_size = 0, st_blocks = 0, st_mtim = (0, 0)\<rparr>"

text \<open>The loop that adds up the blocks: \<open>block_count + count\<close> is unsigned.\<close>

fun count_blocks :: "image \<Rightarrow> int \<Rightarrow> int \<Rightarrow> nat \<Rightarrow> int \<Rightarrow> int option" where
  "count_blocks img eb i 0 block_count = Some block_count"
| "count_blocks img eb i (Suc n) block_count = do {
     (s, c) \<leftarrow> extent_at img eb i;
     count_blocks img eb (i + 1) n (sint (word_of_int block_count + c))
   }"

text \<open>\<open>st\<close> is written even on errors, after the check of the length of the path.\<close>

definition a1fs_getattr :: "image \<Rightarrow> u8 list \<Rightarrow> stat \<Rightarrow> (int \<times> stat) option" where
  "a1fs_getattr img path st =
     (if 4096 \<le> length path then Some (- ENAMETOOLONG, st)
      else do {
        inode \<leftarrow> path_inode img path;
        if inode = - ENOENT then Some (- ENOENT, stat_zero)
        else if inode = - ENOTDIR then Some (- ENOTDIR, stat_zero)
        else do {
          found \<leftarrow> inode_ptr img inode;
          e_block \<leftarrow> extent_ptr img inode;
          if 0 \<le> inode then do {
            m \<leftarrow> i_mode img found;
            l \<leftarrow> i_links img found;
            sz \<leftarrow> i_size img found;
            extents \<leftarrow> i_extents img found;
            block_count \<leftarrow> count_blocks img e_block 0 (nat extents) 0;
            bytes \<leftarrow> cint (block_count * A1FS_BLOCK_SIZE);
            Some (0, \<lparr>st_ino = inode, st_mode = m, st_nlink = l, st_size = sz,
                      st_blocks = bytes sdiv 512, st_mtim = (0, 0)\<rparr>)
          } else Some (- ENOSYS, stat_zero)
        }
      })"

text \<open>The names that \<open>a1fs_readdir\<close> hands to \<open>filler\<close>, in order.\<close>

definition a1fs_readdir :: "image \<Rightarrow> u8 list \<Rightarrow> (int \<times> u8 list list) option" where
  "a1fs_readdir img path = do {
     directroy_ino \<leftarrow> path_inode img path;
     if path = [] \<or> hd path \<noteq> slash then Some (-1, [])
     else do {
       e_block \<leftarrow> extent_ptr img directroy_ino;
       inode \<leftarrow> inode_ptr img directroy_ino;
       sz \<leftarrow> i_size img inode;
       let entry_num = to_int (sz div 256);
       extents \<leftarrow> i_extents img inode;
       es \<leftarrow> scan_extents img True e_block entry_num 0 (nat extents) [];
       i_links img inode;
       Some (0, map snd es)
     }
   }"

section \<open>The contents of a directory\<close>

text \<open>A reference definition, without loops over arrays: the entry in slot \<open>x\<close> of a block, the
  entries of \<open>es\<close> from \<open>k\<close> on in a block and in a list of extents.\<close>

definition entry_at :: "image \<Rightarrow> int \<Rightarrow> nat \<Rightarrow> (int \<times> u8 list) option" where
  "entry_at img blk x = do {
     ino \<leftarrow> ldi img (blk + 256 * int x);
     name \<leftarrow> cstr img (blk + 256 * int x + 4) A1FS_NAME_MAX;
     Some (ino, name)
   }"

definition block_holds :: "image \<Rightarrow> int \<Rightarrow> entries \<Rightarrow> nat \<Rightarrow> bool" where
  "block_holds img j es k \<longleftrightarrow>
     (\<exists>blk. data_ptr img j = Some blk \<and>
        (\<forall>x < 16. k + x < length es \<longrightarrow> entry_at img blk x = Some (es ! (k + x))))"

fun extents_hold :: "image \<Rightarrow> (u32 \<times> u32) list \<Rightarrow> entries \<Rightarrow> nat \<Rightarrow> bool" where
  "extents_hold img [] es k \<longleftrightarrow> length es \<le> k"
| "extents_hold img ((s, c) # exts) es k \<longleftrightarrow>
     int_ok (sint c + sint s) \<and>
     (\<forall>i < nat (sint c). block_holds img (sint s + int i) es (k + 16 * i)) \<and>
     extents_hold img exts es (k + 16 * nat (sint c))"

definition dir_holds :: "image \<Rightarrow> int \<Rightarrow> entries \<Rightarrow> bool" where
  "dir_holds img root es \<longleftrightarrow>
     (\<exists>sz num eb exts.
        i_size img root = Some sz \<and> unat sz div 256 = length es \<and> length es \<le> 512 \<and>
        i_number img root = Some num \<and> extent_ptr img num = Some eb \<and>
        i_extents img root = Some (int (length exts)) \<and> length exts \<le> 512 \<and>
        (\<forall>i < length exts. extent_at img eb (int i) = Some (exts ! i)) \<and>
        extents_hold img exts es 0)"

lemma scan_entries_take:
  assumes "length es \<le> 512" "n \<le> 16"
    "\<And>x. x < n \<Longrightarrow> k + x < length es \<Longrightarrow> entry_at img blk (16 - n + x) = Some (es ! (k + x))"
  shows "scan_entries img blk (int (length es)) n (take k es) = Some (take (k + n) es)"
  using assms(2,3)
proof (induction n arbitrary: k)
  case (Suc n)
  show ?case
  proof (cases "k < length es")
    case True
    have slot: "16 - Suc n = 15 - n" "int (15 - n) = 15 - int n" using Suc.prems(1) by simp_all
    have "entry_at img blk (15 - n) = Some (es ! k)" using Suc.prems(2) [of 0] True slot by simp
    then have e: "ldi img (blk + 256 * (15 - int n)) = Some (fst (es ! k))"
      "cstr img (blk + 256 * (15 - int n) + 4) A1FS_NAME_MAX = Some (snd (es ! k))"
      unfolding entry_at_def slot(2) by (auto simp: bind_eq_Some_conv dest: sym)
    have "entry_at img blk (16 - n + x) = Some (es ! (Suc k + x))" if "x < n" "Suc k + x < length es" for x
    proof -
      have "16 - Suc n + Suc x = 16 - n + x" using Suc.prems(1) that(1) by linarith
      moreover have "k + Suc x = Suc k + x" by simp
      ultimately show ?thesis using Suc.prems(2) [of "Suc x"] that by (simp only: Suc_less_eq)
    qed
    then have "scan_entries img blk (int (length es)) n (take (Suc k) es) = Some (take (Suc k + n) es)"
      using Suc.IH [of "Suc k"] Suc.prems(1) by simp
    moreover have "take k es @ [es ! k] = take (Suc k) es" using True by (simp add: take_Suc_conv_app_nth)
    ultimately show ?thesis using True e assms(1) by simp
  next
    case False
    then show ?thesis by simp
  qed
qed simp

lemma scan_blocks_take:
  assumes "length es \<le> 512" "\<And>i. i < n \<Longrightarrow> block_holds img (j + int i) es (k + 16 * i)"
  shows "scan_blocks img stop (int (length es)) j n (take k es) = Some (take (k + 16 * n) es)"
  using assms(2)
proof (induction n arbitrary: j k)
  case (Suc n)
  obtain blk where blk: "data_ptr img j = Some blk"
    "\<forall>x < 16. k + x < length es \<longrightarrow> entry_at img blk x = Some (es ! (k + x))"
    using Suc.prems [of 0] by (auto simp: block_holds_def)
  have "block_holds img (j + 1 + int i) es (k + 16 + 16 * i)" if "i < n" for i
  proof -
    have "j + int (Suc i) = j + 1 + int i" "k + 16 * Suc i = k + 16 + 16 * i" by simp_all
    then show ?thesis using Suc.prems [of "Suc i"] that by (simp only: Suc_less_eq)
  qed
  then have "scan_blocks img stop (int (length es)) (j + 1) n (take (k + 16) es) = Some (take (k + 16 + 16 * n) es)"
    using Suc.IH [of "j + 1" "k + 16"] by blast
  moreover have "scan_entries img blk (int (length es)) 16 (take k es) = Some (take (k + 16) es)"
    using scan_entries_take [OF assms(1), of 16 k img blk] blk(2) by simp
  ultimately show ?case using blk(1) by (auto simp: add.assoc)
qed simp

lemma scan_extents_take:
  assumes "length es \<le> 512" "length exts \<le> 512" "\<And>i. i < length exts \<Longrightarrow> extent_at img eb (i0 + int i) = Some (exts ! i)"
    "extents_hold img exts es k"
  shows "scan_extents img stop eb (int (length es)) i0 (length exts) (take k es) = Some es"
  using assms(2-4)
proof (induction exts arbitrary: i0 k)
  case (Cons e exts)
  obtain s c where e: "e = (s, c)" by (cases e)
  have at: "extent_at img eb i0 = Some (s, c)" using Cons.prems(2) [of 0] e by simp
  have next_at: "extent_at img eb (i0 + 1 + int i) = Some (exts ! i)" if "i < length exts" for i
    using Cons.prems(2) [of "Suc i"] that by (simp add: add.assoc)
  have h: "int_ok (sint c + sint s)" "\<And>i. i < nat (sint c) \<Longrightarrow> block_holds img (sint s + int i) es (k + 16 * i)"
    "extents_hold img exts es (k + 16 * nat (sint c))"
    using Cons.prems(3) e by simp_all
  have "scan_blocks img stop (int (length es)) (sint s) (nat (sint c)) (take k es) = Some (take (k + 16 * nat (sint c)) es)"
    using scan_blocks_take [OF assms(1) h(2)] by simp
  moreover have "scan_extents img stop eb (int (length es)) (i0 + 1) (length exts) (take (k + 16 * nat (sint c)) es) = Some es"
    using Cons.IH [OF _ next_at h(3)] Cons.prems(1) by simp
  ultimately show ?case using at h(1) e by (simp add: cint_ok)
qed simp

lemma entry_count_int: "unat sz div 256 = n \<Longrightarrow> n \<le> 512 \<Longrightarrow> to_int (sz div 256) = int n"
  using to_int_small [of "sz div 256"] by (simp add: unat_div)

lemma dir_holds_scan:
  assumes "dir_holds img root es"
  obtains sz num eb exts where "i_size img root = Some sz" "to_int (sz div 256) = int (length es)"
    "i_number img root = Some num" "extent_ptr img num = Some eb" "i_extents img root = Some (int exts)"
    "\<And>stop. scan_extents img stop eb (int (length es)) 0 exts [] = Some es"
proof -
  obtain sz num eb exts where h: "i_size img root = Some sz" "unat sz div 256 = length es" "length es \<le> 512"
    "i_number img root = Some num" "extent_ptr img num = Some eb" "i_extents img root = Some (int (length exts))"
    "length exts \<le> 512" "\<forall>i < length exts. extent_at img eb (int i) = Some (exts ! i)"
    "extents_hold img exts es 0"
    using assms unfolding dir_holds_def by blast
  show ?thesis
  proof (rule that [OF h(1) entry_count_int [OF h(2,3)] h(4-6)])
    show "scan_extents img stop eb (int (length es)) 0 (length exts) [] = Some es" for stop
      using scan_extents_take [OF h(3,7) _ h(9), of eb 0 stop] h(8) by simp
  qed
qed

text \<open>The name lookup as a finite map: later entries win.\<close>

lemma last_match_map_of:
  "last_match name es = (case map_of (rev (map (\<lambda>(ino, n). (n, ino)) es)) name of None \<Rightarrow> - 2 | Some ino \<Rightarrow> ino)"
proof -
  have "fold (\<lambda>(ino, n) result. if n = name then ino else result) es r =
      (case map_of (rev (map (\<lambda>(ino, n). (n, ino)) es)) name of None \<Rightarrow> r | Some ino \<Rightarrow> ino)" for r
    by (induction es arbitrary: r rule: rev_induct) (auto simp: split_beta map_add_def split: option.splits)
  then show ?thesis by (simp only: last_match_def)
qed

lemma helper_dir: "dir_holds img root es \<Longrightarrow> helper img root name = Some (last_match name es)"
  by (erule dir_holds_scan) (simp add: helper_def)

section \<open>Path resolution\<close>

text \<open>The components of a path, by splitting at every slash.\<close>

fun split_slash :: "u8 list \<Rightarrow> u8 list list" where
  "split_slash [] = [[]]"
| "split_slash (c # cs) =
     (if c = slash then [] # split_slash cs
      else (case split_slash cs of [] \<Rightarrow> [[c]] | t # ts \<Rightarrow> (c # t) # ts))"

definition components :: "u8 list \<Rightarrow> u8 list list" where
  "components s = filter (\<lambda>t. t \<noteq> []) (split_slash s)"

lemma split_slash_takeWhile:
  "split_slash s = takeWhile (\<lambda>c. c \<noteq> slash) s #
     (case dropWhile (\<lambda>c. c \<noteq> slash) s of [] \<Rightarrow> [] | _ # r \<Rightarrow> split_slash r)"
  by (induction s) (auto split: list.splits)

lemma components_Nil [simp]: "components [] = []"
  by (simp add: components_def)

lemma components_slash [simp]: "components (slash # s) = components s"
  by (simp add: components_def)

lemma components_skip: "components (dropWhile (\<lambda>c. c = slash) s) = components s"
  by (induction s) auto

lemma components_name:
  assumes "s \<noteq> []" "hd s \<noteq> slash"
  shows "components s = takeWhile (\<lambda>c. c \<noteq> slash) s # components (tl (dropWhile (\<lambda>c. c \<noteq> slash) s))"
proof -
  have "takeWhile (\<lambda>c. c \<noteq> slash) s \<noteq> []" using assms by (cases s) auto
  then show ?thesis
    unfolding components_def split_slash_takeWhile [of s]
    by (cases "dropWhile (\<lambda>c. c \<noteq> slash) s") (simp_all del: dropWhile_eq_Nil_conv)
qed

text \<open>\<open>strtok\<close> yields the components one after the other.\<close>

lemma strtok_skip:
  fixes s defines "t \<equiv> dropWhile (\<lambda>c. c = slash) s"
  shows "t = [] \<Longrightarrow> strtok s = None \<and> components s = []"
    and "t \<noteq> [] \<Longrightarrow> strtok s = Some (takeWhile (\<lambda>c. c \<noteq> slash) t, tl (dropWhile (\<lambda>c. c \<noteq> slash) t)) \<and>
      components s = takeWhile (\<lambda>c. c \<noteq> slash) t # components (tl (dropWhile (\<lambda>c. c \<noteq> slash) t))"
proof -
  have c: "components s = components t" by (simp only: t_def components_skip)
  show "strtok s = None \<and> components s = []" if "t = []"
    using that unfolding c strtok_def t_def [symmetric] Let_def by simp
  assume t: "t \<noteq> []"
  then have "hd t \<noteq> slash" unfolding t_def by (rule hd_dropWhile)
  then show "strtok s = Some (takeWhile (\<lambda>c. c \<noteq> slash) t, tl (dropWhile (\<lambda>c. c \<noteq> slash) t)) \<and>
      components s = takeWhile (\<lambda>c. c \<noteq> slash) t # components (tl (dropWhile (\<lambda>c. c \<noteq> slash) t))"
    using t components_name [OF t] unfolding c strtok_def t_def [symmetric] Let_def by simp
qed

lemma strtok_None: "strtok s = None \<longleftrightarrow> components s = []"
  by (cases "dropWhile (\<lambda>c. c = slash) s = []") (use strtok_skip [of s] in auto)

lemma strtok_Some: "strtok s = Some (t, r) \<Longrightarrow> components s = t # components r"
  by (cases "dropWhile (\<lambda>c. c = slash) s = []") (use strtok_skip [of s] in auto)

text \<open>A tree of directories: the entries of every directory by its inode number.\<close>

type_synonym dir_tree = "int \<rightharpoonup> entries"

fun resolve :: "dir_tree \<Rightarrow> int \<Rightarrow> u8 list list \<Rightarrow> int" where
  "resolve tree d [] = d"
| "resolve tree d (c # cs) =
     (case tree d of
        None \<Rightarrow> - ENOTDIR
      | Some es \<Rightarrow> if last_match c es = - ENOENT then - ENOENT else resolve tree (last_match c es) cs)"

definition is_dir :: "image \<Rightarrow> int \<Rightarrow> bool option" where
  "is_dir img r = map_option (\<lambda>m. m OR 511 = S_IFDIR OR 511) (i_mode img r)"

definition tree_holds :: "image \<Rightarrow> dir_tree \<Rightarrow> bool" where
  "tree_holds img tree \<longleftrightarrow>
     (\<forall>d es. tree d = Some es \<longrightarrow>
        (\<exists>r. inode_ptr img d = Some r \<and> is_dir img r = Some True \<and> dir_holds img r es) \<and>
        (\<forall>i \<in> fst ` set es. \<exists>r. inode_ptr img i = Some r \<and> is_dir img r = Some (i \<in> dom tree)))"

lemma tree_holdsD:
  assumes "tree_holds img tree" "tree d = Some es"
  obtains r where "inode_ptr img d = Some r" "is_dir img r = Some True" "dir_holds img r es"
    "\<forall>i \<in> fst ` set es. \<exists>r. inode_ptr img i = Some r \<and> is_dir img r = Some (i \<in> dom tree)"
proof -
  have "tree d = Some es \<longrightarrow>
      (\<exists>r. inode_ptr img d = Some r \<and> is_dir img r = Some True \<and> dir_holds img r es) \<and>
      (\<forall>i \<in> fst ` set es. \<exists>r. inode_ptr img i = Some r \<and> is_dir img r = Some (i \<in> dom tree))"
    using assms(1) unfolding tree_holds_def by (elim allE)
  with assms(2) show ?thesis by (auto intro: that)
qed

lemma last_match_cases: "last_match name es = - 2 \<or> last_match name es \<in> fst ` set es"
proof -
  have "fold (\<lambda>(ino, n) result. if n = name then ino else result) es r \<in> insert r (fst ` set es)" for r
    by (induction es rule: rev_induct) (force simp: image_iff)+
  then show ?thesis unfolding last_match_def by blast
qed

lemma path_loop_resolve:
  assumes t: "tree_holds img tree"
  shows "inode_ptr img d = Some root \<Longrightarrow> tree d = Some es \<Longrightarrow>
    path_loop img root tok rest = Some (resolve tree d (tok # components rest))"
proof (induction "length rest" arbitrary: d root es tok rest rule: less_induct)
  case less
  obtain r where r: "inode_ptr img d = Some r" "is_dir img r = Some True" "dir_holds img r es"
    and kids: "\<forall>i \<in> fst ` set es. \<exists>r. inode_ptr img i = Some r \<and> is_dir img r = Some (i \<in> dom tree)"
    by (rule tree_holdsD [OF t less.prems(2)])
  then have h: "helper img root tok = Some (last_match tok es)" using less.prems(1) helper_dir by simp
  show ?case
  proof (cases "last_match tok es = - 2")
    case True
    with h less.prems(2) show ?thesis by (simp add: path_loop.simps)
  next
    case False
    let ?i = "last_match tok es"
    obtain r where r: "inode_ptr img ?i = Some r" "is_dir img r = Some (?i \<in> dom tree)"
      using kids last_match_cases [of tok es] False by blast
    then obtain m where m: "i_mode img r = Some m" "(m OR 511 = S_IFDIR OR 511) = (?i \<in> dom tree)"
      by (auto simp: is_dir_def)
    show ?thesis
    proof (cases "strtok rest")
      case None
      then have "components rest = []" by (simp only: strtok_None)
      with None h r False less.prems(2) show ?thesis by (simp add: path_loop.simps)
    next
      case (Some p)
      obtain tok' rest' where p: "p = (tok', rest')" by (cases p)
      have c: "components rest = tok' # components rest'" using strtok_Some Some p by simp
      show ?thesis
      proof (cases "tree ?i")
        case None
        then have "m OR 511 \<noteq> S_IFDIR OR 511" using m(2) by (auto simp: dom_def)
        with h r(1) False less.prems(2) Some p m(1) c None show ?thesis
          by (simp add: path_loop.simps [of _ root])
      next
        case (Some es')
        then have "m OR 511 = S_IFDIR OR 511" using m(2) by (auto simp: dom_def)
        moreover have "path_loop img r tok' rest' = Some (resolve tree ?i (tok' # components rest'))"
          using less.hyps [OF _ r(1) Some] strtok_shorter \<open>strtok rest = Some p\<close> p by blast
        ultimately show ?thesis
          using h r(1) False less.prems(2) \<open>strtok rest = Some p\<close> p m(1) c
          by (simp add: path_loop.simps [of _ root] del: resolve.simps(2)) simp
      qed
    qed
  qed
qed

lemma i_links_defined:
  assumes "is_dir img r = Some b" "i_size img r = Some sz"
  shows "\<exists>l. i_links img r = Some l"
proof -
  have "\<exists>v. ld32 img r = Some v" "\<exists>v. ld64 img (r + 8) = Some v"
    using assms by (auto simp: is_dir_def inode_access)
  then have "0 \<le> r" "nat (r + 8) + 8 \<le> img_size img" by (simp_all only: ld_defined)
  then have "0 \<le> r + 4" "nat (r + 4) + 4 \<le> img_size img" by linarith+
  then show ?thesis by (simp only: i_links_def ld_defined)
qed

lemma path_inode_tree:
  assumes t: "tree_holds img tree" and root: "0 \<in> dom tree"
    and abs: "path \<noteq> []" "hd path = slash" and len: "length path < 4096"
  shows "path_inode img path =
    (if path = [slash] then Some 0
     else if components path = [] then inode_ptr img 0 \<bind> i_extents img
     else Some (resolve tree 0 (components path)))"
proof -
  obtain es where es: "tree 0 = Some es" using root by blast
  obtain r where r: "inode_ptr img 0 = Some r" "is_dir img r = Some True" "dir_holds img r es"
    by (rule tree_holdsD [OF t es])
  obtain sz exts where sz: "i_size img r = Some sz" "i_extents img r = Some exts"
    using r(3) unfolding dir_holds_def by blast
  obtain l where l: "i_links img r = Some l" using i_links_defined [OF r(2) sz(1)] by blast
  have start: "path_inode img path = (if path = [slash] then Some 0 else
      (case strtok path of None \<Rightarrow> Some exts | Some (tok, rest) \<Rightarrow> path_loop img r tok rest))"
    unfolding path_inode_def r(1) sz(2) l Option.bind.bind_lunit using abs len by simp
  show ?thesis
  proof (cases "strtok path")
    case None
    then have "components path = []" by (simp only: strtok_None)
    with None r(1) sz(2) show ?thesis unfolding start by simp
  next
    case (Some p)
    obtain tok rest where p: "p = (tok, rest)" by (cases p)
    then have c: "components path = tok # components rest" using strtok_Some Some by simp
    have "path_loop img r tok rest = Some (resolve tree 0 (components path))"
      unfolding c by (rule path_loop_resolve [OF t r(1) es])
    then show ?thesis unfolding start Some p using c by simp
  qed
qed

section \<open>Directories in one block\<close>

text \<open>Positions in an image with a known geometry.\<close>

lemma geometry_ptrs:
  assumes "geometry img n"
  shows "0 \<le> i \<Longrightarrow> i < int n \<Longrightarrow> inode_ptr img i = Some (lay_inode n * 4096 + i * 64)"
    and "0 \<le> i \<Longrightarrow> i < int n \<Longrightarrow> extent_ptr img i = Some ((lay_extent n + i) * 4096)"
    and "0 \<le> j \<Longrightarrow> (lay_data n + j) * 4096 \<le> 2147483647 \<Longrightarrow> data_ptr img j = Some ((lay_data n + j) * 4096)"
proof -
  have f: "fits img n" and sb: "sb_start_inode img = Some (lay_inode n)"
    "sb_start_extent img = Some (lay_extent n)" "sb_start_data img = Some (lay_data n)"
    using assms by (simp_all add: geometry_def)
  have b: "0 \<le> lay_inode n" "lay_inode n \<le> 524286" "0 \<le> lay_extent n" "lay_extent n + int n \<le> 524286" "int n < 524288"
    "0 \<le> lay_data n" "lay_data n \<le> 524286"
    using fits_bounds [OF f] by (simp_all add: lay_defs)
  show "inode_ptr img i = Some (lay_inode n * 4096 + i * 64)" if "0 \<le> i" "i < int n"
  proof -
    have "int_ok (lay_inode n * 4096)" "int_ok (i * 64)" using b that by (simp_all add: int_ok_def)
    then show ?thesis by (simp add: inode_ptr_def sb A1FS_BLOCK_SIZE_def cint_ok)
  qed
  show "extent_ptr img i = Some ((lay_extent n + i) * 4096)" if "0 \<le> i" "i < int n"
  proof -
    have "int_ok (lay_extent n + i)" "int_ok ((lay_extent n + i) * 4096)"
      using b that by (simp_all add: int_ok_def)
    then show ?thesis by (simp add: extent_ptr_def block_off_def sb A1FS_BLOCK_SIZE_def cint_ok)
  qed
  show "data_ptr img j = Some ((lay_data n + j) * 4096)" if "0 \<le> j" "(lay_data n + j) * 4096 \<le> 2147483647"
  proof -
    have "int_ok (lay_data n + j)" "int_ok ((lay_data n + j) * 4096)"
      using b that by (simp_all add: int_ok_def)
    then show ?thesis by (simp add: data_ptr_def block_off_def sb A1FS_BLOCK_SIZE_def cint_ok)
  qed
qed

text \<open>The directory with the inode \<open>d\<close> has one extent, the block \<open>s\<close>, with the entries \<open>es\<close>.\<close>

definition dir_block :: "image \<Rightarrow> int \<Rightarrow> int \<Rightarrow> entries \<Rightarrow> bool" where
  "dir_block img d s es \<longleftrightarrow>
     (\<exists>r eb blk. inode_ptr img d = Some r \<and> extent_ptr img d = Some eb \<and> data_ptr img s = Some blk \<and>
        i_size img r = Some (256 * of_nat (length es)) \<and> i_number img r = Some d \<and> i_extents img r = Some 1 \<and>
        ld32 img eb = Some (word_of_int s) \<and> ld32 img (eb + 4) = Some 1 \<and>
        0 \<le> s \<and> s < 2147483647 \<and> length es \<le> 16 \<and>
        (\<forall>x < length es. entry_at img blk x = Some (es ! x)))"

lemma dir_block_holds:
  assumes "dir_block img d s es" "inode_ptr img d = Some r"
  shows "dir_holds img r es"
proof -
  obtain eb blk where h: "extent_ptr img d = Some eb" "data_ptr img s = Some blk"
    "i_size img r = Some (256 * of_nat (length es))" "i_number img r = Some d" "i_extents img r = Some 1"
    "ld32 img eb = Some (word_of_int s)" "ld32 img (eb + 4) = Some 1" "0 \<le> s" "s < 2147483647" "length es \<le> 16"
    "\<forall>x < length es. entry_at img blk x = Some (es ! x)"
    using assms unfolding dir_block_def by auto
  have s: "sint (word_of_int s :: u32) = s" using sint_word_of_int h(8,9) by simp
  have "256 * length es < 2 ^ 64" using h(10) by simp
  moreover have "256 * of_nat (length es) = (of_nat (256 * length es) :: u64)" by simp
  ultimately have "unat (256 * of_nat (length es) :: u64) = 256 * length es"
    by (simp only: unat_of_nat_u64)
  then have "unat (256 * of_nat (length es) :: u64) div 256 = length es" by simp
  moreover have "extent_at img eb 0 = Some (word_of_int s, 1)" using h(6,7) by (simp add: extent_at_def)
  moreover have "extents_hold img [(word_of_int s, 1)] es 0"
    using h(2,8,9,10,11) by (simp add: s int_ok_def block_holds_def)
  ultimately show ?thesis
    unfolding dir_holds_def using h(1,3,4,5,10)
    by (intro exI [of _ "256 * of_nat (length es)"] exI [of _ d] exI [of _ eb] exI [of _ "[(word_of_int s, 1)]"]) simp
qed

text \<open>The root directory that \<open>mkfs\<close> leaves.\<close>

definition root_entries :: entries where
  "root_entries = [(0, dot), (0, dotdot)]"

lemma formatted_root:
  assumes f: "formatted img n sb pad ipad" and g: "geometry img n"
  shows "dir_block img 0 0 root_entries"
    and "is_dir img (lay_inode n * 4096) = Some True"
    and "i_links img (lay_inode n * 4096) = Some 2"
    and "i_mode img (lay_inode n * 4096) = Some (S_IFDIR OR 511)"
proof -
  let ?r = "lay_inode n * 4096" and ?eb = "lay_extent n * 4096" and ?blk = "lay_data n * 4096"
  have pos: "0 < int n" "lay_data n * 4096 \<le> 2147483647"
    using g fits_bounds [of img n] by (simp_all add: geometry_def)
  have ptr: "inode_ptr img 0 = Some ?r" "extent_ptr img 0 = Some ?eb" "data_ptr img 0 = Some ?blk"
    using geometry_ptrs [OF g, of 0] pos by simp_all
  have "rd img ?r 64 = Some (inode_bytes root_inode ipad)" using f by (simp add: formatted_def)
  note ino = inode_fields [OF this, unfolded root_inode_def, simplified]
  then show "is_dir img ?r = Some True" "i_links img ?r = Some 2" "i_mode img ?r = Some (S_IFDIR OR 511)"
    by (simp_all add: is_dir_def inode_access)
  have "rd img ?eb 8 = Some (extent_bytes \<lparr>ext_start = 0, ext_count = 1\<rparr>)" using f by (simp add: formatted_def)
  note ext = extent_fields [OF this, simplified]
  have "rd img ?blk 256 = Some (dentry_bytes \<lparr>d_ino = 0, d_name = dot\<rparr>)" using f by (simp add: formatted_def)
  note d1 = dentry_fields [OF this, simplified, unfolded dot_def, simplified]
  have "rd img (?blk + 256) 256 = Some (dentry_bytes \<lparr>d_ino = 0, d_name = dotdot\<rparr>)" using f by (simp add: formatted_def)
  note d2 = dentry_fields [OF this, simplified, unfolded dotdot_def, simplified]
  have "entry_at img ?blk x = Some (root_entries ! x)" if "x < 2" for x
    using that d1 d2 by (auto simp: entry_at_def ldi_def root_entries_def dot_def dotdot_def A1FS_NAME_MAX_def less_2_cases_iff)
  then show "dir_block img 0 0 root_entries"
    unfolding dir_block_def using ptr ino ext
    by (simp add: inode_access ldi_def root_entries_def)
qed

definition root_tree :: dir_tree where
  "root_tree d = (if d = 0 then Some root_entries else None)"

lemma formatted_tree:
  assumes f: "formatted img n sb pad ipad" and g: "geometry img n"
  shows "tree_holds img root_tree"
proof -
  from geometry_ptrs(1) [OF g, of 0] g have ptr: "inode_ptr img 0 = Some (lay_inode n * 4096)"
    by (simp add: geometry_def)
  with dir_block_holds [OF formatted_root(1) [OF f g]] formatted_root(2) [OF f g] show ?thesis
    by (auto simp: tree_holds_def root_tree_def root_entries_def dom_def split: if_splits)
qed

lemma geometry_root_ptrs:
  assumes "geometry img n"
  shows "inode_ptr img 0 = Some (lay_inode n * 4096)" "extent_ptr img 0 = Some (lay_extent n * 4096)"
  using geometry_ptrs(1,2) [OF assms, of 0] assms by (simp_all add: geometry_def)

lemma readdir_dir:
  assumes d: "dir_holds img root es" and path: "path_inode img path = Some ino" "path \<noteq> []" "hd path = slash"
    and ino: "inode_ptr img ino = Some root" "i_number img root = Some ino" "is_dir img root = Some b"
  shows "a1fs_readdir img path = Some (0, map snd es)"
proof -
  obtain sz num eb exts where h: "i_size img root = Some sz" "to_int (sz div 256) = int (length es)"
    "i_number img root = Some num" "extent_ptr img num = Some eb" "i_extents img root = Some (int exts)"
    and scan: "\<And>stop. scan_extents img stop eb (int (length es)) 0 exts [] = Some es"
    using dir_holds_scan [OF d] by metis
  obtain l where l: "i_links img root = Some l" using i_links_defined [OF ino(3) h(1)] by blast
  have "num = ino" using h(3) ino(2) by simp
  with path ino(1) h(1,2,4,5) scan [of True] l show ?thesis by (simp add: a1fs_readdir_def)
qed

section \<open>Properties\<close>

text \<open>C37. A directory scan agrees with a reference definition of the directory's contents, for any
  number of extents and blocks: the entries are those in the slots of the blocks that the
  extents name, in order.  \<open>helper\<close> is the lookup in the finite map that they form (a later
  entry replaces an earlier one), with \<open>-ENOENT\<close> for an absent name, and \<open>a1fs_readdir\<close>, whose
  loops stop earlier, lists the same names.\<close>

theorem directory_scan_equiv:
  assumes "dir_holds img root es"
  shows "helper img root name =
      Some (case map_of (rev (map (\<lambda>(ino, n). (n, ino)) es)) name of None \<Rightarrow> - ENOENT | Some ino \<Rightarrow> ino) \<and>
    (path_inode img path = Some ino \<and> inode_ptr img ino = Some root \<and> i_number img root = Some ino \<and>
      is_dir img root = Some b \<and> path \<noteq> [] \<and> hd path = slash \<longrightarrow> a1fs_readdir img path = Some (0, map snd es))"
  using helper_dir [OF assms, of name] readdir_dir [OF assms, of path ino b] by (simp add: last_match_map_of)

text \<open>C35. Path resolution refines a walk in the tree of directories: for an absolute path (not
  longer than \<open>path_inode\<close>'s buffer) with at least one component, the loop over the tokens of
  \<open>strtok\<close> returns what looking up its components one after the other from the root gives,
  \<open>-ENOENT\<close> for an absent component and \<open>-ENOTDIR\<close> when a component before the last is not a
  directory.  For \<open>"/"\<close> it returns inode 0; for a path of several slashes only it returns the
  root's number of extents instead of an inode number.\<close>

theorem path_inode_refines_walk:
  assumes "tree_holds img tree" "0 \<in> dom tree" "path \<noteq> []" "hd path = slash" "length path < 4096"
  shows "path_inode img path =
    (if path = [slash] then Some 0
     else if components path = [] then inode_ptr img 0 \<bind> i_extents img
     else Some (resolve tree 0 (components path)))"
  using assms by (rule path_inode_tree)

lemma resolve_fresh_step:
  "resolve root_tree 0 (c # cs) =
     (if c \<in> {dot, dotdot} then resolve root_tree 0 cs else - 2)"
proof -
  have "last_match c root_entries = (if c \<in> {dot, dotdot} then 0 else - 2)"
    by (auto simp: last_match_def root_entries_def)
  then show ?thesis by (simp add: root_tree_def)
qed

lemma resolve_fresh:
  "resolve root_tree 0 cs = (if set cs \<subseteq> {dot, dotdot} then 0 else - 2)"
  by (induction cs) (simp_all add: resolve_fresh_step del: resolve.simps(2))

text \<open>C36. A freshly formatted file system (composition of \<open>mkfs\<close> with the read operations): \<open>"/"\<close>
  is a directory with mode \<open>0777\<close>, two links, 512 bytes and 8 sectors, \<open>a1fs_readdir\<close> lists
  \<open>"."\<close> and \<open>".."\<close>, every path made of those two names is the root, every other path is
  reported as \<open>-ENOENT\<close>, and \<open>a1fs_statfs\<close> reports as many free inodes as there are inodes.\<close>

theorem fresh_file_system:
  assumes f: "formatted img (unat n) (mkfs_sb sz n) pad ipad" and g: "geometry img (unat n)"
  shows "a1fs_getattr img [slash] st =
      Some (0, \<lparr>st_ino = 0, st_mode = S_IFDIR OR 511, st_nlink = 2, st_size = 512, st_blocks = 8, st_mtim = (0, 0)\<rparr>) \<and>
    a1fs_readdir img [slash] = Some (0, [dot, dotdot]) \<and>
    (path \<noteq> [] \<and> hd path = slash \<and> length path < 4096 \<and> components path \<noteq> [] \<longrightarrow>
      (if set (components path) \<subseteq> {dot, dotdot} then path_inode img path = Some 0
       else a1fs_getattr img path st = Some (- ENOENT, stat_zero))) \<and>
    (\<exists>vfs. a1fs_statfs \<lparr>fs_image = img, fs_size = sz\<rparr> path = Some (0, vfs) \<and>
      f_files vfs = ucast (ucast n :: u32) \<and> f_ffree vfs = f_files vfs \<and> f_blocks vfs = sz div 4096 \<and> f_namemax vfs = 252)"
proof (intro conjI impI)
  let ?n = "unat n" let ?r = "lay_inode ?n * 4096" and ?eb = "lay_extent ?n * 4096"
  note root = formatted_root [OF f g]
  note ptr = geometry_root_ptrs [OF g]
  have ino: "i_size img ?r = Some 512" "i_number img ?r = Some 0" "i_extents img ?r = Some 1"
    "ld32 img ?eb = Some 0" "ld32 img (?eb + 4) = Some 1"
    using root(1) ptr unfolding dir_block_def by (auto simp: root_entries_def)
  have "count_blocks img ?eb 0 1 0 = Some 1"
    using ino(4,5) by (simp add: extent_at_def)
  then show "a1fs_getattr img [slash] st =
      Some (0, \<lparr>st_ino = 0, st_mode = S_IFDIR OR 511, st_nlink = 2, st_size = 512, st_blocks = 8, st_mtim = (0, 0)\<rparr>)"
    using ptr ino(1,3) root(3,4) by (simp add: a1fs_getattr_def path_inode_def cint_ok A1FS_BLOCK_SIZE_def int_ok_def)
  have dir: "dir_holds img ?r root_entries" using dir_block_holds [OF root(1) ptr(1)] .
  have p0: "path_inode img [slash] = Some 0" by (simp add: path_inode_def)
  have "a1fs_readdir img [slash] = Some (0, map snd root_entries)"
    by (rule readdir_dir [OF dir p0 _ _ ptr(1) ino(2) root(2)]) simp_all
  then show "a1fs_readdir img [slash] = Some (0, [dot, dotdot])" by (simp add: root_entries_def)
  have sb: "rd img 0 56 = Some (sb_bytes (mkfs_sb sz n) pad)" using f by (simp add: formatted_def)
  show "\<exists>vfs. a1fs_statfs \<lparr>fs_image = img, fs_size = sz\<rparr> path = Some (0, vfs) \<and>
      f_files vfs = ucast (ucast n :: u32) \<and> f_ffree vfs = f_files vfs \<and> f_blocks vfs = sz div 4096 \<and> f_namemax vfs = 252"
    unfolding a1fs_statfs_def by (simp add: sb_fields [OF sb] mkfs_sb_def Let_def A1FS_NAME_MAX_def)
  assume path: "path \<noteq> [] \<and> hd path = slash \<and> length path < 4096 \<and> components path \<noteq> []"
  then have ns: "path \<noteq> [slash]" using components_slash [of "[]"] by auto
  have "path_inode img path = Some (resolve root_tree 0 (components path))"
    using path_inode_tree [OF formatted_tree [OF f g], of path] path ns by (simp add: root_tree_def dom_def)
  then show "if set (components path) \<subseteq> {dot, dotdot} then path_inode img path = Some 0
      else a1fs_getattr img path st = Some (- ENOENT, stat_zero)"
    using path resolve_fresh [of "components path"] by (simp add: a1fs_getattr_def)
qed

text \<open>A formatted image with four inodes.\<close>

definition fresh_disk :: image where
  "fresh_disk = the (mkfs demo_disk 65536 demo_opts 0 0)"

lemma fresh_disk:
  "formatted fresh_disk (unat (4 :: u64)) (mkfs_sb 65536 4) 0 0" "geometry fresh_disk (unat (4 :: u64))"
  "img_size fresh_disk = 65536"
proof -
  have fit: "fits demo_disk (unat (4 :: u64))" by (simp add: fits_def lay_defs demo_disk_def)
  have n: "n_inodes demo_opts = 4" by (simp add: demo_opts_def)
  obtain img where img: "mkfs demo_disk 65536 demo_opts 0 0 = Some img" "img_size img = img_size demo_disk"
    "formatted img (unat (4 :: u64)) (mkfs_sb 65536 4) 0 0"
    using mkfs_ok [of demo_disk demo_opts 65536 0 0, unfolded n, OF fit] by auto
  have "fits img (unat (4 :: u64))" using fit img(2) by (simp only: fits_def)
  then have "geometry img (unat (4 :: u64))" using formatted_geometry [OF img(3)] by simp
  then show "formatted fresh_disk (unat (4 :: u64)) (mkfs_sb 65536 4) 0 0" "geometry fresh_disk (unat (4 :: u64))"
    "img_size fresh_disk = 65536"
    using img by (simp_all only: fresh_disk_def option.sel demo_disk_def) simp
qed

lemma fresh_disk_root: "dir_holds fresh_disk (lay_inode 4 * 4096) root_entries"
  using dir_block_holds [OF formatted_root(1) [OF fresh_disk(1,2)] geometry_root_ptrs(1) [OF fresh_disk(2)]] by simp

theorem directory_scan_equiv_witness:
  "helper fresh_disk (lay_inode 4 * 4096) dotdot = Some 0 \<and> helper fresh_disk (lay_inode 4 * 4096) [97] = Some (- 2) \<and>
   a1fs_readdir fresh_disk [slash] = Some (0, [dot, dotdot])"
proof -
  note ptr = geometry_root_ptrs [OF fresh_disk(2)]
  note root = formatted_root [OF fresh_disk(1,2)]
  have "i_number fresh_disk (lay_inode 4 * 4096) = Some 0"
    using root(1) ptr unfolding dir_block_def by (auto simp: root_entries_def)
  moreover have "path_inode fresh_disk [slash] = Some 0" by (simp add: path_inode_def)
  ultimately have "a1fs_readdir fresh_disk [slash] = Some (0, map snd root_entries)"
    using directory_scan_equiv [OF fresh_disk_root, of dot "[slash]" 0] ptr(1) root(2) by auto
  then show ?thesis
    using directory_scan_equiv [OF fresh_disk_root] by (simp add: root_entries_def dot_def dotdot_def)
qed

theorem path_inode_refines_walk_witness:
  "path_inode fresh_disk [47, 97, 47, 98] = Some (- 2) \<and> path_inode fresh_disk [47, 46, 46, 47, 46] = Some 0"
proof -
  have "path_inode fresh_disk [47, 97, 47, 98] = Some (resolve root_tree 0 [[97], [98]])"
    using path_inode_refines_walk [OF formatted_tree [OF fresh_disk(1,2)], of "[47, 97, 47, 98]"]
    by (simp add: root_tree_def dom_def components_def slash_def)
  moreover have "path_inode fresh_disk [47, 46, 46, 47, 46] = Some (resolve root_tree 0 [[46, 46], [46]])"
    using path_inode_refines_walk [OF formatted_tree [OF fresh_disk(1,2)], of "[47, 46, 46, 47, 46]"]
    by (simp add: root_tree_def dom_def components_def slash_def)
  ultimately show ?thesis unfolding resolve_fresh by (simp add: dot_def dotdot_def)
qed

theorem fresh_file_system_witness:
  "a1fs_readdir fresh_disk [slash] = Some (0, [dot, dotdot]) \<and>
   a1fs_getattr fresh_disk [47, 97] stat_zero = Some (- 2, stat_zero)"
  using fresh_file_system [OF fresh_disk(1,2), of stat_zero "[47, 97]"]
  by (simp add: components_def slash_def dot_def dotdot_def)

end
