(* ===== verification/A1fs_Tree.thy ===== *)
theory A1fs_Tree
  imports A1fs_Lookup
begin

text \<open>
  The invariant of a file system image: its superblock describes the regions of the layout,
  and the directories of a tree are stored in blocks of their own.  Frame lemmas say which
  regions a directory depends on.
\<close>

section \<open>Regions of the image\<close>

definition ino_at :: "nat \<Rightarrow> int \<Rightarrow> int" where "ino_at n i = lay_inode n * 4096 + i * 64"
definition ext_at :: "nat \<Rightarrow> int \<Rightarrow> int" where "ext_at n i = (lay_extent n + i) * 4096"
definition dat_at :: "nat \<Rightarrow> int \<Rightarrow> int" where "dat_at n j = (lay_data n + j) * 4096"

text \<open>The data block \<open>j\<close> is inside the image and has an \<open>int\<close> offset.\<close>

definition dat_ok :: "image \<Rightarrow> nat \<Rightarrow> int \<Rightarrow> bool" where
  "dat_ok img n j \<longleftrightarrow> 0 \<le> j \<and> dat_at n j + 4096 \<le> int (img_size img) \<and> dat_at n j + 4096 \<le> 2147483647"

lemma region_order:
  "0 \<le> i \<Longrightarrow> i < int n \<Longrightarrow> (map_blocks n + 3) * 4096 \<le> ino_at n i \<and> ino_at n i + 64 \<le> lay_extent n * 4096"
  "0 \<le> i \<Longrightarrow> i < int n \<Longrightarrow> lay_extent n * 4096 \<le> ext_at n i \<and> ext_at n i + 4096 \<le> lay_data n * 4096"
  "0 \<le> j \<Longrightarrow> lay_data n * 4096 \<le> dat_at n j"
  "1 \<le> map_blocks n"
proof -
  show "(map_blocks n + 3) * 4096 \<le> ino_at n i \<and> ino_at n i + 64 \<le> lay_extent n * 4096" if "0 \<le> i" "i < int n"
  proof -
    have "n < 64 * (n div 64) + 64" using mod_less_divisor [of 64 n] mult_div_mod_eq [of 64 n] by linarith
    then have "int n < 64 * int (n div 64) + 64" by linarith
    then show ?thesis using that by (simp add: ino_at_def lay_extent_def lay_inode_def)
  qed
qed (simp_all add: ext_at_def dat_at_def lay_data_def map_blocks_def)

lemma region_apart:
  "i \<noteq> k \<Longrightarrow> ino_at n i + 64 \<le> ino_at n k \<or> ino_at n k + 64 \<le> ino_at n i"
  "i \<noteq> k \<Longrightarrow> ext_at n i + 4096 \<le> ext_at n k \<or> ext_at n k + 4096 \<le> ext_at n i"
  "i \<noteq> k \<Longrightarrow> dat_at n i + 4096 \<le> dat_at n k \<or> dat_at n k + 4096 \<le> dat_at n i"
  by (auto simp: ino_at_def ext_at_def dat_at_def)

lemma geometry_at:
  assumes "geometry img n"
  shows "0 \<le> i \<Longrightarrow> i < int n \<Longrightarrow> inode_ptr img i = Some (ino_at n i)"
    and "0 \<le> i \<Longrightarrow> i < int n \<Longrightarrow> extent_ptr img i = Some (ext_at n i)"
    and "dat_ok img n j \<Longrightarrow> data_ptr img j = Some (dat_at n j)"
  using geometry_ptrs [OF assms] by (simp_all add: ino_at_def ext_at_def dat_at_def dat_ok_def)

lemma geometry_room:
  assumes "geometry img n"
  shows "lay_data n * 4096 + 4096 \<le> int (img_size img)" "lay_data n * 4096 + 4096 \<le> 2147483647"
  using assms by (simp_all add: geometry_def fits_def distrib_right)

lemma geometry_agrees:
  assumes "geometry img n" "agrees img img' 0 44" "img_size img' = img_size img"
  shows "geometry img' n"
proof -
  have "ld32 img' off = ld32 img off" if "0 \<le> off" "off \<le> 40" for off
    using agrees_ld32 [OF assms(2)] that by simp
  then show ?thesis using assms(1,3) by (simp add: geometry_def fits_def sb_access ldi_def)
qed

lemma is_dir_agrees: "agrees img img' r 4 \<Longrightarrow> is_dir img' r = is_dir img r"
  by (simp add: is_dir_def i_mode_def agrees_ld32)

lemma entry_at_agrees:
  assumes "agrees img img' (blk + 256 * int x) 256"
  shows "entry_at img' blk x = entry_at img blk x"
  using assms by (simp add: entry_at_def ldi_def agrees_ld32 agrees_cstr A1FS_NAME_MAX_def)

text \<open>A directory in terms of the regions.\<close>

lemma dir_block_at:
  assumes "geometry img n" "0 \<le> d" "d < int n" "dat_ok img n s"
  shows "dir_block img d s es \<longleftrightarrow>
    i_size img (ino_at n d) = Some (256 * of_nat (length es)) \<and> i_number img (ino_at n d) = Some d \<and>
    i_extents img (ino_at n d) = Some 1 \<and> ld32 img (ext_at n d) = Some (word_of_int s) \<and>
    ld32 img (ext_at n d + 4) = Some 1 \<and> length es \<le> 16 \<and>
    (\<forall>x < length es. entry_at img (dat_at n s) x = Some (es ! x))"
proof -
  have "s < 2147483647"
  proof -
    have "0 \<le> lay_data n" by (simp add: lay_defs)
    then show ?thesis using assms(4) by (simp add: dat_ok_def dat_at_def)
  qed
  then show ?thesis
    using geometry_at [OF assms(1)] assms(2-4) unfolding dir_block_def by (auto simp: dat_ok_def)
qed

lemma dir_block_agrees:
  assumes g: "geometry img n" "geometry img' n" and d: "0 \<le> d" "d < int n" and s: "dat_ok img n s" "img_size img' = img_size img"
    and k: "agrees img img' (ino_at n d) 64" "agrees img img' (ext_at n d) 8"
      "agrees img img' (dat_at n s) (256 * length es)"
    and b: "dir_block img d s es"
  shows "dir_block img' d s es"
proof -
  have s': "dat_ok img' n s" using s by (simp add: dat_ok_def)
  have "entry_at img' (dat_at n s) x = entry_at img (dat_at n s) x" if "x < length es" for x
    by (rule entry_at_agrees, rule agrees_sub [OF k(3)]) (use that in simp_all)
  then show ?thesis
    using b k(1,2) unfolding dir_block_at [OF g(1) d s(1)] dir_block_at [OF g(2) d s']
    by (simp add: inode_access ldi_def agrees_ld32 agrees_ld64)
qed

section \<open>A file system with a tree of directories\<close>

text \<open>The directories of \<open>tree\<close> are in different blocks, and an entry names a directory of the
  tree exactly when its inode has the mode of one.\<close>

definition dir_ok :: "image \<Rightarrow> nat \<Rightarrow> dir_tree \<Rightarrow> (int \<Rightarrow> int) \<Rightarrow> int \<Rightarrow> entries \<Rightarrow> bool" where
  "dir_ok img n tree blk d es \<longleftrightarrow>
     0 \<le> d \<and> d < int n \<and> dat_ok img n (blk d) \<and> dir_block img d (blk d) es \<and> is_dir img (ino_at n d) = Some True \<and>
     (\<forall>i \<in> fst ` set es. 0 \<le> i \<and> i < int n \<and> is_dir img (ino_at n i) = Some (i \<in> dom tree))"

definition fs_ok :: "image \<Rightarrow> nat \<Rightarrow> dir_tree \<Rightarrow> (int \<Rightarrow> int) \<Rightarrow> bool" where
  "fs_ok img n tree blk \<longleftrightarrow> geometry img n \<and> 0 \<in> dom tree \<and> inj_on blk (dom tree) \<and>
     (\<forall>d es. tree d = Some es \<longrightarrow> dir_ok img n tree blk d es)"

lemma fs_okD: "fs_ok img n tree blk \<Longrightarrow> tree d = Some es \<Longrightarrow> dir_ok img n tree blk d es"
  by (simp add: fs_ok_def)

lemma fs_ok_tree:
  assumes "fs_ok img n tree blk"
  shows "tree_holds img tree"
proof -
  have g: "geometry img n" using assms by (simp add: fs_ok_def)
  have "(\<exists>r. inode_ptr img d = Some r \<and> is_dir img r = Some True \<and> dir_holds img r es) \<and>
      (\<forall>i \<in> fst ` set es. \<exists>r. inode_ptr img i = Some r \<and> is_dir img r = Some (i \<in> dom tree))"
    if "tree d = Some es" for d es
  proof -
    have ok: "dir_ok img n tree blk d es" using fs_okD [OF assms that] .
    then have "inode_ptr img d = Some (ino_at n d)" using geometry_at(1) [OF g] by (simp add: dir_ok_def)
    moreover from this have "dir_holds img (ino_at n d) es" using dir_block_holds ok unfolding dir_ok_def by blast
    ultimately show ?thesis using ok geometry_at(1) [OF g] by (simp add: dir_ok_def)
  qed
  then show ?thesis by (simp only: tree_holds_def) blast
qed

lemma formatted_fs_ok:
  assumes f: "formatted img n sb pad ipad" and g: "geometry img n"
  shows "fs_ok img n root_tree (\<lambda>_. 0)"
proof -
  have "dat_ok img n 0" using geometry_room [OF g] by (simp add: dat_ok_def dat_at_def)
  then have "dir_ok img n root_tree (\<lambda>_. 0) 0 root_entries"
    using formatted_root(1,2) [OF f g] g
    by (simp add: dir_ok_def ino_at_def root_tree_def root_entries_def geometry_def dom_def)
  then show ?thesis using g by (auto simp: fs_ok_def root_tree_def dom_def split: if_splits)
qed

end
