(* ===== verification/A1fs_Create.thy ===== *)
theory A1fs_Create
  imports A1fs_Tree
begin

text \<open>
  Creating files (\<open>a1fs.c\<close>: \<open>a1fs_create\<close>, and the steps it shares with \<open>a1fs_mkdir\<close>).  Every access goes
  to the image as the earlier writes left it.  The array \<open>parent_path\<close> is not initialised by
  the code and gets no terminator: its contents before the call are a parameter.
\<close>

section \<open>Operations\<close>

text \<open>\<open>strrchr\<close> as an index, and a null-terminated string in an array of characters.\<close>

definition strrchr :: "u8 list \<Rightarrow> u8 \<Rightarrow> nat option" where
  "strrchr s c =
     (if c \<in> set s then Some (length s - Suc (length (takeWhile (\<lambda>x. x \<noteq> c) (rev s)))) else None)"

definition array_str :: "u8 list \<Rightarrow> u8 list option" where
  "array_str a = (if 0 \<in> set a then Some (takeWhile (\<lambda>c. c \<noteq> 0) a) else None)"

text \<open>The search for the parent: its inode number and the name of the new entry.  \<open>junk\<close> is what
  \<open>parent_path\<close> holds before \<open>strncpy\<close>.\<close>

definition find_parent :: "image \<Rightarrow> u8 list \<Rightarrow> u8 list \<Rightarrow> (int \<times> u8 list) option" where
  "find_parent img junk path = do {
     (if length path < 100 then Some () else None);
     i \<leftarrow> strrchr path slash;
     let dr_name = drop i path;
     let new_dr = drop 1 dr_name;
     let k = length path - length dr_name;
     parent_path \<leftarrow> array_str (take k path @ drop k junk);
     case strrchr parent_path slash of
       None \<Rightarrow> Some (0, new_dr)
     | Some j \<Rightarrow> do {
         (if length (drop (j + 1) parent_path) < A1FS_NAME_MAX then Some () else None);
         parent_ino \<leftarrow> path_inode img parent_path;
         Some (parent_ino, new_dr)
       }
   }"

text \<open>The search for a free inode or block, on a copy of the bitmap.\<close>

definition alloc_map :: "image \<Rightarrow> int \<Rightarrow> (int \<times> image) option" where
  "alloc_map img start = do {
     bm \<leftarrow> cint (start * A1FS_BLOCK_SIZE);
     rd img bm 4096;
     alloc_bit img bm
   }"

text \<open>The last extent of the parent (\<open>append_ind\<close>, \<open>extent_num\<close>) and \<open>byte_more\<close>.\<close>

definition parent_end :: "image \<Rightarrow> int \<Rightarrow> (int \<times> int \<times> int \<times> int) option" where
  "parent_end img parent_ino = do {
     parent \<leftarrow> inode_ptr img parent_ino;
     extent_count \<leftarrow> i_extents img parent;
     parent_block \<leftarrow> extent_ptr img parent_ino;
     l \<leftarrow> cint (extent_count - 1);
     (s, c) \<leftarrow> extent_at img parent_block l;
     sz \<leftarrow> i_size img parent;
     Some (parent, sint s, sint c, to_int (sz mod 4096))
   }"

text \<open>A new inode with the given fields.\<close>

definition new_inode :: "image \<Rightarrow> int \<Rightarrow> u32 \<Rightarrow> u32 \<Rightarrow> u64 \<Rightarrow> int \<Rightarrow> image option" where
  "new_inode img ind m l sz extents = do {
     new_ino \<leftarrow> inode_ptr img ind;
     img1 \<leftarrow> st32 img new_ino m;
     img2 \<leftarrow> st32 img1 (new_ino + 4) l;
     img3 \<leftarrow> st64 img2 (new_ino + 8) sz;
     img4 \<leftarrow> st32 img3 (new_ino + 32) (word_of_int ind);
     st32 img4 (new_ino + 36) (word_of_int extents)
   }"

text \<open>A directory entry at an offset.\<close>

definition put_entry :: "image \<Rightarrow> int \<Rightarrow> int \<Rightarrow> u8 list \<Rightarrow> image option" where
  "put_entry img p ino name = do {
     img1 \<leftarrow> st32 img p (word_of_int ino);
     put_str A1FS_NAME_MAX img1 (p + 4) name
   }"

text \<open>The new entry at the end of the parent, \<open>parent_append\<close>.\<close>

definition append_ptr :: "image \<Rightarrow> int \<Rightarrow> int \<Rightarrow> int \<Rightarrow> int option" where
  "append_ptr img append_ind extent_num byte_more = do {
     sd \<leftarrow> sb_start_data img;
     a \<leftarrow> cint (sd + append_ind);
     b \<leftarrow> cint (a + extent_num);
     c \<leftarrow> cint (b - 1);
     off \<leftarrow> cint (c * A1FS_BLOCK_SIZE);
     Some (off + byte_more)
   }"

abbreviation (input) S_IFMT :: u32 where "S_IFMT \<equiv> 0xF000"
abbreviation (input) S_IFREG :: u32 where "S_IFREG \<equiv> 0x8000"

definition a1fs_create :: "image \<Rightarrow> u8 list \<Rightarrow> u8 list \<Rightarrow> u32 \<Rightarrow> (int \<times> image) option" where
  "a1fs_create img junk path m = do {
     (if m AND S_IFMT = S_IFREG then Some () else None);
     free \<leftarrow> sb_free_inodes img;
     img0 \<leftarrow> st32 img 48 (free - 1);
     fi \<leftarrow> sb_free_inodes img0;
     fb \<leftarrow> sb_free_blocks img0;
     if fi = 0 \<or> fb = 0 then Some (- ENOMEM, img0)
     else do {
       im \<leftarrow> sb_start_inode_map img0;
       (free_inode_ind, img1) \<leftarrow> alloc_map img0 im;
       (parent_ino, new_dr) \<leftarrow> find_parent img1 junk path;
       (parent, append_ind, extent_num, byte_more) \<leftarrow> parent_end img1 parent_ino;
       l \<leftarrow> i_links img1 parent;
       img2 \<leftarrow> st32 img1 (parent + 4) (l + 1);
       sz \<leftarrow> i_size img2 parent;
       img3 \<leftarrow> st64 img2 (parent + 8) (sz + 256);
       img4 \<leftarrow> new_inode img3 free_inode_ind m 1 0 0;
       p \<leftarrow> append_ptr img4 append_ind extent_num byte_more;
       img5 \<leftarrow> put_entry img4 p free_inode_ind new_dr;
       Some (0, img5)
     }
   }"

section \<open>What the steps do\<close>

lemma alloc_map_ok:
  assumes bm: "bm_ok img (b * 4096)" "int_ok (b * 4096)" and m: "first_free img (b * 4096) m"
  shows "\<exists>img'. alloc_map img b = Some (int m, img') \<and> changed img img' [(b * 4096, 4096)] \<and>
    marks img img' (b * 4096) m"
proof -
  let ?bm = "b * 4096"
  have m8: "m mod 8 < 32768" using mod_less_divisor [of 8 m] by linarith
  obtain img' where img': "modify img ?bm (int (m mod 8)) 1 = Some img'"
    "\<forall>k < 32768. bm_bit img' ?bm k = (k = m mod 8 \<or> bm_bit img ?bm k)"
    using modify_ok [OF bm(1) m8, of 1] by auto
  have "changed img img' [(?bm + int (m mod 8 div 8), 1)]"
    using raw.st_changed img'(1) unfolding modify_byte [OF bm(1) m8] by fastforce
  then have "changed img img' [(?bm, 4096)]" by (rule changed_merge) simp
  moreover have "alloc_bit img ?bm = Some (int m, img')"
    using alloc_bit_loop_first [OF bm(1) m, of 0 4096] img'(1) by (simp add: alloc_bit_def)
  moreover obtain bs where "rd img ?bm 4096 = Some bs"
    using bm(1) rd_defined [of img ?bm 4096] unfolding bm_ok_def by blast
  ultimately show ?thesis
    using img'(2) bm(2) by (auto simp: alloc_map_def A1FS_BLOCK_SIZE_def cint_ok)
qed

lemma new_inode_ok:
  assumes r: "inode_ptr img ind = Some r" "0 \<le> r" "r + 64 \<le> int (img_size img)"
  shows "\<exists>img'. new_inode img ind m l sz extents = Some img' \<and> changed img img' [(r, 64)] \<and>
    i_mode img' r = Some m \<and> i_links img' r = Some l \<and> i_size img' r = Some sz \<and>
    i_number img' r = Some (sint (word_of_int ind :: u32)) \<and> i_extents img' r = Some (sint (word_of_int extents :: u32))"
proof -
  obtain i1 where 1: "st32 img r m = Some i1" "changed img i1 [(r, 4)]" "ld32 i1 r = Some m"
    using f32.field_effect [of r img m] r by auto
  obtain i2 where 2: "st32 i1 (r + 4) l = Some i2" "changed i1 i2 [(r + 4, 4)]" "ld32 i2 (r + 4) = Some l"
    using f32.field_effect [of "r + 4" i1 l] r changed_size [OF 1(2)] by auto
  obtain i3 where 3: "st64 i2 (r + 8) sz = Some i3" "changed i2 i3 [(r + 8, 8)]" "ld64 i3 (r + 8) = Some sz"
    using f64.field_effect [of "r + 8" i2 sz] r changed_size [OF 1(2)] changed_size [OF 2(2)] by auto
  obtain i4 where 4: "st32 i3 (r + 32) (word_of_int ind) = Some i4" "changed i3 i4 [(r + 32, 4)]"
    "ld32 i4 (r + 32) = Some (word_of_int ind)"
    using f32.field_effect [of "r + 32" i3 "word_of_int ind"] r changed_size [OF 1(2)] changed_size [OF 2(2)]
      changed_size [OF 3(2)] by auto
  obtain i5 where 5: "st32 i4 (r + 36) (word_of_int extents) = Some i5" "changed i4 i5 [(r + 36, 4)]"
    "ld32 i5 (r + 36) = Some (word_of_int extents)"
    using f32.field_effect [of "r + 36" i4 "word_of_int extents"] r changed_size [OF 1(2)] changed_size [OF 2(2)]
      changed_size [OF 3(2)] changed_size [OF 4(2)] by auto
  note k2 = changed_agrees [OF 2(2)] and k3 = changed_agrees [OF 3(2)] and k4 = changed_agrees [OF 4(2)]
    and k5 = changed_agrees [OF 5(2)]
  have "ld32 i5 r = Some m"
    using 1(3) agrees_ld32 [OF k2 [of r 4]] agrees_ld32 [OF k3 [of r 4]] agrees_ld32 [OF k4 [of r 4]]
      agrees_ld32 [OF k5 [of r 4]] by (simp add: apart_def)
  moreover have "ld32 i5 (r + 4) = Some l"
    using 2(3) agrees_ld32 [OF k3 [of "r + 4" 4]] agrees_ld32 [OF k4 [of "r + 4" 4]]
      agrees_ld32 [OF k5 [of "r + 4" 4]] by (simp add: apart_def)
  moreover have "ld64 i5 (r + 8) = Some sz"
    using 3(3) agrees_ld64 [OF k4 [of "r + 8" 8]] agrees_ld64 [OF k5 [of "r + 8" 8]] by (simp add: apart_def)
  moreover have "ld32 i5 (r + 32) = Some (word_of_int ind)"
    using 4(3) agrees_ld32 [OF k5 [of "r + 32" 4]] by (simp add: apart_def)
  moreover have "changed img i5 [(r, 64)]"
    by (rule changed_merge [OF changed_trans [OF changed_trans [OF changed_trans [OF changed_trans [OF 1(2) 2(2)] 3(2)] 4(2)] 5(2)]])
      simp
  ultimately show ?thesis using 1(1) 2(1) 3(1) 4(1) 5(1,3) r(1) by (simp add: new_inode_def inode_access ldi_def)
qed

lemma put_entry_ok:
  assumes p: "0 \<le> p" "p + 256 \<le> int (img_size img)" and name: "length name < 252" "0 \<notin> set name"
  shows "\<exists>img'. put_entry img p ino name = Some img' \<and> changed img img' [(p, 256)] \<and>
    ldi img' p = Some (sint (word_of_int ino :: u32)) \<and> cstr img' (p + 4) A1FS_NAME_MAX = Some name"
proof -
  obtain i1 where 1: "st32 img p (word_of_int ino) = Some i1" "changed img i1 [(p, 4)]" "ld32 i1 p = Some (word_of_int ino)"
    using f32.field_effect [of p img "word_of_int ino"] p by auto
  obtain i2 where 2: "put_str A1FS_NAME_MAX i1 (p + 4) name = Some i2" "changed i1 i2 [(p + 4, length name + 1)]"
    using text_field.st_effect [of "p + 4" name i1 A1FS_NAME_MAX] p name changed_size [OF 1(2)]
    by (auto simp: A1FS_NAME_MAX_def)
  have "ld32 i2 p = Some (word_of_int ino)"
    using 1(3) agrees_ld32 [OF changed_agrees [OF 2(2), of p 4]] by (simp add: apart_def)
  moreover have "changed img i2 [(p, 256)]"
    by (rule changed_merge [OF changed_trans [OF 1(2) 2(2)]]) (use name(1) in simp)
  ultimately show ?thesis
    using 1(1) 2(1) cstr_put_str [OF 2(1) name(2)] by (simp add: put_entry_def ldi_def)
qed

section \<open>Paths to new entries\<close>

lemma strrchr_last: "c \<notin> set ys \<Longrightarrow> strrchr (xs @ c # ys) c = Some (length xs)"
  by (simp add: strrchr_def takeWhile_append)

lemma array_str_junk:
  assumes "0 \<notin> set s" "length s < length junk" "junk ! length s = 0"
  shows "array_str (s @ drop (length s) junk) = Some s"
proof -
  have "drop (length s) junk = 0 # drop (Suc (length s)) junk" using assms(2,3) by (metis Cons_nth_drop_Suc)
  then show ?thesis using assms(1) by (simp add: array_str_def takeWhile_append)
qed

text \<open>A path that ends in a name, and what the uninitialised array must hold for the code to find
  the parent: a null character right behind the parent's path.\<close>

definition new_path :: "u8 list \<Rightarrow> u8 list \<Rightarrow> u8 list \<Rightarrow> u8 list \<Rightarrow> bool" where
  "new_path junk path pp name \<longleftrightarrow>
     path = pp @ slash # name \<and> name \<noteq> [] \<and> slash \<notin> set name \<and> 0 \<notin> set path \<and> length path < 100 \<and>
     (pp = [] \<or> hd pp = slash \<and> components pp \<noteq> []) \<and>
     length pp < length junk \<and> junk ! length pp = 0"

lemma find_parent_new:
  assumes "new_path junk path pp name"
  shows "find_parent img junk path =
    (if pp = [] then Some (0, name) else map_option (\<lambda>p. (p, name)) (path_inode img pp))"
proof -
  have p: "path = pp @ slash # name" "slash \<notin> set name" "length path < 100" "0 \<notin> set pp"
    using assms by (auto simp: new_path_def)
  have i: "strrchr path slash = Some (length pp)" using strrchr_last p(1,2) by blast
  have a: "array_str (take (length pp) path @ drop (length pp) junk) = Some pp"
    using array_str_junk [OF p(4)] assms p(1) by (simp add: new_path_def)
  have k: "length path - length (drop (length pp) path) = length pp" "drop 1 (drop (length pp) path) = name"
    using p(1) by simp_all
  show ?thesis
  proof (cases "pp = []")
    case True
    with p(3) i a k show ?thesis by (simp add: find_parent_def Let_def strrchr_def)
  next
    case False
    then have "slash \<in> set pp" using assms by (auto simp: new_path_def dest: hd_in_set)
    then obtain j where j: "strrchr pp slash = Some j" by (simp add: strrchr_def)
    have "length (drop (j + 1) pp) < A1FS_NAME_MAX" using p(1,3) by (simp add: A1FS_NAME_MAX_def)
    with False p(3) i a k j show ?thesis
      by (simp add: find_parent_def Let_def map_conv_bind_option comp_def)
  qed
qed

lemma split_slash_append: "split_slash (xs @ slash # ys) = split_slash xs @ split_slash ys"
proof (induction xs)
  case (Cons c xs)
  have "split_slash xs \<noteq> []" by (subst split_slash_takeWhile) simp
  with Cons show ?case by (auto split: list.splits)
qed simp

lemma split_slash_name: "slash \<notin> set name \<Longrightarrow> split_slash name = [name]"
  by (induction name) auto

lemma components_new:
  "new_path junk path pp name \<Longrightarrow> components path = components pp @ [name]"
  by (auto simp: new_path_def components_def split_slash_append split_slash_name)

text \<open>Adding a name that a directory does not have keeps every path that was there.\<close>

lemma last_match_append: "last_match c (es @ [(i, name)]) = (if name = c then i else last_match c es)"
  by (simp add: last_match_def)

lemma resolve_extend:
  assumes p: "tree p = Some es" "last_match name es = - 2"
    and sub: "tree' p = Some (es @ [(i, name)])" "\<And>d. d \<noteq> p \<Longrightarrow> d \<in> dom tree \<Longrightarrow> tree' d = tree d"
  shows "resolve tree d cs = q \<Longrightarrow> 0 \<le> q \<Longrightarrow> resolve tree' d cs = q"
proof (induction cs arbitrary: d)
  case (Cons c cs)
  then obtain ed where ed: "tree d = Some ed" by (cases "tree d") auto
  show ?case
  proof (cases "d = p")
    case True
    with Cons ed p sub(1) show ?thesis by (auto simp: last_match_append split: if_splits)
  next
    case False
    then have "tree' d = Some ed" using sub(2) [of d] ed by (simp add: dom_def)
    with Cons ed show ?thesis by (auto split: if_splits)
  qed
qed simp

lemma resolve_append: "resolve tree d cs = q \<Longrightarrow> 0 \<le> q \<Longrightarrow> resolve tree d (cs @ [c]) = resolve tree q [c]"
  by (induction cs arbitrary: d) (auto split: option.splits if_splits)

lemma resolve_new:
  assumes "tree p = Some es" "last_match name es = - 2" "0 \<le> p" "0 \<le> i"
    "tree' p = Some (es @ [(i, name)])" "\<And>d. d \<noteq> p \<Longrightarrow> d \<in> dom tree \<Longrightarrow> tree' d = tree d"
    "resolve tree 0 cs = p"
  shows "resolve tree' 0 (cs @ [name]) = i"
proof -
  have "resolve tree' 0 cs = p" using resolve_extend [OF assms(1,2,5,6,7,3)] .
  then show ?thesis using resolve_append [of tree' 0 cs p name] assms(3-5) by (simp add: last_match_append)
qed

text \<open>The parent found in a well-formed file system.\<close>

lemma find_parent_ok:
  assumes fs: "fs_ok img n tree blk" and new: "new_path junk path pp name" and p: "resolve tree 0 (components pp) = p"
  shows "find_parent img junk path = Some (p, name)"
proof (cases "pp = []")
  case True
  with p show ?thesis by (simp add: find_parent_new [OF new])
next
  case False
  have pp: "hd pp = slash" "components pp \<noteq> []" "length pp < 4096" "pp \<noteq> [slash]"
    using new False by (auto simp: new_path_def)
  have "path_inode img pp = Some p"
    using path_inode_tree [OF fs_ok_tree [OF fs] _ False pp(1,3)] fs pp(2,4) p by (simp add: fs_ok_def)
  with False show ?thesis by (simp add: find_parent_new [OF new])
qed

section \<open>The parent directory\<close>

lemma fs_ok_agrees:
  assumes fs: "fs_ok img n tree blk" and c: "changed img img' rs" and sb: "list_all (apart 0 44) rs"
    and high: "list_all (apart (lay_inode n * 4096) k) rs" "int (img_size img) \<le> lay_inode n * 4096 + int k"
  shows "fs_ok img' n tree blk"
proof -
  have g: "geometry img n" and size: "img_size img' = img_size img"
    using fs changed_size [OF c] by (simp_all add: fs_ok_def)
  have g': "geometry img' n" using geometry_agrees [OF g changed_agrees [OF c sb] size] .
  note top = changed_agrees [OF c high(1)]
  have "dir_ok img' n tree blk d es" if "tree d = Some es" for d es
  proof -
    have d: "dir_ok img n tree blk d es" using fs_okD [OF fs that] .
    then have r: "0 \<le> d" "d < int n" "dat_ok img n (blk d)" "dir_block img d (blk d) es" by (simp_all add: dir_ok_def)
    have len: "length es \<le> 16" using r(4) unfolding dir_block_def by blast
    have m: "is_dir img' (ino_at n i) = is_dir img (ino_at n i)" if "0 \<le> i" "i < int n" for i
      by (rule is_dir_agrees, rule agrees_sub [OF top])
        (use region_order(1) [OF that] high(2) geometry_room(1) [OF g] region_order(2) [of 0 n] that in
          \<open>simp_all add: lay_defs\<close>)
    have "dir_block img' d (blk d) es"
    proof (rule dir_block_agrees [OF g g' r(1-3) size _ _ _ r(4)])
      show "agrees img img' (ino_at n d) 64" "agrees img img' (ext_at n d) 8"
        "agrees img img' (dat_at n (blk d)) (256 * length es)"
        using region_order(1,2) [OF r(1,2)] region_order(3) [of "blk d" n] r(3) high(2) len geometry_room(1) [OF g]
        by (auto intro!: agrees_sub [OF top] simp: dat_ok_def lay_defs)
    qed
    with d size m show ?thesis by (auto simp: dir_ok_def dat_ok_def)
  qed
  then show ?thesis using fs g' by (simp add: fs_ok_def)
qed

text \<open>A new entry \<open>(m, name)\<close> at the end of the directory \<open>p\<close>, where the inode \<open>m\<close> was not a
  directory: what has to be kept and what has to be written.\<close>

lemma fs_ok_extend:
  assumes fs: "fs_ok img n tree blk" and p: "tree p = Some es" "length es < 16"
    and m: "0 \<le> m" "m < int n" "m \<notin> dom tree"
    and sub: "tree' p = Some (es @ [(m, name)])" "\<And>d. d \<noteq> p \<Longrightarrow> d \<noteq> m \<Longrightarrow> tree' d = tree d" "\<And>d. d \<noteq> m \<Longrightarrow> blk' d = blk d"
    and g': "geometry img' n" and size: "img_size img' = img_size img"
    and modes: "\<And>i. 0 \<le> i \<Longrightarrow> i < int n \<Longrightarrow> i \<noteq> m \<Longrightarrow> agrees img img' (ino_at n i) 4"
    and inodes: "\<And>d. d \<in> dom tree \<Longrightarrow> d \<noteq> p \<Longrightarrow> agrees img img' (ino_at n d) 64"
    and extents: "\<And>d. d \<in> dom tree \<Longrightarrow> agrees img img' (ext_at n d) 8"
    and blocks: "\<And>d ed. tree d = Some ed \<Longrightarrow> agrees img img' (dat_at n (blk d)) (256 * length ed)"
    and parent: "i_size img' (ino_at n p) = Some (256 * of_nat (Suc (length es)))" "agrees img img' (ino_at n p + 32) 8"
    and entry: "entry_at img' (dat_at n (blk p)) (length es) = Some (m, name)"
    and new: "is_dir img' (ino_at n m) = Some (m \<in> dom tree')"
    and dir: "\<And>em. tree' m = Some em \<Longrightarrow> dir_ok img' n tree' blk' m em" and inj: "inj_on blk' (dom tree')"
  shows "fs_ok img' n tree' blk'"
proof -
  have g: "geometry img n" using fs by (simp add: fs_ok_def)
  have pm: "p \<noteq> m" using p m by auto
  have dom: "i \<in> dom tree' \<longleftrightarrow> i \<in> dom tree" if "i \<noteq> m" for i
    using sub(1,2) p that by (cases "i = p") (auto simp: dom_def)
  have status: "is_dir img' (ino_at n i) = Some (i \<in> dom tree')"
    if "0 \<le> i" "i < int n" "is_dir img (ino_at n i) = Some (i \<in> dom tree)" for i
    using new dom [of i] is_dir_agrees [OF modes [OF that(1,2)]] that(3) by (cases "i = m") simp_all
  have old: "dir_ok img' n tree' blk' d ed'"
    if d: "dir_ok img n tree blk d ed" "d \<in> dom tree" and b: "dir_block img' d (blk d) ed'"
      and kids: "fst ` set ed' \<subseteq> insert m (fst ` set ed)" for d ed ed'
  proof -
    have "d \<noteq> m" using d(2) m(3) by blast
    then have "is_dir img' (ino_at n d) = Some True"
      using status [of d] d dom by (simp add: dir_ok_def)
    moreover have "\<forall>i \<in> fst ` set ed'. 0 \<le> i \<and> i < int n \<and> is_dir img' (ino_at n i) = Some (i \<in> dom tree')"
      using kids d(1) status new m(1,2) unfolding dir_ok_def by blast
    ultimately show ?thesis using d(1) b size \<open>d \<noteq> m\<close> sub(3) by (simp add: dir_ok_def dat_ok_def)
  qed
  have "dir_ok img' n tree' blk' d ed'" if t': "tree' d = Some ed'" for d ed'
  proof (cases "d = m")
    case True
    with dir t' show ?thesis by blast
  next
    case False
    show ?thesis
    proof (cases "d = p")
      case True
      have ok: "dir_ok img n tree blk p es" using fs_okD [OF fs p(1)] .
      then have r: "0 \<le> p" "p < int n" "dat_ok img n (blk p)" "dir_block img p (blk p) es" by (simp_all add: dir_ok_def)
      have r': "dat_ok img' n (blk p)" using r(3) size by (simp add: dat_ok_def)
      have "entry_at img' (dat_at n (blk p)) x = Some ((es @ [(m, name)]) ! x)" if "x < Suc (length es)" for x
      proof (cases "x = length es")
        case False
        with that have x: "x < length es" by simp
        have "entry_at img' (dat_at n (blk p)) x = entry_at img (dat_at n (blk p)) x"
          by (rule entry_at_agrees, rule agrees_sub [OF blocks [OF p(1)]]) (use x in simp_all)
        then show ?thesis using r(4) x unfolding dir_block_at [OF g r(1-3)] by (simp add: nth_append)
      qed (simp add: entry)
      moreover have "i_number img' (ino_at n p) = i_number img (ino_at n p)"
        "i_extents img' (ino_at n p) = i_extents img (ino_at n p)"
        using agrees_ld32 [OF parent(2)] by (simp_all add: inode_access ldi_def)
      moreover have "ld32 img' (ext_at n p) = ld32 img (ext_at n p)" "ld32 img' (ext_at n p + 4) = ld32 img (ext_at n p + 4)"
        using agrees_ld32 [OF extents [OF domI [of tree, OF p(1)]]] by simp_all
      ultimately have "dir_block img' p (blk p) (es @ [(m, name)])"
        using r(4) parent(1) p(2) unfolding dir_block_at [OF g r(1-3)] dir_block_at [OF g' r(1,2) r'] by simp
      then show ?thesis using old [OF ok, of "es @ [(m, name)]"] True t' sub(1) p(1) by auto
    next
      case False
      then have t: "tree d = Some ed'" using sub(2) \<open>d \<noteq> m\<close> t' by simp
      then have ok: "dir_ok img n tree blk d ed'" using fs_okD [OF fs] by blast
      then have r: "0 \<le> d" "d < int n" "dat_ok img n (blk d)" "dir_block img d (blk d) ed'" by (simp_all add: dir_ok_def)
      have "dir_block img' d (blk d) ed'"
        using dir_block_agrees [OF g g' r(1-3) size _ _ _ r(4)] inodes [of d] extents [of d] blocks [OF t] t False by blast
      then show ?thesis using old [OF ok] t by blast
    qed
  qed
  moreover have "0 \<in> dom tree'"
  proof -
    have "0 \<in> dom tree" using fs by (simp add: fs_ok_def)
    then have "0 \<noteq> m" using m(3) by blast
    then show ?thesis using dom \<open>0 \<in> dom tree\<close> by blast
  qed
  ultimately show ?thesis using g' inj by (simp add: fs_ok_def)
qed

section \<open>Steps in a well-formed file system\<close>

lemma bm_bit_agrees:
  assumes "agrees img img' bm 4096" "bm_ok img bm" "bm_ok img' bm" "i < 32768"
  shows "bm_bit img' bm i = bm_bit img bm i"
proof -
  have "i div 8 < 4096" using assms(4) by linarith
  then have "rd img' (bm + int (i div 8)) 1 = rd img (bm + int (i div 8)) 1" using agrees_rd [OF assms(1)] by simp
  then show ?thesis
    using rd_byte [OF assms(2) \<open>i div 8 < 4096\<close>] rd_byte [OF assms(3) \<open>i div 8 < 4096\<close>] by (simp add: bm_bit_def)
qed

lemma first_free_agrees:
  assumes "agrees img img' bm 4096" "bm_ok img bm" "bm_ok img' bm" "first_free img bm m"
  shows "first_free img' bm m"
  using assms(4) bm_bit_agrees [OF assms(1-3)] by (simp add: first_free_def)

lemma geometry_maps:
  assumes "geometry img n"
  shows "bm_ok img (1 * 4096)" "bm_ok img ((map_blocks n + 1) * 4096)" "int_ok (1 * 4096)" "int_ok ((map_blocks n + 1) * 4096)"
proof -
  have "map_blocks n + 4 \<le> lay_data n" "1 \<le> map_blocks n" by (simp_all add: lay_defs)
  then show "bm_ok img (1 * 4096)" "bm_ok img ((map_blocks n + 1) * 4096)" "int_ok (1 * 4096)" "int_ok ((map_blocks n + 1) * 4096)"
    using geometry_room [OF assms] by (simp_all add: bm_ok_def int_ok_def)
qed

text \<open>Updates of the counts and of the bitmaps, which are below the inode table.\<close>

lemma fs_ok_low:
  assumes fs: "fs_ok img n tree blk" and c: "changed img img' [(off, w)]"
    and low: "44 \<le> off" "off + int w \<le> lay_inode n * 4096"
  shows "fs_ok img' n tree blk"
proof (rule fs_ok_agrees [OF fs c, of "img_size img"])
  have "0 \<le> lay_inode n" by (simp add: lay_defs)
  then show "list_all (apart 0 44) [(off, w)]" "list_all (apart (lay_inode n * 4096) (img_size img)) [(off, w)]"
    "int (img_size img) \<le> lay_inode n * 4096 + int (img_size img)"
    using low by (simp_all add: apart_def)
qed

text \<open>The end of a directory with fewer than 16 entries.\<close>

lemma parent_end_ok:
  assumes fs: "fs_ok img n tree blk" and p: "tree p = Some es" "length es < 16"
  shows "parent_end img p = Some (ino_at n p, blk p, 1, 256 * int (length es))"
    and "append_ptr img (blk p) 1 (256 * int (length es)) = Some (dat_at n (blk p) + 256 * int (length es))"
    and "i_size img (ino_at n p) = Some (256 * of_nat (length es))"
    and "\<exists>l. i_links img (ino_at n p) = Some l"
proof -
  have g: "geometry img n" using fs by (simp add: fs_ok_def)
  have ok: "0 \<le> p" "p < int n" "dat_ok img n (blk p)" "dir_block img p (blk p) es" "is_dir img (ino_at n p) = Some True"
    using fs_okD [OF fs p(1)] by (simp_all add: dir_ok_def)
  note d = ok(4) [unfolded dir_block_at [OF g ok(1-3)]]
  show sz: "i_size img (ino_at n p) = Some (256 * of_nat (length es))" using d by simp
  show "\<exists>l. i_links img (ino_at n p) = Some l" using i_links_defined [OF ok(5) sz] .
  have b: "0 \<le> blk p" "0 \<le> lay_data n" "(lay_data n + blk p) * 4096 \<le> 2147479551"
    using ok(3) by (simp_all add: dat_ok_def dat_at_def lay_defs)
  then have s: "sint (word_of_int (blk p) :: u32) = blk p" by (intro sint_word_of_int) simp_all
  have "256 * length es < 2 ^ 64" using p(2) by simp
  moreover have "256 * of_nat (length es) = (of_nat (256 * length es) :: u64)" by simp
  ultimately have u: "unat (256 * of_nat (length es) :: u64) = 256 * length es" by (simp only: unat_of_nat_u64)
  then have "unat (256 * of_nat (length es) mod 4096 :: u64) = 256 * length es"
    using p(2) by (simp only: unat_mod) simp
  then have "to_int (256 * of_nat (length es) mod 4096) = 256 * int (length es)"
    using to_int_small [of "256 * of_nat (length es) mod 4096"] p(2) by (simp only:) simp
  then show "parent_end img p = Some (ino_at n p, blk p, 1, 256 * int (length es))"
    using d geometry_at(1,2) [OF g ok(1,2)] s by (simp add: parent_end_def extent_at_def cint_def int_ok_def)
  have "sb_start_data img = Some (lay_data n)" using g by (simp add: geometry_def)
  then show "append_ptr img (blk p) 1 (256 * int (length es)) = Some (dat_at n (blk p) + 256 * int (length es))"
    using b by (simp add: append_ptr_def A1FS_BLOCK_SIZE_def dat_at_def cint_def int_ok_def)
qed

lemma append_ptr_agrees: "agrees img img' 0 44 \<Longrightarrow> append_ptr img' a e b = append_ptr img a e b"
  by (simp add: append_ptr_def sb_access ldi_def agrees_ld32)

text \<open>The parent's links and size are updated, in one order or the other.\<close>

lemma bump_parent:
  assumes "0 \<le> r" "r + 64 \<le> int (img_size img)" "i_links img r = Some l" "i_size img r = Some sz"
  shows "\<exists>i1 i2. st32 img (r + 4) (l + 1) = Some i1 \<and> i_size i1 r = Some sz \<and> st64 i1 (r + 8) (sz + 256) = Some i2 \<and>
      i_size i2 r = Some (sz + 256) \<and> i_links i2 r = Some (l + 1) \<and> changed img i2 [(r + 4, 12)]"
    and "\<exists>i1 i2. st64 img (r + 8) (sz + 256) = Some i1 \<and> i_links i1 r = Some l \<and> st32 i1 (r + 4) (l + 1) = Some i2 \<and>
      i_size i2 r = Some (sz + 256) \<and> i_links i2 r = Some (l + 1) \<and> changed img i2 [(r + 4, 12)]"
proof -
  obtain i1 where 1: "st32 img (r + 4) (l + 1) = Some i1" "changed img i1 [(r + 4, 4)]" "ld32 i1 (r + 4) = Some (l + 1)"
    using f32.field_effect [of "r + 4" img "l + 1"] assms by auto
  obtain i2 where 2: "st64 i1 (r + 8) (sz + 256) = Some i2" "changed i1 i2 [(r + 8, 8)]" "ld64 i2 (r + 8) = Some (sz + 256)"
    using f64.field_effect [of "r + 8" i1 "sz + 256"] assms changed_size [OF 1(2)] by auto
  have "changed img i2 [(r + 4, 12)]" by (rule changed_merge [OF changed_trans [OF 1(2) 2(2)]]) simp
  moreover have "ld64 i1 (r + 8) = Some sz" "ld32 i2 (r + 4) = Some (l + 1)"
    using assms(4) 1(3) agrees_ld64 [OF changed_agrees [OF 1(2), of "r + 8" 8]]
      agrees_ld32 [OF changed_agrees [OF 2(2), of "r + 4" 4]] by (simp_all add: apart_def inode_access)
  ultimately show "\<exists>i1 i2. st32 img (r + 4) (l + 1) = Some i1 \<and> i_size i1 r = Some sz \<and> st64 i1 (r + 8) (sz + 256) = Some i2 \<and>
      i_size i2 r = Some (sz + 256) \<and> i_links i2 r = Some (l + 1) \<and> changed img i2 [(r + 4, 12)]"
    using 1 2 by (simp add: inode_access)
  obtain j1 where 3: "st64 img (r + 8) (sz + 256) = Some j1" "changed img j1 [(r + 8, 8)]" "ld64 j1 (r + 8) = Some (sz + 256)"
    using f64.field_effect [of "r + 8" img "sz + 256"] assms by auto
  obtain j2 where 4: "st32 j1 (r + 4) (l + 1) = Some j2" "changed j1 j2 [(r + 4, 4)]" "ld32 j2 (r + 4) = Some (l + 1)"
    using f32.field_effect [of "r + 4" j1 "l + 1"] assms changed_size [OF 3(2)] by auto
  have "changed img j2 [(r + 4, 12)]" by (rule changed_merge [OF changed_trans [OF 3(2) 4(2)]]) simp
  moreover have "ld32 j1 (r + 4) = Some l" "ld64 j2 (r + 8) = Some (sz + 256)"
    using assms(3) 3(3) agrees_ld32 [OF changed_agrees [OF 3(2), of "r + 4" 4]]
      agrees_ld64 [OF changed_agrees [OF 4(2), of "r + 8" 8]] by (simp_all add: apart_def inode_access)
  ultimately show "\<exists>i1 i2. st64 img (r + 8) (sz + 256) = Some i1 \<and> i_links i1 r = Some l \<and> st32 i1 (r + 4) (l + 1) = Some i2 \<and>
      i_size i2 r = Some (sz + 256) \<and> i_links i2 r = Some (l + 1) \<and> changed img i2 [(r + 4, 12)]"
    using 3 4 by (simp add: inode_access)
qed

text \<open>Where the parts of a directory are.\<close>

lemma dir_regions:
  assumes "fs_ok img n tree blk" "tree d = Some ed"
  shows "0 \<le> d" "d < int n" "16384 \<le> ino_at n d" "ino_at n d + 64 \<le> lay_extent n * 4096"
    "lay_extent n * 4096 \<le> ext_at n d" "ext_at n d + 4096 \<le> lay_data n * 4096" "lay_data n * 4096 \<le> dat_at n (blk d)"
    "dat_at n (blk d) + 4096 \<le> int (img_size img)" "length ed \<le> 16"
proof -
  have d: "dir_ok img n tree blk d ed" using fs_okD [OF assms] .
  show r: "0 \<le> d" "d < int n" using d by (simp_all add: dir_ok_def)
  show "16384 \<le> ino_at n d" "ino_at n d + 64 \<le> lay_extent n * 4096" "lay_extent n * 4096 \<le> ext_at n d"
    "ext_at n d + 4096 \<le> lay_data n * 4096"
    using region_order(1,2) [OF r] region_order(4) [of n] by simp_all
  show "lay_data n * 4096 \<le> dat_at n (blk d)" "dat_at n (blk d) + 4096 \<le> int (img_size img)"
    using d region_order(3) [of "blk d" n] by (simp_all add: dir_ok_def dat_ok_def)
  show "length ed \<le> 16" using d unfolding dir_ok_def dir_block_def by blast
qed

lemma dir_data_apart:
  assumes "fs_ok img n tree blk" "tree d = Some ed" "tree p = Some es"
  shows "apart (dat_at n (blk d)) (256 * length ed) (dat_at n (blk p) + 256 * int (length es), 256) \<or> 16 \<le> length es"
proof (cases "d = p")
  case True
  with assms show ?thesis by (simp add: apart_def)
next
  case False
  then have "blk d \<noteq> blk p" using assms by (auto simp: fs_ok_def dest: inj_onD)
  from region_apart(3) [OF this, of n] dir_regions(9) [OF assms(1,2)] show ?thesis by (auto simp: apart_def)
qed

section \<open>Creating a file\<close>

lemma regular_not_dir:
  assumes "(m :: u32) AND S_IFMT = S_IFREG"
  shows "m OR 511 \<noteq> S_IFDIR OR 511"
proof
  assume "m OR 511 = S_IFDIR OR 511"
  then have "(m OR 511) AND S_IFMT = (S_IFDIR OR 511) AND S_IFMT" by (rule arg_cong)
  then have "m AND S_IFMT = S_IFDIR" by (simp add: and.commute [of _ S_IFMT] bit.conj_disj_distrib)
  with assms show False by simp
qed

lemma create_start:
  assumes fs: "fs_ok img n tree blk" and free: "first_free img 4096 m"
    and cnt: "sb_free_inodes img = Some fi" "sb_free_blocks img = Some fb"
  shows "\<exists>img0 img1. st32 img 48 (fi - 1) = Some img0 \<and> sb_free_inodes img0 = Some (fi - 1) \<and>
    sb_free_blocks img0 = Some fb \<and> sb_start_inode_map img0 = Some 1 \<and> alloc_map img0 1 = Some (int m, img1) \<and>
    changed img img1 [(48, 4), (4096, 4096)] \<and> fs_ok img1 n tree blk \<and> sb_free_inodes img1 = Some (fi - 1) \<and>
    changed img img0 [(48, 4)] \<and> marks img img1 4096 m"
proof -
  have g: "geometry img n" using fs by (simp add: fs_ok_def)
  have low: "16384 \<le> lay_inode n * 4096" by (simp add: lay_defs)
  obtain img0 where 0: "st32 img 48 (fi - 1) = Some img0" "changed img img0 [(48, 4)]" "ld32 img0 48 = Some (fi - 1)"
    using f32.field_effect [of 48 img "fi - 1"] geometry_room(1) [OF g] low by (auto simp: lay_defs)
  have fs0: "fs_ok img0 n tree blk" using fs_ok_low [OF fs 0(2)] low by simp
  then have g0: "geometry img0 n" by (simp add: fs_ok_def)
  have "first_free img0 (1 * 4096) m"
    using first_free_agrees [OF changed_agrees [OF 0(2), of 4096 4096]] geometry_maps(1) [OF g] geometry_maps(1) [OF g0] free
    by (simp add: apart_def)
  then obtain img1 where 1: "alloc_map img0 1 = Some (int m, img1)" "changed img0 img1 [(4096, 4096)]"
    "marks img0 img1 4096 m"
    using alloc_map_ok [OF geometry_maps(1,3) [OF g0]] by auto
  have "bm_bit img0 4096 j = bm_bit img 4096 j" if "j < 32768" for j
    using bm_bit_agrees [OF changed_agrees [OF 0(2)] _ _ that] geometry_maps(1) [OF g] geometry_maps(1) [OF g0]
    by (simp add: apart_def)
  then have "marks img img1 4096 m" using 1(3) by simp
  moreover have "fs_ok img1 n tree blk" using fs_ok_low [OF fs0 1(2)] low by simp
  moreover have "sb_free_blocks img0 = Some fb" "sb_free_inodes img1 = Some (fi - 1)"
    using cnt(2) 0(3) agrees_ld32 [OF changed_agrees [OF 0(2), of 44 4]] agrees_ld32 [OF changed_agrees [OF 1(2), of 48 4]]
    by (simp_all add: sb_access apart_def)
  moreover have "sb_start_inode_map img0 = Some 1" using g0 by (simp add: geometry_def)
  ultimately show ?thesis
    using 0 1 changed_trans [OF 0(2) 1(2)] by (auto simp: sb_access)
qed

lemma create_finish:
  assumes fs: "fs_ok img n tree blk" and p: "tree p = Some es" "length es < 16"
    and m: "int m < int n" "int m \<notin> dom tree" and name: "length name < 252" "0 \<notin> set name"
    and reg: "md AND S_IFMT = S_IFREG"
    and l: "i_links img (ino_at n p) = Some l"
  shows "\<exists>i2 i3 i4 i5. st32 img (ino_at n p + 4) (l + 1) = Some i2 \<and> i_size i2 (ino_at n p) = Some (256 * of_nat (length es)) \<and>
    st64 i2 (ino_at n p + 8) (256 * of_nat (length es) + 256) = Some i3 \<and> new_inode i3 (int m) md 1 0 0 = Some i4 \<and>
    append_ptr i4 (blk p) 1 (256 * int (length es)) = Some (dat_at n (blk p) + 256 * int (length es)) \<and>
    put_entry i4 (dat_at n (blk p) + 256 * int (length es)) (int m) name = Some i5 \<and>
    changed img i5 [(ino_at n p + 4, 12), (ino_at n (int m), 64), (dat_at n (blk p) + 256 * int (length es), 256)] \<and>
    fs_ok i5 n (tree(p \<mapsto> es @ [(int m, name)])) blk \<and>
    i_mode i5 (ino_at n (int m)) = Some md \<and> i_links i5 (ino_at n (int m)) = Some 1 \<and>
    i_size i5 (ino_at n (int m)) = Some 0 \<and> i_number i5 (ino_at n (int m)) = Some (int m) \<and>
    i_extents i5 (ino_at n (int m)) = Some 0 \<and> i_links i5 (ino_at n p) = Some (l + 1)"
proof -
  let ?rp = "ino_at n p" and ?rm = "ino_at n (int m)" and ?e = "dat_at n (blk p) + 256 * int (length es)"
  have g: "geometry img n" using fs by (simp add: fs_ok_def)
  have ok: "0 \<le> p" "p < int n" "dat_ok img n (blk p)" using fs_okD [OF fs p(1)] by (simp_all add: dir_ok_def)
  have pm: "p \<noteq> int m" using p(1) m(2) by auto
  have low: "16384 \<le> lay_inode n * 4096" "lay_inode n * 4096 \<le> ?rp" "?rp + 64 \<le> lay_data n * 4096"
    "lay_inode n * 4096 \<le> ?rm" "?rm + 64 \<le> lay_data n * 4096" "lay_data n * 4096 \<le> dat_at n (blk p)"
    "?e + 256 \<le> int (img_size img)"
    using region_order(1,2) [OF ok(1,2)] region_order(1,2) [of "int m" n] region_order(3) [of "blk p" n] m(1) ok(3) p(2)
    by (simp_all add: dat_ok_def lay_inode_def map_blocks_def)
  have low': "?rp + 64 \<le> lay_extent n * 4096" "?rm + 64 \<le> lay_extent n * 4096"
    using region_order(1) [OF ok(1,2)] region_order(1) [of "int m" n] m(1) by simp_all
  note far = region_apart(1) [OF pm, of n]
  obtain i2 i3 where 3: "st32 img (?rp + 4) (l + 1) = Some i2" "i_size i2 ?rp = Some (256 * of_nat (length es))"
    "st64 i2 (?rp + 8) (256 * of_nat (length es) + 256) = Some i3" "i_size i3 ?rp = Some (256 * of_nat (length es) + 256)"
    "changed img i3 [(?rp + 4, 12)]" "i_links i3 ?rp = Some (l + 1)"
    using bump_parent(1) [OF _ _ l parent_end_ok(3) [OF fs p]] low geometry_room(1) [OF g] by auto
  have g3: "geometry i3 n"
    using geometry_agrees [OF g changed_agrees [OF 3(5)] changed_size [OF 3(5)]] low by (simp add: apart_def)
  have mi: "sint (word_of_int (int m) :: u32) = int m"
    using sint_word_of_int [of "int m"] fits_bounds(2) [of img n] g m(1) by (simp add: geometry_def)
  obtain i4 where 4: "new_inode i3 (int m) md 1 0 0 = Some i4" "changed i3 i4 [(?rm, 64)]"
    "i_mode i4 ?rm = Some md" "i_links i4 ?rm = Some 1" "i_size i4 ?rm = Some 0" "i_number i4 ?rm = Some (int m)"
    "i_extents i4 ?rm = Some 0"
    using new_inode_ok [OF geometry_at(1) [OF g3], of "int m" md 1 0 0] m(1) low changed_size [OF 3(5)]
      geometry_room(1) [OF g] mi by auto
  note c4 = changed_trans [OF 3(5) 4(2)]
  have g4: "geometry i4 n"
    using geometry_agrees [OF g changed_agrees [OF c4] changed_size [OF c4]] low by (simp add: apart_def)
  have ap: "append_ptr i4 (blk p) 1 (256 * int (length es)) = Some ?e"
    using parent_end_ok(2) [OF fs p] append_ptr_agrees [OF changed_agrees [OF c4]] low by (simp add: apart_def)
  obtain i5 where 5: "put_entry i4 ?e (int m) name = Some i5" "changed i4 i5 [(?e, 256)]"
    "ldi i5 ?e = Some (int m)" "cstr i5 (?e + 4) A1FS_NAME_MAX = Some name"
    using put_entry_ok [OF _ _ name, of ?e i4 "int m"] low changed_size [OF c4] mi by auto
  note c5 = changed_trans [OF c4 5(2), simplified]
  have k5: "agrees i4 i5 ?rm 64" "agrees i4 i5 ?rp 64" using changed_agrees [OF 5(2)] low by (simp_all add: apart_def)
  have fields: "i_mode i5 ?rm = Some md" "i_links i5 ?rm = Some 1" "i_size i5 ?rm = Some 0"
    "i_number i5 ?rm = Some (int m)" "i_extents i5 ?rm = Some 0"
    using 4(3-7) agrees_ld32 [OF k5(1)] agrees_ld64 [OF k5(1)] by (simp_all add: inode_access ldi_def)
  have "i_size i5 ?rp = Some (256 * of_nat (length es) + 256)"
    using 3(4) agrees_ld64 [OF k5(2)] agrees_ld64 [OF changed_agrees [OF 4(2), of ?rp 64]] far
    by (auto simp add: inode_access apart_def)
  moreover have plink: "i_links i5 ?rp = Some (l + 1)"
    using 3(6) agrees_ld32 [OF k5(2)] agrees_ld32 [OF changed_agrees [OF 4(2), of ?rp 64]] far
    by (auto simp add: inode_access apart_def)
  ultimately have psize: "i_size i5 ?rp = Some (256 * of_nat (Suc (length es)))" by (simp add: algebra_simps)
  have "fs_ok i5 n (tree(p \<mapsto> es @ [(int m, name)])) blk"
  proof (rule fs_ok_extend [OF fs p _ m, where ?name = name and ?tree' = "tree(p \<mapsto> es @ [(int m, name)])"])
    show "geometry i5 n"
      using geometry_agrees [OF g changed_agrees [OF c5] changed_size [OF c5]] low by (simp add: apart_def)
    show "agrees img i5 (ino_at n i) 4" if "0 \<le> i" "i < int n" "i \<noteq> int m" for i
      using region_order(1) [OF that(1,2)] region_order(2) [OF that(1,2)] region_apart(1) [OF that(3), of n]
        region_apart(1) [of i p n] low
      by (intro changed_agrees [OF c5]) (cases "i = p"; auto simp: apart_def)
    show "is_dir i5 ?rm = Some (int m \<in> dom (tree(p \<mapsto> es @ [(int m, name)])))"
      using fields(1) regular_not_dir [OF reg] m(2) pm by (simp add: is_dir_def)
    show "entry_at i5 (dat_at n (blk p)) (length es) = Some (int m, name)"
      using 5(3,4) by (simp add: entry_at_def)
    show "agrees img i5 (dat_at n (blk d)) (256 * length ed)" if "tree d = Some ed" for d ed
      using dir_data_apart [OF fs that p(1)] dir_regions(7) [OF fs that] low p(2)
      by (intro changed_agrees [OF c5]) (auto simp: apart_def)
    show "agrees img i5 (ino_at n d) 64" if "d \<in> dom tree" "d \<noteq> p" for d
    proof -
      obtain ed where "tree d = Some ed" using \<open>d \<in> dom tree\<close> by blast
      from dir_regions [OF fs this] region_apart(1) [OF that(2), of n] region_apart(1) [of d "int m" n] that(1) m(2) low
      show ?thesis by (intro changed_agrees [OF c5]) (auto simp: apart_def)
    qed
    show "agrees img i5 (ext_at n d) 8" if "d \<in> dom tree" for d
    proof -
      obtain ed where "tree d = Some ed" using \<open>d \<in> dom tree\<close> by blast
      from dir_regions [OF fs this] low low' show ?thesis by (intro changed_agrees [OF c5]) (auto simp: apart_def)
    qed
    show "inj_on blk (dom (tree(p \<mapsto> es @ [(int m, name)])))"
      using fs p(1) by (simp add: fs_ok_def insert_absorb domI)
    show "agrees img i5 (?rp + 32) 8"
      using far low by (intro changed_agrees [OF c5]) (auto simp: apart_def)
  qed (use psize changed_size [OF c5] p m pm fs in \<open>auto simp: fs_ok_def\<close>)
  then show ?thesis using 3 4 5 ap c5 fields plink by auto
qed

text \<open>What a new entry \<open>m\<close> of the directory \<open>p\<close> leaves as it was.\<close>

abbreviation other_inodes :: "image \<Rightarrow> image \<Rightarrow> nat \<Rightarrow> int \<Rightarrow> int \<Rightarrow> bool" where
  "other_inodes img img' n p m \<equiv> \<forall>i. 0 \<le> i \<and> i < int n \<and> i \<noteq> p \<and> i \<noteq> m \<longrightarrow> agrees img img' (ino_at n i) 64"

text \<open>The effect of \<open>a1fs_create\<close>.\<close>

text \<open>What \<open>a1fs_create\<close> writes: the count, the bitmap, the links and the size of the parent, the inode
  and the entry.\<close>

abbreviation create_ranges :: "nat \<Rightarrow> int \<Rightarrow> int \<Rightarrow> int \<Rightarrow> int \<Rightarrow> (int \<times> nat) list" where
  "create_ranges n p m s len \<equiv>
     [(48, 4), (4096, 4096), (ino_at n p + 4, 12), (ino_at n m, 64), (dat_at n s + 256 * len, 256)]"

lemma create_effect:
  assumes fs: "fs_ok img n tree blk" and new: "new_path junk path pp name"
    and parent: "resolve tree 0 (components pp) = p" "tree p = Some es" "length es < 16" "last_match name es = - ENOENT"
    and free: "first_free img 4096 m" "m < n" "int m \<notin> dom tree"
    and cnt: "sb_free_inodes img = Some fi" "sb_free_blocks img = Some fb" and reg: "md AND S_IFMT = S_IFREG"
  shows "if fi = 1 \<or> fb = 0
    then \<exists>img'. a1fs_create img junk path md = Some (- ENOMEM, img') \<and> sb_free_inodes img' = Some (fi - 1) \<and>
      fs_ok img' n tree blk \<and> changed img img' [(48, 4)]
    else \<exists>img'. a1fs_create img junk path md = Some (0, img') \<and>
      fs_ok img' n (tree(p \<mapsto> es @ [(int m, name)])) blk \<and> path_inode img' path = Some (int m) \<and>
      a1fs_getattr img' path st = Some (0, \<lparr>st_ino = int m, st_mode = md, st_nlink = 1, st_size = 0, st_blocks = 0,
        st_mtim = (0, 0)\<rparr>) \<and> sb_free_inodes img' = Some (fi - 1) \<and> sb_free_blocks img' = Some fb \<and>
      i_links img' (ino_at n p) = map_option (\<lambda>l. l + 1) (i_links img (ino_at n p)) \<and>
      i_mode img' (ino_at n p) = i_mode img (ino_at n p) \<and> other_inodes img img' n p (int m) \<and>
      i_mode img' (ino_at n (int m)) = Some md \<and> i_links img' (ino_at n (int m)) = Some 1 \<and>
      i_size img' (ino_at n (int m)) = Some 0 \<and> i_extents img' (ino_at n (int m)) = Some 0 \<and>
      marks img img' 4096 m \<and> changed img img' (create_ranges n p (int m) (blk p) (int (length es))) \<and>
      agrees img img' 0 44"
proof -
  obtain img0 img1 where 1: "st32 img 48 (fi - 1) = Some img0" "sb_free_inodes img0 = Some (fi - 1)"
    "sb_free_blocks img0 = Some fb" "sb_start_inode_map img0 = Some 1" "alloc_map img0 1 = Some (int m, img1)"
    "fs_ok img1 n tree blk" "sb_free_inodes img1 = Some (fi - 1)" "changed img img0 [(48, 4)]"
    "changed img img1 [(48, 4), (4096, 4096)]"
    "marks img img1 4096 m"
    using create_start [OF fs free(1) cnt] by blast
  have fs0: "fs_ok img0 n tree blk"
    using fs_ok_low [OF fs f32.st_changed [OF 1(1)]] by (simp add: lay_defs)
  note p = parent(2,3)
  have ok: "0 \<le> p" using fs_okD [OF fs p(1)] by (simp add: dir_ok_def)
  obtain l where l: "i_links img1 (ino_at n p) = Some l" using parent_end_ok(4) [OF 1(6) p] by blast
  have nm: "length name < 252" "0 \<notin> set name" "length path < 4096" "path \<noteq> []" "hd path = slash"
    using new by (auto simp: new_path_def hd_append)
  obtain i2 i3 i4 i5 where 5: "st32 img1 (ino_at n p + 4) (l + 1) = Some i2" "i_size i2 (ino_at n p) = Some (256 * of_nat (length es))"
    "st64 i2 (ino_at n p + 8) (256 * of_nat (length es) + 256) = Some i3" "new_inode i3 (int m) md 1 0 0 = Some i4"
    "append_ptr i4 (blk p) 1 (256 * int (length es)) = Some (dat_at n (blk p) + 256 * int (length es))"
    "put_entry i4 (dat_at n (blk p) + 256 * int (length es)) (int m) name = Some i5"
    "changed img1 i5 [(ino_at n p + 4, 12), (ino_at n (int m), 64), (dat_at n (blk p) + 256 * int (length es), 256)]"
    and fs5: "fs_ok i5 n (tree(p \<mapsto> es @ [(int m, name)])) blk"
    and ino: "i_mode i5 (ino_at n (int m)) = Some md" "i_links i5 (ino_at n (int m)) = Some 1"
      "i_size i5 (ino_at n (int m)) = Some 0" "i_extents i5 (ino_at n (int m)) = Some 0"
    and plink: "i_links i5 (ino_at n p) = Some (l + 1)"
    using create_finish [OF 1(6) p _ free(3) nm(1,2) reg l] free(2) by auto
  have call: "a1fs_create img junk path md = (if fi - 1 = 0 \<or> fb = 0 then Some (- ENOMEM, img0) else Some (0, i5))"
    unfolding a1fs_create_def cnt 1(1-5) Option.bind.bind_lunit
    using reg find_parent_ok [OF 1(6) new parent(1)] parent_end_ok(1) [OF 1(6) p] l 5(1-6) by simp
  have "path_inode i5 path = Some (resolve (tree(p \<mapsto> es @ [(int m, name)])) 0 (components path))"
    using path_inode_tree [OF fs_ok_tree [OF fs5], of path] fs5 nm(3-5) components_new [OF new] new
    by (auto simp: fs_ok_def new_path_def)
  also have "\<dots> = Some (int m)"
    unfolding components_new [OF new] using resolve_new [OF p(1) parent(4) ok _ _ _ parent(1)] by simp
  finally have path: "path_inode i5 path = Some (int m)" .
  have g5: "geometry i5 n" using fs5 by (simp add: fs_ok_def)
  have attr: "a1fs_getattr i5 path st = Some (0, \<lparr>st_ino = int m, st_mode = md, st_nlink = 1, st_size = 0, st_blocks = 0,
      st_mtim = (0, 0)\<rparr>)"
    using nm(3) path ino geometry_at(1,2) [OF g5, of "int m"] free(2) by (simp add: a1fs_getattr_def cint_def int_ok_def)
  note rp = dir_regions [OF fs p(1)] and rm = region_order(1) [of "int m" n] and rb = region_order(4) [of n]
  have c: "changed img i5 (create_ranges n p (int m) (blk p) (int (length es)))"
    using changed_trans [OF 1(9) 5(7)] by simp
  have inodes: "agrees img i5 (ino_at n i) 64" if "0 \<le> i" "i < int n" "i \<noteq> p" "i \<noteq> int m" for i
    using region_order(1) [OF that(1,2)] region_apart(1) [OF that(3), of n] region_apart(1) [OF that(4), of n]
      region_order(2) [OF that(1,2)] rp rb
    by (intro changed_agrees [OF c]) (auto simp: apart_def)
  have pm: "p \<noteq> int m" using p(1) free(3) by auto
  have maps: "agrees img i5 (ino_at n p) 4" "agrees img i5 44 4" "agrees img1 i5 4096 4096"
    "agrees img img1 (ino_at n p) 64" "agrees img i5 0 44"
    using rp rm rb region_order(1) [OF rp(1,2)] region_apart(1) [OF pm, of n] free(2)
    by (auto intro!: changed_agrees [OF c] changed_agrees [OF 5(7)] changed_agrees [OF 1(9)] simp: apart_def)
  have "bm_bit i5 4096 j = bm_bit img1 4096 j" if "j < 32768" for j
    using bm_bit_agrees [OF maps(3) _ _ that] geometry_maps(1) [OF g5] geometry_maps(1) [of img1 n] 1(6) by (simp add: fs_ok_def)
  then have frame: "sb_free_blocks i5 = Some fb" "other_inodes img i5 n p (int m)"
    "i_links i5 (ino_at n p) = map_option (\<lambda>l. l + 1) (i_links img (ino_at n p))"
    "i_mode i5 (ino_at n p) = i_mode img (ino_at n p)" "marks img i5 4096 m"
    using cnt(2) agrees_ld32 [OF maps(1)] agrees_ld32 [OF maps(2)] inodes plink l agrees_ld32 [OF maps(4)] 1(10)
    by (simp_all add: sb_access inode_access)
  have "apart 48 4 (ino_at n p + 4, 12)" "apart 48 4 (ino_at n (int m), 64)"
    "apart 48 4 (dat_at n (blk p) + 256 * int (length es), 256)"
    using dir_regions [OF fs p(1)] region_order(1) [of "int m" n] region_order(4) [of n] free(2) by (simp_all add: apart_def)
  then have "sb_free_inodes i5 = Some (fi - 1)"
    using 1(7) agrees_ld32 [OF changed_agrees [OF 5(7), of 48 4]] by (simp add: sb_access)
  moreover have "fi - 1 = 0 \<longleftrightarrow> fi = 1" by simp
  ultimately show ?thesis using call fs0 fs5 path attr 1(2) 1(8) ino frame c maps(5) by simp
qed

section \<open>Properties\<close>

lemma create_refused:
  assumes fs: "fs_ok img n tree blk" and cnt: "sb_free_inodes img = Some fi" "sb_free_blocks img = Some fb"
    and reg: "md AND S_IFMT = S_IFREG" and none: "fi = 1 \<or> fb = 0"
  shows "\<exists>img'. a1fs_create img junk path md = Some (- ENOMEM, img') \<and> sb_free_inodes img' = Some (fi - 1) \<and>
    fs_ok img' n tree blk \<and> changed img img' [(48, 4)]"
proof -
  have g: "geometry img n" using fs by (simp add: fs_ok_def)
  obtain img0 where 1: "st32 img 48 (fi - 1) = Some img0" "changed img img0 [(48, 4)]" "ld32 img0 48 = Some (fi - 1)"
    using f32.field_effect [of 48 img "fi - 1"] geometry_room(1) [OF g] by (auto simp: lay_defs)
  have "agrees img img0 44 4" by (rule changed_agrees [OF 1(2)]) (simp add: apart_def)
  then have "sb_free_blocks img0 = Some fb" using cnt(2) agrees_ld32 by (simp add: sb_access)
  moreover have "sb_free_inodes img0 = Some (fi - 1)" using 1(3) by (simp add: sb_access)
  moreover have "fs_ok img0 n tree blk" using fs_ok_low [OF fs 1(2)] by (simp add: lay_defs)
  ultimately show ?thesis using 1(1,2) cnt(1) reg none by (auto simp: a1fs_create_def)
qed


lemma first_free_128:
  assumes "rd img bm 4 = Some (le_bytes 4 (128 :: u32))"
  shows "first_free img bm 1"
proof -
  have "map (\<lambda>i. img_byte img (nat bm + i)) [0..<4] = le_bytes 4 (128 :: u32)"
    using assms by (simp add: rd_def split: if_splits)
  then have "hd (map (\<lambda>i. img_byte img (nat bm + i)) [0..<4]) = hd (le_bytes 4 (128 :: u32))" by (rule arg_cong)
  then have "img_byte img (nat bm) = 128"
    using le_bytes.simps(2) [of 3 "128 :: u32"] by (simp add: hd_map)
  then show ?thesis by (simp add: first_free_def bm_bit_def)
qed

lemma fresh_disk_bitmaps: "first_free fresh_disk 4096 1" "first_free fresh_disk 8192 1"
proof -
  have "rd fresh_disk 4096 4 = Some (le_bytes 4 (128 :: u32))"
    "rd fresh_disk 8192 4096 = Some (le_bytes 4 (128 :: u32) @ replicate 4092 0)"
    using fresh_disk(1) by (simp_all add: formatted_def map_blocks_def)
  moreover from this(2) have "rd fresh_disk 8192 4 = Some (le_bytes 4 (128 :: u32))"
    using rd_sub [of fresh_disk 8192 4096 _ 8192 4] by simp
  ultimately show "first_free fresh_disk 4096 1" "first_free fresh_disk 8192 1"
    by (simp_all only: first_free_128)
qed


end
