(* ===== verification/A1fs_Mkdir.thy ===== *)
theory A1fs_Mkdir
  imports A1fs_Create
begin

text \<open>
  Creating directories (\<open>a1fs.c\<close>: \<open>a1fs_mkdir\<close>).
\<close>

section \<open>Operation\<close>

text \<open>The last two updates are written \<open>sb.free_blocks_count\<close> in the code, where \<open>sb\<close> is a pointer;
  they are read as \<open>sb->free_blocks_count\<close>.\<close>

definition a1fs_mkdir :: "image \<Rightarrow> u8 list \<Rightarrow> u8 list \<Rightarrow> u32 \<Rightarrow> (int \<times> image) option" where
  "a1fs_mkdir img junk path m0 = do {
     let m = m0 OR S_IFDIR;
     fi \<leftarrow> sb_free_inodes img;
     fb \<leftarrow> sb_free_blocks img;
     if fi = 0 \<or> fb = 0 then Some (- ENOMEM, img)
     else do {
       im \<leftarrow> sb_start_inode_map img;
       (free_inode_ind, img0) \<leftarrow> alloc_map img im;
       dm \<leftarrow> sb_start_data_map img0;
       (free_data_ind, img1) \<leftarrow> alloc_map img0 dm;
       (parent_ino, new_dr) \<leftarrow> find_parent img1 junk path;
       (parent, append_ind, extent_num, byte_more) \<leftarrow> parent_end img1 parent_ino;
       sz \<leftarrow> i_size img1 parent;
       img2 \<leftarrow> st64 img1 (parent + 8) (sz + 256);
       l \<leftarrow> i_links img2 parent;
       img3 \<leftarrow> st32 img2 (parent + 4) (l + 1);
       new_extent \<leftarrow> extent_ptr img3 free_inode_ind;
       img4 \<leftarrow> st32 img3 new_extent (word_of_int free_data_ind);
       img5 \<leftarrow> st32 img4 (new_extent + 4) 1;
       img6 \<leftarrow> new_inode img5 free_inode_ind m 2 512 1;
       blk \<leftarrow> data_ptr img6 free_data_ind;
       img7 \<leftarrow> put_entry img6 blk free_inode_ind dot;
       img8 \<leftarrow> put_entry img7 (blk + 256) parent_ino dotdot;
       p \<leftarrow> append_ptr img8 append_ind extent_num byte_more;
       img9 \<leftarrow> put_entry img8 p free_inode_ind new_dr;
       extent_test \<leftarrow> extent_ptr img9 free_inode_ind;
       ld32 img9 extent_test;
       fb' \<leftarrow> sb_free_blocks img9;
       img10 \<leftarrow> st32 img9 44 (fb' - 1);
       fi' \<leftarrow> sb_free_inodes img10;
       img11 \<leftarrow> st32 img10 48 (fi' - 1);
       Some (0, img11)
     }
   }"

section \<open>Steps\<close>

lemma mkdir_alloc:
  assumes fs: "fs_ok img n tree blk" and free: "first_free img 4096 m" "first_free img ((map_blocks n + 1) * 4096) k"
  shows "\<exists>img0 img1. alloc_map img 1 = Some (int m, img0) \<and> sb_start_data_map img0 = Some (map_blocks n + 1) \<and>
    alloc_map img0 (map_blocks n + 1) = Some (int k, img1) \<and> fs_ok img1 n tree blk \<and>
    changed img img1 [(4096, 4096), ((map_blocks n + 1) * 4096, 4096)] \<and>
    marks img img1 4096 m \<and> marks img img1 ((map_blocks n + 1) * 4096) k"
proof -
  have g: "geometry img n" using fs by (simp add: fs_ok_def)
  have low: "16384 \<le> lay_inode n * 4096" "(map_blocks n + 1) * 4096 + 4096 \<le> lay_inode n * 4096" "1 \<le> map_blocks n"
    by (simp_all add: lay_defs)
  obtain img0 where 0: "alloc_map img 1 = Some (int m, img0)" "changed img img0 [(4096, 4096)]"
    "marks img img0 4096 m"
    using alloc_map_ok [OF geometry_maps(1,3) [OF g]] free(1) by auto
  have fs0: "fs_ok img0 n tree blk" using fs_ok_low [OF fs 0(2)] low by simp
  then have g0: "geometry img0 n" by (simp add: fs_ok_def)
  have "first_free img0 ((map_blocks n + 1) * 4096) k"
    using first_free_agrees [OF changed_agrees [OF 0(2), of "(map_blocks n + 1) * 4096" 4096]]
      geometry_maps(2) [OF g] geometry_maps(2) [OF g0] free(2) low(3) by (simp add: apart_def)
  then obtain img1 where 1: "alloc_map img0 (map_blocks n + 1) = Some (int k, img1)"
    "changed img0 img1 [((map_blocks n + 1) * 4096, 4096)]"
    "marks img0 img1 ((map_blocks n + 1) * 4096) k"
    using alloc_map_ok [OF geometry_maps(2,4) [OF g0]] by auto
  have fs1: "fs_ok img1 n tree blk" using fs_ok_low [OF fs0 1(2)] low by simp
  then have g1: "geometry img1 n" by (simp add: fs_ok_def)
  have a: "agrees img img0 ((map_blocks n + 1) * 4096) 4096" "agrees img0 img1 4096 4096"
    using low changed_agrees [OF 0(2)] changed_agrees [OF 1(2)] by (simp_all add: apart_def)
  have "bm_bit img0 ((map_blocks n + 1) * 4096) j = bm_bit img ((map_blocks n + 1) * 4096) j"
    "bm_bit img1 4096 j = bm_bit img0 4096 j" if "j < 32768" for j
    using bm_bit_agrees [OF a(1) geometry_maps(2) [OF g] geometry_maps(2) [OF g0] that]
      bm_bit_agrees [OF a(2) _ _ that] geometry_maps(1) [OF g0] geometry_maps(1) [OF g1] by simp_all
  then show ?thesis using 0 1 g0 fs1 changed_trans [OF 0(2) 1(2)] by (auto simp: geometry_def)
qed

lemma put_two_entries:
  assumes "0 \<le> b" "b + 512 \<le> int (img_size img)"
  shows "\<exists>i1 i2. put_entry img b i dot = Some i1 \<and> put_entry i1 (b + 256) j dotdot = Some i2 \<and> changed img i2 [(b, 512)] \<and>
    entry_at i2 b 0 = Some (sint (word_of_int i :: u32), dot) \<and> entry_at i2 b 1 = Some (sint (word_of_int j :: u32), dotdot)"
proof -
  obtain i1 where 1: "put_entry img b i dot = Some i1" "changed img i1 [(b, 256)]"
    "ldi i1 b = Some (sint (word_of_int i :: u32))" "cstr i1 (b + 4) A1FS_NAME_MAX = Some dot"
    using put_entry_ok [of b img dot i] assms by (auto simp: dot_def)
  obtain i2 where 2: "put_entry i1 (b + 256) j dotdot = Some i2" "changed i1 i2 [(b + 256, 256)]"
    "ldi i2 (b + 256) = Some (sint (word_of_int j :: u32))" "cstr i2 (b + 256 + 4) A1FS_NAME_MAX = Some dotdot"
    using put_entry_ok [of "b + 256" i1 dotdot j] assms changed_size [OF 1(2)] by (auto simp: dotdot_def)
  have "entry_at i2 b 0 = entry_at i1 b 0"
    by (rule entry_at_agrees, rule changed_agrees [OF 2(2)]) (simp add: apart_def)
  moreover have "changed img i2 [(b, 512)]" by (rule changed_merge [OF changed_trans [OF 1(2) 2(2)]]) simp
  ultimately show ?thesis using 1 2 by (simp add: entry_at_def)
qed

text \<open>The extent, the inode and the block of a new directory.\<close>

lemma new_dir_ok:
  assumes g: "geometry img n" and m: "m < n" and k: "dat_ok img n (int k)" and p: "0 \<le> p" "p < int n"
  shows "\<exists>i4 i5 i6 i7 i8. extent_ptr img (int m) = Some (ext_at n (int m)) \<and>
    st32 img (ext_at n (int m)) (word_of_int (int k)) = Some i4 \<and> st32 i4 (ext_at n (int m) + 4) 1 = Some i5 \<and>
    new_inode i5 (int m) md 2 512 1 = Some i6 \<and> data_ptr i6 (int k) = Some (dat_at n (int k)) \<and>
    put_entry i6 (dat_at n (int k)) (int m) dot = Some i7 \<and> put_entry i7 (dat_at n (int k) + 256) p dotdot = Some i8 \<and>
    changed img i8 [(ext_at n (int m), 8), (ino_at n (int m), 64), (dat_at n (int k), 512)] \<and>
    geometry i8 n \<and> dir_block i8 (int m) (int k) [(int m, dot), (p, dotdot)] \<and>
    i_mode i8 (ino_at n (int m)) = Some md \<and> i_links i8 (ino_at n (int m)) = Some 2"
proof -
  let ?em = "ext_at n (int m)" and ?rm = "ino_at n (int m)" and ?b = "dat_at n (int k)"
  have ord: "16384 \<le> ?rm" "?rm + 64 \<le> lay_extent n * 4096" "lay_extent n * 4096 \<le> ?em" "?em + 4096 \<le> lay_data n * 4096"
    "lay_data n * 4096 \<le> ?b" "?b + 4096 \<le> int (img_size img)"
    using region_order(1,2) [of "int m" n] region_order(3) [of "int k" n] region_order(4) [of n] m k by (simp_all add: dat_ok_def)
  have small: "n < 524288" using fits_bounds(2) g unfolding geometry_def by blast
  have mi: "sint (word_of_int (int m) :: u32) = int m" "sint (word_of_int p :: u32) = p"
    using sint_word_of_int [of "int m"] sint_word_of_int [of p] small m p by simp_all
  obtain i4 where 4: "st32 img ?em (word_of_int (int k)) = Some i4" "changed img i4 [(?em, 4)]"
    "ld32 i4 ?em = Some (word_of_int (int k))"
    using f32.field_effect [of ?em img "word_of_int (int k)"] ord by auto
  obtain i5 where 5: "st32 i4 (?em + 4) 1 = Some i5" "changed i4 i5 [(?em + 4, 4)]" "ld32 i5 (?em + 4) = Some 1"
    using f32.field_effect [of "?em + 4" i4 1] ord changed_size [OF 4(2)] by auto
  have c5: "changed img i5 [(?em, 8)]" by (rule changed_merge [OF changed_trans [OF 4(2) 5(2)]]) simp
  have e5: "ld32 i5 ?em = Some (word_of_int (int k))"
    using 4(3) agrees_ld32 [OF changed_agrees [OF 5(2), of ?em 4]] by (simp add: apart_def)
  have g5: "geometry i5 n" using geometry_agrees [OF g changed_agrees [OF c5] changed_size [OF c5]] ord by (simp add: apart_def)
  obtain i6 where 6: "new_inode i5 (int m) md 2 512 1 = Some i6" "changed i5 i6 [(?rm, 64)]"
    "i_mode i6 ?rm = Some md" "i_links i6 ?rm = Some 2" "i_size i6 ?rm = Some 512" "i_number i6 ?rm = Some (int m)"
    "i_extents i6 ?rm = Some 1"
    using new_inode_ok [OF geometry_at(1) [OF g5], of "int m" md 2 512 1] m ord changed_size [OF c5] mi by auto
  note c6 = changed_trans [OF c5 6(2)]
  have g6: "geometry i6 n" using geometry_agrees [OF g changed_agrees [OF c6] changed_size [OF c6]] ord by (simp add: apart_def)
  have ok6: "dat_ok i6 n (int k)" using k changed_size [OF c6] by (simp add: dat_ok_def)
  obtain i7 i8 where 8: "put_entry i6 ?b (int m) dot = Some i7" "put_entry i7 (?b + 256) p dotdot = Some i8"
    "changed i6 i8 [(?b, 512)]" "entry_at i8 ?b 0 = Some (int m, dot)" "entry_at i8 ?b 1 = Some (p, dotdot)"
    using put_two_entries [of ?b i6 "int m" p] ord changed_size [OF c6] mi by auto
  note c8 = changed_trans [OF c6 8(3), simplified]
  have g8: "geometry i8 n" using geometry_agrees [OF g changed_agrees [OF c8] changed_size [OF c8]] ord by (simp add: apart_def)
  have ok8: "dat_ok i8 n (int k)" using k changed_size [OF c8] by (simp add: dat_ok_def)
  have k8: "agrees i6 i8 ?rm 64" "agrees i6 i8 ?em 8" "agrees i5 i6 ?em 8"
    using changed_agrees [OF 8(3)] changed_agrees [OF 6(2)] ord by (simp_all add: apart_def)
  have ext: "ld32 i8 ?em = Some (word_of_int (int k))" "ld32 i8 (?em + 4) = Some 1"
    using e5 5(3) agrees_ld32 [OF k8(2)] agrees_ld32 [OF k8(3)] by simp_all
  have ino: "i_mode i8 ?rm = Some md" "i_links i8 ?rm = Some 2" "i_size i8 ?rm = Some 512" "i_number i8 ?rm = Some (int m)"
    "i_extents i8 ?rm = Some 1"
    using 6(3-7) agrees_ld32 [OF k8(1)] agrees_ld64 [OF k8(1)] by (simp_all add: inode_access ldi_def)
  have "entry_at i8 ?b x = Some ([(int m, dot), (p, dotdot)] ! x)" if "x < 2" for x
    using that 8(4,5) by (auto simp: less_2_cases_iff)
  then have "dir_block i8 (int m) (int k) [(int m, dot), (p, dotdot)]"
    using dir_block_at [OF g8 _ _ ok8, of "int m" "[(int m, dot), (p, dotdot)]"] m ino ext by simp
  then show ?thesis
    using geometry_at(2) [OF g, of "int m"] geometry_at(3) [OF g6 ok6] m 4(1) 5(1) 6(1) 8(1,2) c8 g8 ino(1,2) by auto
qed

text \<open>What the writes from the parent's update to the new entry change.\<close>

abbreviation mkdir_ranges :: "nat \<Rightarrow> int \<Rightarrow> int \<Rightarrow> int \<Rightarrow> int \<Rightarrow> int \<Rightarrow> (int \<times> nat) list" where
  "mkdir_ranges n p m k s len \<equiv> [(ino_at n p + 4, 12), (ext_at n m, 8), (ino_at n m, 64), (dat_at n k, 512), (dat_at n s + 256 * len, 256)]"

lemma mkdir_writes:
  assumes fs: "fs_ok img n tree blk" and p: "tree p = Some es" "length es < 16"
    and m: "m < n" "int m \<notin> dom tree" and k: "dat_ok img n (int k)" "int k \<notin> blk ` dom tree"
    and name: "length name < 252" "0 \<notin> set name" and l: "i_links img (ino_at n p) = Some l"
  shows "\<exists>i2 i3 i4 i5 i6 i7 i8 i9.
    st64 img (ino_at n p + 8) (256 * of_nat (length es) + 256) = Some i2 \<and> i_links i2 (ino_at n p) = Some l \<and>
    st32 i2 (ino_at n p + 4) (l + 1) = Some i3 \<and> extent_ptr i3 (int m) = Some (ext_at n (int m)) \<and>
    st32 i3 (ext_at n (int m)) (word_of_int (int k)) = Some i4 \<and> st32 i4 (ext_at n (int m) + 4) 1 = Some i5 \<and>
    new_inode i5 (int m) md 2 512 1 = Some i6 \<and> data_ptr i6 (int k) = Some (dat_at n (int k)) \<and>
    put_entry i6 (dat_at n (int k)) (int m) dot = Some i7 \<and> put_entry i7 (dat_at n (int k) + 256) p dotdot = Some i8 \<and>
    append_ptr i8 (blk p) 1 (256 * int (length es)) = Some (dat_at n (blk p) + 256 * int (length es)) \<and>
    put_entry i8 (dat_at n (blk p) + 256 * int (length es)) (int m) name = Some i9 \<and>
    changed img i9 (mkdir_ranges n p (int m) (int k) (blk p) (int (length es))) \<and> geometry i9 n \<and>
    dir_block i9 (int m) (int k) [(int m, dot), (p, dotdot)] \<and>
    i_mode i9 (ino_at n (int m)) = Some md \<and> i_links i9 (ino_at n (int m)) = Some 2 \<and>
    i_size i9 (ino_at n p) = Some (256 * of_nat (length es) + 256) \<and>
    entry_at i9 (dat_at n (blk p)) (length es) = Some (int m, name) \<and> i_links i9 (ino_at n p) = Some (l + 1)"
proof -
  let ?rp = "ino_at n p" and ?e = "dat_at n (blk p) + 256 * int (length es)"
  let ?rm = "ino_at n (int m)" and ?em = "ext_at n (int m)" and ?b = "dat_at n (int k)"
  have g: "geometry img n" using fs by (simp add: fs_ok_def)
  note rp = dir_regions [OF fs p(1)]
  have pm: "p \<noteq> int m" using p(1) m(2) by auto
  have kp: "int k \<noteq> blk p" using k(2) p(1) by blast
  have rm: "16384 \<le> ?rm" "?rm + 64 \<le> lay_extent n * 4096" "lay_extent n * 4096 \<le> ?em" "?em + 4096 \<le> lay_data n * 4096"
    "lay_data n * 4096 \<le> ?b"
    using region_order(1,2) [of "int m" n] region_order(3) [of "int k" n] region_order(4) [of n] m(1) by simp_all
  note far = region_apart(1) [OF pm, of n] region_apart(2) [OF pm, of n] region_apart(3) [OF kp, of n]
  obtain i2 i3 where 3: "st64 img (?rp + 8) (256 * of_nat (length es) + 256) = Some i2" "i_links i2 ?rp = Some l"
    "st32 i2 (?rp + 4) (l + 1) = Some i3" "i_size i3 ?rp = Some (256 * of_nat (length es) + 256)" "changed img i3 [(?rp + 4, 12)]"
    "i_links i3 ?rp = Some (l + 1)"
    using bump_parent(2) [OF _ _ l parent_end_ok(3) [OF fs p]] rp by auto
  have g3: "geometry i3 n" using geometry_agrees [OF g changed_agrees [OF 3(5)] changed_size [OF 3(5)]] rp by (simp add: apart_def)
  have k3: "dat_ok i3 n (int k)" using k(1) changed_size [OF 3(5)] by (simp add: dat_ok_def)
  obtain i4 i5 i6 i7 i8 where 8: "extent_ptr i3 (int m) = Some ?em"
    "st32 i3 ?em (word_of_int (int k)) = Some i4" "st32 i4 (?em + 4) 1 = Some i5" "new_inode i5 (int m) md 2 512 1 = Some i6"
    "data_ptr i6 (int k) = Some ?b" "put_entry i6 ?b (int m) dot = Some i7" "put_entry i7 (?b + 256) p dotdot = Some i8"
    and c38: "changed i3 i8 [(?em, 8), (?rm, 64), (?b, 512)]" and g8: "geometry i8 n"
    and new: "dir_block i8 (int m) (int k) [(int m, dot), (p, dotdot)]" "i_mode i8 ?rm = Some md" "i_links i8 ?rm = Some 2"
    using new_dir_ok [OF g3 m(1) k3 rp(1,2), of md] by blast
  note c8 = changed_trans [OF 3(5) c38, simplified]
  have ap: "append_ptr i8 (blk p) 1 (256 * int (length es)) = Some ?e"
    using parent_end_ok(2) [OF fs p] append_ptr_agrees [OF changed_agrees [OF c8]] rp rm by (simp add: apart_def)
  have mi: "sint (word_of_int (int m) :: u32) = int m"
    using sint_word_of_int [of "int m"] fits_bounds(2) [of img n] g m(1) by (simp add: geometry_def)
  obtain i9 where 9: "put_entry i8 ?e (int m) name = Some i9" "changed i8 i9 [(?e, 256)]" "ldi i9 ?e = Some (int m)"
    "cstr i9 (?e + 4) A1FS_NAME_MAX = Some name"
    using put_entry_ok [OF _ _ name, of ?e i8 "int m"] rp p(2) changed_size [OF c8] mi by auto
  note c9 = changed_trans [OF c8 9(2), simplified]
  have g9: "geometry i9 n" using geometry_agrees [OF g changed_agrees [OF c9] changed_size [OF c9]] rp rm by (simp add: apart_def)
  have k9: "agrees i8 i9 ?rm 64" "agrees i8 i9 ?em 8" "agrees i8 i9 ?b 512" "agrees i8 i9 ?rp 64"
    using changed_agrees [OF 9(2)] rp rm far(3) p(2) by (auto simp: apart_def)
  have k9': "agrees i8 i9 ?b (256 * length [(int m, dot), (p, dotdot)])" using k9(3) by simp
  have "dir_block i9 (int m) (int k) [(int m, dot), (p, dotdot)]"
    using dir_block_agrees [OF g8 g9 _ _ _ changed_size [OF 9(2)] k9(1,2) k9' new(1)] m(1) k(1) changed_size [OF c8]
    by (simp add: dat_ok_def)
  moreover have "i_mode i9 ?rm = Some md" "i_links i9 ?rm = Some 2"
    using new(2,3) agrees_ld32 [OF k9(1)] by (simp_all add: inode_access)
  moreover have "i_size i9 ?rp = Some (256 * of_nat (length es) + 256)"
    using 3(4) agrees_ld64 [OF k9(4)] agrees_ld64 [OF changed_agrees [OF c38, of ?rp 64]] far(1) rp rm
    by (auto simp: inode_access apart_def)
  moreover have "i_links i9 ?rp = Some (l + 1)"
    using 3(6) agrees_ld32 [OF k9(4)] agrees_ld32 [OF changed_agrees [OF c38, of ?rp 64]] far(1) rp rm
    by (auto simp: inode_access apart_def)
  moreover have "entry_at i9 (dat_at n (blk p)) (length es) = Some (int m, name)" using 9(3,4) by (simp add: entry_at_def)
  ultimately show ?thesis using 3(1-3) 8 ap 9(1) c9 g9 by blast
qed

text \<open>The result is well-formed, with the new directory.\<close>

lemma mkdir_fs_ok:
  assumes fs: "fs_ok img n tree blk" and p: "tree p = Some es" "length es < 16"
    and m: "m < n" "int m \<notin> dom tree" and k: "dat_ok img n (int k)" "int k \<notin> blk ` dom tree"
    and c: "changed img img' (mkdir_ranges n p (int m) (int k) (blk p) (int (length es)))" and g': "geometry img' n"
    and new: "dir_block img' (int m) (int k) [(int m, dot), (p, dotdot)]" "i_mode img' (ino_at n (int m)) = Some md"
      "i_size img' (ino_at n p) = Some (256 * of_nat (length es) + 256)"
      "entry_at img' (dat_at n (blk p)) (length es) = Some (int m, name)"
    and dir: "md OR 511 = S_IFDIR OR 511"
  shows "fs_ok img' n (tree(p \<mapsto> es @ [(int m, name)], int m \<mapsto> [(int m, dot), (p, dotdot)])) (blk(int m := int k))"
    (is "fs_ok img' n ?tree ?blk")
proof -
  let ?rp = "ino_at n p" and ?rm = "ino_at n (int m)" and ?em = "ext_at n (int m)" and ?b = "dat_at n (int k)"
  note rp = dir_regions [OF fs p(1)]
  have pm: "p \<noteq> int m" using p(1) m(2) by auto
  have rm: "16384 \<le> ?rm" "?rm + 64 \<le> lay_extent n * 4096" "lay_extent n * 4096 \<le> ?em" "?em + 4096 \<le> lay_data n * 4096"
    "lay_data n * 4096 \<le> ?b"
    using region_order(1,2) [of "int m" n] region_order(3) [of "int k" n] region_order(4) [of n] m(1) by simp_all
  have modes: "agrees img img' (ino_at n i) 4" if "0 \<le> i" "i < int n" "i \<noteq> int m" for i
    using region_order(1) [OF that(1,2)] region_apart(1) [OF that(3), of n] region_apart(1) [of i p n] rp rm
    by (intro changed_agrees [OF c]) (cases "i = p"; auto simp: apart_def)
  have is_m: "is_dir img' ?rm = Some True" using new(2) dir by (simp add: is_dir_def)
  have is_p: "is_dir img' ?rp = Some True"
    using fs_okD [OF fs p(1)] is_dir_agrees [OF modes [OF rp(1,2) pm]] by (simp add: dir_ok_def)
  show ?thesis
  proof (rule fs_ok_extend [OF fs p _ _ m(2), where ?name = name])
    show "is_dir img' ?rm = Some (int m \<in> dom ?tree)" using is_m by simp
    show "dir_ok img' n ?tree ?blk (int m) em" if "?tree (int m) = Some em" for em
      using that is_m is_p new(1) m(1) rp(1,2) k(1) changed_size [OF c] p(1) by (auto simp: dir_ok_def dat_ok_def)
    show "inj_on ?blk (dom ?tree)"
    proof -
      have "dom ?tree = insert (int m) (dom tree)" using p(1) by auto
      moreover have "inj_on ?blk (dom tree) \<longleftrightarrow> inj_on blk (dom tree)"
        by (rule inj_on_cong) (use m(2) in auto)
      moreover have "inj_on blk (dom tree)" using fs by (simp add: fs_ok_def)
      moreover have "?blk ` dom tree = blk ` dom tree" using m(2) by auto
      ultimately show ?thesis using k(2) m(2) by (simp add: inj_on_insert)
    qed
    show "agrees img img' (dat_at n (blk d)) (256 * length ed)" if "tree d = Some ed" for d ed
    proof -
      have "blk d \<noteq> int k" using k(2) that by (metis domI imageI)
      from region_apart(3) [OF this, of n] dir_data_apart [OF fs that p(1)] dir_regions [OF fs that] rp rm p(2)
      show ?thesis by (intro changed_agrees [OF c]) (auto simp: apart_def)
    qed
    show "agrees img img' (ino_at n d) 64" if "d \<in> dom tree" "d \<noteq> p" for d
    proof -
      obtain ed where "tree d = Some ed" using \<open>d \<in> dom tree\<close> by blast
      from dir_regions [OF fs this] region_apart(1) [OF that(2), of n] region_apart(1) [of d "int m" n] that(1) m(2) rp rm
      show ?thesis by (intro changed_agrees [OF c]) (auto simp: apart_def)
    qed
    show "agrees img img' (ext_at n d) 8" if "d \<in> dom tree" for d
    proof -
      obtain ed where "tree d = Some ed" using \<open>d \<in> dom tree\<close> by blast
      moreover have "d \<noteq> int m" using that m(2) by blast
      ultimately show ?thesis using dir_regions [OF fs, of d] region_apart(2) [of d "int m" n] rp rm
        by (intro changed_agrees [OF c]) (auto simp: apart_def)
    qed
    show "agrees img img' (?rp + 32) 8"
      using region_apart(1) [OF pm, of n] rp rm by (intro changed_agrees [OF c]) (auto simp: apart_def)
    show "i_size img' ?rp = Some (256 * of_nat (Suc (length es)))" using new(3) by (simp add: algebra_simps)
  qed (use m pm g' modes new(4) changed_size [OF c] in auto)
qed

text \<open>The two counts.\<close>

lemma mkdir_counts:
  assumes fs: "fs_ok img n tree blk" and cnt: "sb_free_inodes img = Some fi" "sb_free_blocks img = Some fb"
  shows "\<exists>i1 i2. st32 img 44 (fb - 1) = Some i1 \<and> sb_free_inodes i1 = Some fi \<and> st32 i1 48 (fi - 1) = Some i2 \<and>
    fs_ok i2 n tree blk \<and> sb_free_inodes i2 = Some (fi - 1) \<and> sb_free_blocks i2 = Some (fb - 1) \<and>
    changed img i2 [(44, 4), (48, 4)]"
proof -
  have low: "16384 \<le> lay_inode n * 4096" by (simp add: lay_defs)
  have room: "24576 \<le> img_size img" using fs fits_room [of img n] by (simp add: fs_ok_def geometry_def)
  obtain i1 where 1: "st32 img 44 (fb - 1) = Some i1" "changed img i1 [(44, 4)]" "ld32 i1 44 = Some (fb - 1)"
    using f32.field_effect [of 44 img "fb - 1"] room by auto
  obtain i2 where 2: "st32 i1 48 (fi - 1) = Some i2" "changed i1 i2 [(48, 4)]" "ld32 i2 48 = Some (fi - 1)"
    using f32.field_effect [of 48 i1 "fi - 1"] room changed_size [OF 1(2)] by auto
  have "fs_ok i2 n tree blk" using fs_ok_low [OF fs_ok_low [OF fs 1(2)] 2(2)] low by simp
  moreover have "sb_free_inodes i1 = Some fi" "sb_free_blocks i2 = Some (fb - 1)"
    using cnt(1) 1(3) agrees_ld32 [OF changed_agrees [OF 1(2), of 48 4]] agrees_ld32 [OF changed_agrees [OF 2(2), of 44 4]]
    by (simp_all add: sb_access apart_def)
  ultimately show ?thesis using 1 2 changed_trans [OF 1(2) 2(2)] by (simp add: sb_access)
qed

text \<open>What a directory of the tree shows.\<close>

lemma readdir_fs_ok:
  assumes fs: "fs_ok img n tree blk" and d: "tree d = Some ed" and path: "path_inode img path = Some d" "path \<noteq> []" "hd path = slash"
  shows "a1fs_readdir img path = Some (0, map snd ed)"
proof -
  have g: "geometry img n" using fs by (simp add: fs_ok_def)
  have ok: "0 \<le> d" "d < int n" "dat_ok img n (blk d)" "dir_block img d (blk d) ed" "is_dir img (ino_at n d) = Some True"
    using fs_okD [OF fs d] by (simp_all add: dir_ok_def)
  have ptr: "inode_ptr img d = Some (ino_at n d)" using geometry_at(1) [OF g ok(1,2)] .
  have "i_number img (ino_at n d) = Some d" using ok(4) unfolding dir_block_at [OF g ok(1-3)] by simp
  then show ?thesis by (rule readdir_dir [OF dir_block_holds [OF ok(4) ptr] path ptr _ ok(5)])
qed

text \<open>Everything that \<open>a1fs_mkdir\<close> writes: the bitmaps, the links and the size of the parent, the
  extent, inode and first two entries of the new directory, its entry, and the two counts.\<close>

abbreviation mkdir_writes_to :: "nat \<Rightarrow> int \<Rightarrow> int \<Rightarrow> int \<Rightarrow> int \<Rightarrow> int \<Rightarrow> (int \<times> nat) list" where
  "mkdir_writes_to n p m k s len \<equiv>
     [(4096, 4096), ((map_blocks n + 1) * 4096, 4096)] @ mkdir_ranges n p m k s len @ [(44, 4), (48, 4)]"

text \<open>The effect of \<open>a1fs_mkdir\<close>.\<close>

lemma mkdir_effect:
  assumes fs: "fs_ok img n tree blk" and new: "new_path junk path pp name"
    and parent: "resolve tree 0 (components pp) = p" "tree p = Some es" "length es < 16" "last_match name es = - ENOENT"
    and free: "first_free img 4096 m" "m < n" "int m \<notin> dom tree"
      "first_free img ((map_blocks n + 1) * 4096) k" "dat_ok img n (int k)" "int k \<notin> blk ` dom tree"
    and cnt: "sb_free_inodes img = Some fi" "sb_free_blocks img = Some fb"
    and dir: "(md OR S_IFDIR) OR 511 = S_IFDIR OR 511"
  shows "if fi = 0 \<or> fb = 0 then a1fs_mkdir img junk path md = Some (- ENOMEM, img)
    else \<exists>img'. a1fs_mkdir img junk path md = Some (0, img') \<and>
      fs_ok img' n (tree(p \<mapsto> es @ [(int m, name)], int m \<mapsto> [(int m, dot), (p, dotdot)])) (blk(int m := int k)) \<and>
      path_inode img' path = Some (int m) \<and> a1fs_readdir img' path = Some (0, [dot, dotdot]) \<and>
      sb_free_inodes img' = Some (fi - 1) \<and> sb_free_blocks img' = Some (fb - 1) \<and>
      i_links img' (ino_at n (int m)) = Some 2 \<and>
      i_mode img' (ino_at n (int m)) = Some (md OR S_IFDIR) \<and>
      i_links img' (ino_at n p) = map_option (\<lambda>l. l + 1) (i_links img (ino_at n p)) \<and>
      i_mode img' (ino_at n p) = i_mode img (ino_at n p) \<and> other_inodes img img' n p (int m) \<and>
      marks img img' 4096 m \<and> marks img img' ((map_blocks n + 1) * 4096) k \<and>
      changed img img' (mkdir_writes_to n p (int m) (int k) (blk p) (int (length es))) \<and> agrees img img' 0 44"
proof -
  let ?tree = "tree(p \<mapsto> es @ [(int m, name)], int m \<mapsto> [(int m, dot), (p, dotdot)])" and ?blk = "blk(int m := int k)"
  have g: "geometry img n" using fs by (simp add: fs_ok_def)
  note p = parent(2,3)
  have pm: "p \<noteq> int m" "0 \<le> p" using p(1) free(3) fs_okD [OF fs p(1)] by (auto simp: dir_ok_def)
  obtain img0 img1 where 1: "alloc_map img 1 = Some (int m, img0)" "sb_start_data_map img0 = Some (map_blocks n + 1)"
    "alloc_map img0 (map_blocks n + 1) = Some (int k, img1)" "fs_ok img1 n tree blk"
    "changed img img1 [(4096, 4096), ((map_blocks n + 1) * 4096, 4096)]"
    "marks img img1 4096 m" "marks img img1 ((map_blocks n + 1) * 4096) k"
    using mkdir_alloc [OF fs free(1,4)] by blast
  have im: "sb_start_inode_map img = Some 1" using g by (simp add: geometry_def)
  obtain l where l: "i_links img1 (ino_at n p) = Some l" using parent_end_ok(4) [OF 1(4) p] by blast
  have nm: "length name < 252" "0 \<notin> set name" "length path < 4096" "path \<noteq> []" "hd path = slash"
    using new by (auto simp: new_path_def hd_append)
  have k1: "dat_ok img1 n (int k)" using free(5) changed_size [OF 1(5)] by (simp add: dat_ok_def)
  obtain i2 i3 i4 i5 i6 i7 i8 i9 where w:
    "st64 img1 (ino_at n p + 8) (256 * of_nat (length es) + 256) = Some i2" "i_links i2 (ino_at n p) = Some l"
    "st32 i2 (ino_at n p + 4) (l + 1) = Some i3" "extent_ptr i3 (int m) = Some (ext_at n (int m))"
    "st32 i3 (ext_at n (int m)) (word_of_int (int k)) = Some i4" "st32 i4 (ext_at n (int m) + 4) 1 = Some i5"
    "new_inode i5 (int m) (md OR S_IFDIR) 2 512 1 = Some i6" "data_ptr i6 (int k) = Some (dat_at n (int k))"
    "put_entry i6 (dat_at n (int k)) (int m) dot = Some i7" "put_entry i7 (dat_at n (int k) + 256) p dotdot = Some i8"
    "append_ptr i8 (blk p) 1 (256 * int (length es)) = Some (dat_at n (blk p) + 256 * int (length es))"
    "put_entry i8 (dat_at n (blk p) + 256 * int (length es)) (int m) name = Some i9"
    and c: "changed img1 i9 (mkdir_ranges n p (int m) (int k) (blk p) (int (length es)))" and g9: "geometry i9 n"
    and d: "dir_block i9 (int m) (int k) [(int m, dot), (p, dotdot)]" "i_mode i9 (ino_at n (int m)) = Some (md OR S_IFDIR)"
      "i_links i9 (ino_at n (int m)) = Some 2"
      "i_size i9 (ino_at n p) = Some (256 * of_nat (length es) + 256)"
      "entry_at i9 (dat_at n (blk p)) (length es) = Some (int m, name)" "i_links i9 (ino_at n p) = Some (l + 1)"
    using mkdir_writes [OF 1(4) p free(2,3) k1 free(6) nm(1,2) l, of "md OR S_IFDIR"] by blast
  have fs9: "fs_ok i9 n ?tree ?blk" using mkdir_fs_ok [OF 1(4) p free(2,3) k1 free(6) c g9 d(1,2,4,5) dir] .
  have far: "16384 \<le> ino_at n p" "16384 \<le> ino_at n (int m)" "16384 \<le> ext_at n (int m)" "16384 \<le> dat_at n (int k)"
    "16384 \<le> dat_at n (blk p)" "1 \<le> map_blocks n"
    using dir_regions [OF fs p(1)] region_order(1,2) [of "int m" n] region_order(3) [of "int k" n] region_order(4) [of n] free(2)
    by simp_all
  then have "agrees img img1 44 8" "agrees img1 i9 44 8"
    by (auto intro!: changed_agrees [OF 1(5)] changed_agrees [OF c] simp: apart_def)
  then have cnt9: "sb_free_inodes i9 = Some fi" "sb_free_blocks i9 = Some fb"
    using cnt by (simp_all add: sb_access agrees_ld32 [of img img1 44 8] agrees_ld32 [of img1 i9 44 8])
  obtain i10 i11 where e: "st32 i9 44 (fb - 1) = Some i10" "sb_free_inodes i10 = Some fi" "st32 i10 48 (fi - 1) = Some i11"
    "fs_ok i11 n ?tree ?blk" "sb_free_inodes i11 = Some (fi - 1)" "sb_free_blocks i11 = Some (fb - 1)"
    "changed i9 i11 [(44, 4), (48, 4)]"
    using mkdir_counts [OF fs9 cnt9] by blast
  obtain t where t: "extent_ptr i9 (int m) = Some (ext_at n (int m))" "ld32 i9 (ext_at n (int m)) = Some t"
    using d(1) geometry_at(2) [OF g9, of "int m"] free(2) unfolding dir_block_def by auto
  have call: "a1fs_mkdir img junk path md = (if fi = 0 \<or> fb = 0 then Some (- ENOMEM, img) else Some (0, i11))"
    unfolding a1fs_mkdir_def Let_def cnt im Option.bind.bind_lunit
    using find_parent_ok [OF 1(4) new parent(1)] parent_end_ok(1,3) [OF 1(4) p] l 1(1-3) w cnt9 e(1-3) t
    by simp
  have "path_inode i11 path = Some (resolve ?tree 0 (components path))"
    using path_inode_tree [OF fs_ok_tree [OF e(4)], of path] e(4) nm(3-5) components_new [OF new] new
    by (auto simp: fs_ok_def new_path_def)
  also have "\<dots> = Some (int m)"
  proof -
    have "?tree d = tree d" if "d \<noteq> p" "d \<in> dom tree" for d
    proof -
      have "d \<noteq> int m" using that(2) free(3) by blast
      with that(1) show ?thesis by simp
    qed
    then show ?thesis
      unfolding components_new [OF new]
      using resolve_new [OF p(1) parent(4) pm(2) _ _ _ parent(1), of "int m" ?tree] pm(1) by simp
  qed
  finally have path: "path_inode i11 path = Some (int m)" .
  note rp = dir_regions [OF fs p(1)] and rm = region_order(1,2) [of "int m" n] and rk = region_order(3) [of "int k" n]
  have c11: "changed img i11 (mkdir_writes_to n p (int m) (int k) (blk p) (int (length es)))"
    using changed_trans [OF changed_trans [OF 1(5) c] e(7)] by simp
  have inodes: "agrees img i11 (ino_at n i) 64" if "0 \<le> i" "i < int n" "i \<noteq> p" "i \<noteq> int m" for i
    using region_order(1) [OF that(1,2)] region_apart(1) [OF that(3), of n] region_apart(1) [OF that(4), of n]
      region_order(2) [OF that(1,2)] rp rm rk far free(2)
    by (intro changed_agrees [OF c11]) (auto simp: apart_def)
  have "(map_blocks n + 1) * 4096 + 4096 \<le> ino_at n p" "(map_blocks n + 1) * 4096 + 4096 \<le> ino_at n (int m)"
    using region_order(1) [OF rp(1,2)] rm(1) free(2) by simp_all
  then have maps: "agrees img1 i11 4096 4096" "agrees img1 i11 ((map_blocks n + 1) * 4096) 4096" "agrees img img1 (ino_at n p) 64"
    "agrees i9 i11 (ino_at n p) 64" "agrees img i11 (ino_at n p) 4" "agrees i9 i11 (ino_at n (int m)) 64" "agrees img i11 0 44"
    using rp rm rk far free(2) region_apart(1) [OF pm(1), of n]
    by (auto intro!: changed_agrees [OF c11]  changed_agrees [OF changed_trans [OF c e(7)]] changed_agrees [OF 1(5)] changed_agrees [OF e(7)] simp: apart_def)
  have "bm_bit i11 4096 j = bm_bit img1 4096 j"
    "bm_bit i11 ((map_blocks n + 1) * 4096) j = bm_bit img1 ((map_blocks n + 1) * 4096) j" if "j < 32768" for j
    using bm_bit_agrees [OF maps(1) _ _ that] bm_bit_agrees [OF maps(2) _ _ that]
      geometry_maps [of img1 n] geometry_maps [of i11 n] 1(4) e(4) by (simp_all add: fs_ok_def)
  then have frame: "other_inodes img i11 n p (int m)" "marks img i11 4096 m" "marks img i11 ((map_blocks n + 1) * 4096) k"
    "i_links i11 (ino_at n p) = map_option (\<lambda>l. l + 1) (i_links img (ino_at n p))"
    "i_mode i11 (ino_at n p) = i_mode img (ino_at n p)" "i_mode i11 (ino_at n (int m)) = Some (md OR S_IFDIR)"
    using inodes 1(6,7) d(2,6) l agrees_ld32 [OF maps(3)] agrees_ld32 [OF maps(4)] agrees_ld32 [OF maps(5)] agrees_ld32 [OF maps(6)]
    by (simp_all add: inode_access)
  have "a1fs_readdir i11 path = Some (0, [dot, dotdot])"
    using readdir_fs_ok [OF e(4) _ path nm(4,5)] by simp
  moreover have "i_links i11 (ino_at n (int m)) = Some 2"
    using d(3) agrees_ld32 [OF changed_agrees [OF e(7), of "ino_at n (int m) + 4" 4]] far by (simp add: inode_access apart_def)
  ultimately show ?thesis using call e path frame c11 maps(7) by simp
qed

section \<open>Properties\<close>



end
