(* ===== verification/A1fs_Data.thy ===== *)
theory A1fs_Data
  imports A1fs_Create
begin

text \<open>
  Operations on the data of files (\<open>a1fs.c\<close>: \<open>update_extent\<close>, \<open>a1fs_write\<close>, \<open>a1fs_read\<close>,
  \<open>a1fs_truncate\<close>, \<open>a1fs_utimens\<close>).  Sizes of type \<open>size_t\<close> are 64-bit words, offsets of type
  \<open>off_t\<close> are integers; conversions between them and \<open>int\<close> are written out.
\<close>

section \<open>Operations\<close>

text \<open>The low 32 bits of an integer, as an \<open>int\<close>.\<close>

definition trunc_int :: "int \<Rightarrow> int" where
  "trunc_int x = sint (word_of_int x :: u32)"

text \<open>Arithmetic of type \<open>off_t\<close>: a result outside its range is undefined.\<close>

definition clong :: "int \<Rightarrow> int option" where
  "clong x = (if - (2 ^ 63) \<le> x \<and> x < 2 ^ 63 then Some x else None)"

text \<open>The loop of \<open>update_extent\<close>, from \<open>i\<close> on with \<open>n\<close> iterations left: whether an extent was
  extended.\<close>

fun extend_extent :: "image \<Rightarrow> int \<Rightarrow> int \<Rightarrow> int \<Rightarrow> nat \<Rightarrow> (bool \<times> image) option" where
  "extend_extent img e_block index i 0 = Some (False, img)"
| "extend_extent img e_block index i (Suc n) = do {
     (s, c) \<leftarrow> extent_at img e_block i;
     e \<leftarrow> cint (sint s + sint c);
     if e = index then do {
       img1 \<leftarrow> st32 img (e_block + 8 * i + 4) (c + 1);
       Some (True, img1)
     } else extend_extent img e_block index (i + 1) n
   }"

definition update_extent :: "image \<Rightarrow> int \<Rightarrow> int \<Rightarrow> image option" where
  "update_extent img ino index = do {
     root \<leftarrow> inode_ptr img ino;
     num \<leftarrow> i_number img root;
     e_block \<leftarrow> extent_ptr img num;
     extents \<leftarrow> i_extents img root;
     (flag, img1) \<leftarrow> extend_extent img e_block index 0 (nat extents);
     if flag then Some img1
     else do {
       i \<leftarrow> i_extents img1 root;
       extent_at img1 e_block i;
       img2 \<leftarrow> st32 img1 (e_block + 8 * i) (word_of_int index);
       i' \<leftarrow> i_extents img2 root;
       extent_at img2 e_block i';
       img3 \<leftarrow> st32 img2 (e_block + 8 * i' + 4) 1;
       st32 img3 (root + 36) 1
     }
   }"

text \<open>The block that \<open>a1fs_write\<close> writes to: a new one for a file without extents, otherwise the
  block after the last extent (the sum is unsigned).  \<open>Inl\<close> is an early return.\<close>

definition write_block :: "image \<Rightarrow> int \<Rightarrow> int \<Rightarrow> (int + int \<times> image) option" where
  "write_block img inode_num inode = do {
     dm \<leftarrow> sb_start_data_map img;
     data_bm \<leftarrow> cint (dm * A1FS_BLOCK_SIZE);
     e_block \<leftarrow> extent_ptr img inode_num;
     extents \<leftarrow> i_extents img inode;
     if extents = 0 then do {
       write_to \<leftarrow> find_next_bit img data_bm;
       if write_to = -1 then Some (Inl (- ENOSPC))
       else do {
         img1 \<leftarrow> modify img data_bm write_to 1;
         img2 \<leftarrow> st32 img1 e_block (word_of_int write_to);
         img3 \<leftarrow> st32 img2 (e_block + 4) 1;
         img4 \<leftarrow> st32 img3 (inode + 36) 1;
         fb \<leftarrow> sb_free_blocks img4;
         img5 \<leftarrow> st32 img4 44 (fb - 1);
         Some (Inr (write_to, img5))
       }
     } else do {
       l \<leftarrow> cint (extents - 1);
       (s, c) \<leftarrow> extent_at img e_block l;
       Some (Inr (sint (s + c), img))
     }
   }"

text \<open>The part of \<open>a1fs_write\<close> after the choice of the block.\<close>

definition write_data :: "image \<Rightarrow> int \<Rightarrow> int \<Rightarrow> u8 list \<Rightarrow> u64 \<Rightarrow> int \<Rightarrow> (int \<times> image) option" where
  "write_data img1 inode write_to buf sz offset = do {
     isz \<leftarrow> i_size img1 inode;
     let ori_size = to_int isz;
     (if unat sz \<le> length buf then Some () else None);
     if offset > ori_size then do {
       d \<leftarrow> clong (offset - ori_size);
       let byte_more = trunc_int d;
       start \<leftarrow> data_ptr img1 write_to;
       (if 0 \<le> byte_more then Some () else None);
       img2 \<leftarrow> wr img1 (start + ori_size) (replicate (nat byte_more) 0);
       start' \<leftarrow> data_ptr img2 write_to;
       img3 \<leftarrow> wr img2 (start' + offset) (take (unat sz) buf);
       img4 \<leftarrow> st64 img3 (inode + 8) (word_of_int ori_size + sz + word_of_int offset);
       Some (to_int sz, img4)
     } else do {
       start \<leftarrow> data_ptr img1 write_to;
       img2 \<leftarrow> wr img1 (start + offset) (take (unat sz) buf);
       let modify_size = to_int (word_of_int offset + sz);
       img3 \<leftarrow> (if modify_size > ori_size then st64 img2 (inode + 8) (word_of_int offset + sz) else Some img2);
       Some (to_int sz, img3)
     }
   }"

definition a1fs_write :: "image \<Rightarrow> u8 list \<Rightarrow> u8 list \<Rightarrow> u64 \<Rightarrow> int \<Rightarrow> (int \<times> image) option" where
  "a1fs_write img path buf sz offset = do {
     inode_num \<leftarrow> path_inode img path;
     inode \<leftarrow> inode_ptr img inode_num;
     r \<leftarrow> write_block img inode_num inode;
     case r of
       Inl e \<Rightarrow> Some (e, img)
     | Inr (write_to, img1) \<Rightarrow> write_data img1 inode write_to buf sz offset
   }"

text \<open>The loop of \<open>a1fs_read\<close>: \<open>start\<close> has no value before the first iteration.\<close>

fun find_block :: "image \<Rightarrow> int \<Rightarrow> int \<Rightarrow> int \<Rightarrow> nat \<Rightarrow> int \<Rightarrow> int option \<Rightarrow> int option option" where
  "find_block img e_block block_front i 0 blocks start = Some start"
| "find_block img e_block block_front i (Suc n) blocks start = do {
     (s, c) \<leftarrow> extent_at img e_block i;
     b \<leftarrow> cint (blocks + sint c);
     if b > block_front then Some (Some (sint s))
     else find_block img e_block block_front (i + 1) n b (Some (sint s))
   }"

text \<open>The result and the bytes that \<open>a1fs_read\<close> puts into the buffer.\<close>

definition a1fs_read :: "image \<Rightarrow> u8 list \<Rightarrow> u64 \<Rightarrow> int \<Rightarrow> (int \<times> u8 list) option" where
  "a1fs_read img path sz offset = do {
     file_ind \<leftarrow> path_inode img path;
     file_ino \<leftarrow> inode_ptr img file_ind;
     e_block \<leftarrow> extent_ptr img file_ind;
     isz \<leftarrow> i_size img file_ino;
     if offset > to_int isz then Some (0, [])
     else do {
       let block_front = trunc_int (offset sdiv 4096);
       let begin_byte = offset smod 4096;
       extents \<leftarrow> i_extents img file_ino;
       st \<leftarrow> find_block img e_block block_front 0 (nat extents) 0 None;
       start \<leftarrow> st;
       blk \<leftarrow> data_ptr img start;
       bs \<leftarrow> rd img (blk + begin_byte) (unat sz);
       Some (to_int sz, bs)
     }
   }"

definition a1fs_utimens :: "image \<Rightarrow> u8 list \<Rightarrow> ((u64 \<times> u64) \<times> (u64 \<times> u64)) option \<Rightarrow> (int \<times> image) option" where
  "a1fs_utimens img path ts = do {
     current_ino \<leftarrow> path_inode img path;
     current \<leftarrow> inode_ptr img current_ino;
     case ts of
       None \<Rightarrow> Some (0, img)
     | Some (_, (sec, nsec)) \<Rightarrow> do {
         img1 \<leftarrow> st64 img (current + 16) sec;
         img2 \<leftarrow> st64 img1 (current + 24) nsec;
         Some (0, img2)
       }
   }"

section \<open>Truncation\<close>

text \<open>The loop that allocates and clears blocks; the bits are taken from the inode bitmap.\<close>

fun grow_blocks :: "image \<Rightarrow> int \<Rightarrow> int \<Rightarrow> nat \<Rightarrow> image option" where
  "grow_blocks img inode_bm inode_num 0 = Some img"
| "grow_blocks img inode_bm inode_num (Suc n) = do {
     index \<leftarrow> find_next_bit img inode_bm;
     img1 \<leftarrow> modify img inode_bm index 1;
     img2 \<leftarrow> update_extent img1 inode_num index;
     blk \<leftarrow> data_ptr img2 index;
     img3 \<leftarrow> wr img2 blk (replicate 4096 0);
     grow_blocks img3 inode_bm inode_num n
   }"

text \<open>The loops of the other branch: the blocks of the extent \<open>i\<close>, and the extents, whose number
  the loop itself changes.\<close>

fun cut_blocks :: "image \<Rightarrow> int \<Rightarrow> int \<Rightarrow> int \<Rightarrow> int \<Rightarrow> int \<Rightarrow> int \<Rightarrow> nat \<Rightarrow> int \<Rightarrow> int \<Rightarrow> int \<Rightarrow>
    (image \<times> int \<times> int \<times> int) option" where
  "cut_blocks img data_bm e_block i start tot j 0 w r1 r2 = Some (img, w, r1, r2)"
| "cut_blocks img data_bm e_block i start tot j (Suc n) w r1 r2 = do {
     (img1, r1', r2') \<leftarrow> (if w = tot then do {
         v \<leftarrow> cint (j - start);
         v' \<leftarrow> cint (v + 1);
         img1 \<leftarrow> st32 img (e_block + 8 * i + 4) (word_of_int v');
         Some (img1, i, v')
       } else Some (img, r1, r2));
     img2 \<leftarrow> (if w > tot then modify img1 data_bm j 0 else Some img1);
     w' \<leftarrow> cint (w + 1);
     cut_blocks img2 data_bm e_block i start tot (j + 1) n w' r1' r2'
   }"

function cut_extents :: "image \<Rightarrow> int \<Rightarrow> int \<Rightarrow> int \<Rightarrow> int \<Rightarrow> int \<Rightarrow> int \<Rightarrow> int \<Rightarrow> int \<Rightarrow> image option" where
  "cut_extents img data_bm inode e_block tot i w r1 r2 = do {
     extents \<leftarrow> i_extents img inode;
     if extents \<le> i then Some img
     else if i < 0 \<or> 512 \<le> i then None
     else do {
       (s, c) \<leftarrow> extent_at img e_block i;
       let start = sint s;
       let count = sint c;
       cint (count + start);
       (img1, w', r1', r2') \<leftarrow> cut_blocks img data_bm e_block i start tot start (nat count) w r1 r2;
       img2 \<leftarrow> st32 img1 (inode + 36) (word_of_int r1');
       img3 \<leftarrow> st32 img2 (e_block + 8 * i + 4) (word_of_int r2');
       cut_extents img3 data_bm inode e_block tot (i + 1) w' r1' r2'
     }
   }"
  by pat_completeness auto
termination
  by (relation "measure (\<lambda>(img, data_bm, inode, e_block, tot, i, w, r1, r2). nat (512 - i))") auto

declare cut_extents.simps [simp del]

text \<open>\<open>size - inode->size\<close> is unsigned, so the test of the code is whether the sizes differ.\<close>

definition a1fs_truncate :: "image \<Rightarrow> u8 list \<Rightarrow> int \<Rightarrow> (int \<times> image) option" where
  "a1fs_truncate img path sz = do {
     im \<leftarrow> sb_start_inode_map img;
     inode_bm \<leftarrow> cint (im * A1FS_BLOCK_SIZE);
     inode_num \<leftarrow> path_inode img path;
     inode \<leftarrow> inode_ptr img inode_num;
     isz \<leftarrow> i_size img inode;
     let new_size = to_int (word_of_int sz - isz mod 4096);
     fb \<leftarrow> sb_free_blocks img;
     img0 \<leftarrow> st32 img 44 (fb - word_of_int (new_size sdiv 4096 + 1));
     let block_count = new_size sdiv 4096;
     isz0 \<leftarrow> i_size img0 inode;
     let byte_more = to_int (isz0 mod 4096);
     e_block \<leftarrow> extent_ptr img0 inode_num;
     extents \<leftarrow> i_extents img0 inode;
     (last_extent, img1) \<leftarrow> (if extents = 0 then do {
         l \<leftarrow> find_next_bit img0 inode_bm;
         i1 \<leftarrow> modify img0 inode_bm l 1;
         i2 \<leftarrow> update_extent i1 inode_num l;
         Some (l, i2)
       } else do {
         k \<leftarrow> cint (extents - 1);
         (s, c) \<leftarrow> extent_at img0 e_block k;
         Some (sint (s + c), img0)
       });
     isz1 \<leftarrow> i_size img1 inode;
     img2 \<leftarrow> (if word_of_int sz - isz1 > 0 then do {
         blk \<leftarrow> data_ptr img1 last_extent;
         i1 \<leftarrow> wr img1 (blk + byte_more) (replicate (4096 - unat (isz1 mod 4096)) 0);
         grow_blocks i1 inode_bm inode_num (nat block_count)
       } else do {
         let tot = trunc_int (sz sdiv 4096);
         dm \<leftarrow> sb_start_data_map img1;
         data_bm \<leftarrow> cint (dm * A1FS_BLOCK_SIZE);
         r1 \<leftarrow> i_extents img1 inode;
         (s, c) \<leftarrow> extent_at img1 e_block 0;
         cut_extents img1 data_bm inode e_block tot 0 0 r1 (sint c)
       });
     img3 \<leftarrow> st64 img2 (inode + 8) (word_of_int sz);
     Some (0, img3)
   }"

section \<open>Files and the tree\<close>

text \<open>Writes that leave the directories alone.\<close>

lemma fs_ok_frame:
  assumes fs: "fs_ok img n tree blk" and g': "geometry img' n" and size: "img_size img' = img_size img"
    and modes: "\<And>i. 0 \<le> i \<Longrightarrow> i < int n \<Longrightarrow> agrees img img' (ino_at n i) 4"
    and dirs: "\<And>d ed. tree d = Some ed \<Longrightarrow> agrees img img' (ino_at n d) 64 \<and> agrees img img' (ext_at n d) 8 \<and>
      agrees img img' (dat_at n (blk d)) (256 * length ed)"
  shows "fs_ok img' n tree blk"
proof -
  have g: "geometry img n" using fs by (simp add: fs_ok_def)
  have "dir_ok img' n tree blk d ed" if "tree d = Some ed" for d ed
  proof -
    have ok: "dir_ok img n tree blk d ed" using fs_okD [OF fs that] .
    then have r: "0 \<le> d" "d < int n" "dat_ok img n (blk d)" "dir_block img d (blk d) ed" by (simp_all add: dir_ok_def)
    have "dir_block img' d (blk d) ed" using dir_block_agrees [OF g g' r(1-3) size _ _ _ r(4)] dirs [OF that] by blast
    then show ?thesis using ok is_dir_agrees [OF modes] size by (auto simp: dir_ok_def dat_ok_def)
  qed
  then show ?thesis using fs g' by (simp add: fs_ok_def)
qed

text \<open>The path leads to the inode \<open>f\<close>, which is not a directory.\<close>

definition file_path :: "dir_tree \<Rightarrow> nat \<Rightarrow> u8 list \<Rightarrow> int \<Rightarrow> bool" where
  "file_path tree n path f \<longleftrightarrow> path \<noteq> [] \<and> hd path = slash \<and> length path < 4096 \<and> components path \<noteq> [] \<and>
     resolve tree 0 (components path) = f \<and> 0 \<le> f \<and> f < int n \<and> f \<notin> dom tree"

lemma file_path_inode:
  assumes "fs_ok img n tree blk" "file_path tree n path f"
  shows "path_inode img path = Some f" "inode_ptr img f = Some (ino_at n f)" "extent_ptr img f = Some (ext_at n f)"
proof -
  have "path \<noteq> [slash]" using assms(2) components_slash [of "[]"] by (auto simp: file_path_def)
  then show "path_inode img path = Some f"
    using path_inode_tree [OF fs_ok_tree [OF assms(1)], of path] assms by (simp add: file_path_def fs_ok_def)
  show "inode_ptr img f = Some (ino_at n f)" "extent_ptr img f = Some (ext_at n f)"
    using geometry_at(1,2) [of img n f] assms by (simp_all add: file_path_def fs_ok_def)
qed

text \<open>The parts of an image that a write to the file \<open>f\<close> and its block \<open>k\<close> may change.\<close>

abbreviation file_ranges :: "nat \<Rightarrow> int \<Rightarrow> int \<Rightarrow> (int \<times> nat) list" where
  "file_ranges n f k \<equiv> [(44, 4), ((map_blocks n + 1) * 4096, 4096), (ino_at n f + 8, 8), (ino_at n f + 36, 4), (ext_at n f, 8), (dat_at n k, 4096)]"

lemma file_ranges_fs_ok:
  assumes fs: "fs_ok img n tree blk" and f: "0 \<le> f" "f < int n" "f \<notin> dom tree" and k: "0 \<le> k" "k \<notin> blk ` dom tree"
    and c: "changed img img' (file_ranges n f k)"
  shows "fs_ok img' n tree blk"
proof -
  have g: "geometry img n" using fs by (simp add: fs_ok_def)
  have o: "(map_blocks n + 3) * 4096 \<le> ino_at n f" "ino_at n f + 64 \<le> lay_extent n * 4096" "lay_extent n * 4096 \<le> ext_at n f"
    "ext_at n f + 4096 \<le> lay_data n * 4096" "lay_data n * 4096 \<le> dat_at n k" "1 \<le> map_blocks n"
    using region_order(1,2) [OF f(1,2)] region_order(3) [OF k(1)] region_order(4) [of n] by simp_all
  show ?thesis
  proof (rule fs_ok_frame [OF fs geometry_agrees [OF g changed_agrees [OF c] changed_size [OF c]] changed_size [OF c]])
    show "list_all (apart 0 44) (file_ranges n f k)" using o by (simp add: apart_def)
    show "agrees img img' (ino_at n i) 4" if "0 \<le> i" "i < int n" for i
      using region_order(1) [OF that] region_apart(1) [of i f n] o
      by (intro changed_agrees [OF c]) (cases "i = f"; auto simp: apart_def)
    show "agrees img img' (ino_at n d) 64 \<and> agrees img img' (ext_at n d) 8 \<and>
        agrees img img' (dat_at n (blk d)) (256 * length ed)" if t: "tree d = Some ed" for d ed
    proof -
      have ne: "d \<noteq> f" "blk d \<noteq> k" using t f(3) k(2) by auto
      from dir_regions [OF fs t] region_apart(1,2) [OF ne(1), of n] region_apart(3) [OF ne(2), of n] o
        region_order(1) [of d n]
      show ?thesis by (intro conjI; intro changed_agrees [OF c]) (auto simp: apart_def)
    qed
  qed
qed

section \<open>The first write to a file\<close>

lemma find_next_bit_first:
  assumes "bm_ok img bm" "first_free img bm m" "m < 8"
  shows "find_next_bit img bm = Some (int m)"
  using find_next_bit_loop_first [OF assms(1,2), of 0 4096] assms(3) by (simp add: find_next_bit_def)

lemma modify_bit:
  assumes "bm_ok img bm" "m < 8"
  shows "\<exists>img'. modify img bm (int m) 1 = Some img' \<and> changed img img' [(bm, 4096)] \<and> bm_bit img' bm m"
proof -
  have m: "m < 32768" using assms(2) by simp
  obtain img' where img': "modify img bm (int m) 1 = Some img'" "bm_bit img' bm m"
    using modify_ok [OF assms(1) m, of 1] m by auto
  have "changed img img' [(bm + int (m div 8), 1)]"
    using raw.st_changed img'(1) unfolding modify_byte [OF assms(1) m] by fastforce
  then have "changed img img' [(bm, 4096)]" by (rule changed_merge) (use assms(2) in simp)
  with img' show ?thesis by blast
qed

lemma write_block_new:
  assumes g: "geometry img n" and f: "0 \<le> f" "f < int n" and e0: "i_extents img (ino_at n f) = Some 0"
    and m: "first_free img ((map_blocks n + 1) * 4096) m" "m < 8" and fb: "sb_free_blocks img = Some fb"
  shows "\<exists>img'. write_block img f (ino_at n f) = Some (Inr (int m, img')) \<and>
    changed img img' [((map_blocks n + 1) * 4096, 4096), (ext_at n f, 8), (ino_at n f + 36, 4), (44, 4)] \<and>
    i_extents img' (ino_at n f) = Some 1 \<and> extent_at img' (ext_at n f) 0 = Some (word_of_int (int m), 1) \<and>
    bm_bit img' ((map_blocks n + 1) * 4096) m \<and> sb_free_blocks img' = Some (fb - 1)"
proof -
  let ?bm = "(map_blocks n + 1) * 4096" and ?e = "ext_at n f" and ?r = "ino_at n f"
  have o: "(map_blocks n + 3) * 4096 \<le> ?r" "?r + 64 \<le> lay_extent n * 4096" "lay_extent n * 4096 \<le> ?e"
    "?e + 4096 \<le> lay_data n * 4096" "1 \<le> map_blocks n"
    using region_order(1,2) [OF f] region_order(4) [of n] by simp_all
  note room = geometry_room(1) [OF g]
  obtain i1 where 1: "modify img ?bm (int m) 1 = Some i1" "changed img i1 [(?bm, 4096)]" "bm_bit i1 ?bm m"
    using modify_bit [OF geometry_maps(2) [OF g] m(2)] by blast
  obtain i2 where 2: "st32 i1 ?e (word_of_int (int m)) = Some i2" "changed i1 i2 [(?e, 4)]" "ld32 i2 ?e = Some (word_of_int (int m))"
    using f32.field_effect [of ?e i1 "word_of_int (int m)"] o room changed_size [OF 1(2)] by auto
  obtain i3 where 3: "st32 i2 (?e + 4) 1 = Some i3" "changed i2 i3 [(?e + 4, 4)]" "ld32 i3 (?e + 4) = Some 1"
    using f32.field_effect [of "?e + 4" i2 1] o room changed_size [OF 1(2)] changed_size [OF 2(2)] by auto
  have c3: "changed i1 i3 [(?e, 8)]" by (rule changed_merge [OF changed_trans [OF 2(2) 3(2)]]) simp
  obtain i4 where 4: "st32 i3 (?r + 36) 1 = Some i4" "changed i3 i4 [(?r + 36, 4)]" "ld32 i4 (?r + 36) = Some 1"
    using f32.field_effect [of "?r + 36" i3 1] o room changed_size [OF 1(2)] changed_size [OF c3] by auto
  note c4 = changed_trans [OF changed_trans [OF 1(2) c3] 4(2), simplified]
  have "agrees img i4 44 4" using o by (intro changed_agrees [OF c4]) (simp add: apart_def)
  then have fb4: "sb_free_blocks i4 = Some fb" using fb by (simp add: sb_access agrees_ld32)
  obtain i5 where 5: "st32 i4 44 (fb - 1) = Some i5" "changed i4 i5 [(44, 4)]" "ld32 i5 44 = Some (fb - 1)"
    using f32.field_effect [of 44 i4 "fb - 1"] o room changed_size [OF c4] by auto
  have k: "agrees i3 i4 ?e 8" "agrees i4 i5 ?e 8" "agrees i2 i3 ?e 4" "agrees i4 i5 (?r + 36) 4"
    using o changed_agrees [OF 4(2)] changed_agrees [OF 5(2)] changed_agrees [OF 3(2)] by (simp_all add: apart_def)
  have ext: "ld32 i5 ?e = Some (word_of_int (int m))" "ld32 i5 (?e + 4) = Some 1" "ld32 i5 (?r + 36) = Some 1"
    using 2(3) 3(3) 4(3) agrees_ld32 [OF k(1)] agrees_ld32 [OF k(2)] agrees_ld32 [OF k(3)] agrees_ld32 [OF k(4)] by simp_all
  have g1: "bm_ok i1 ?bm" and g5: "bm_ok i5 ?bm"
    using geometry_maps(2) [OF g] changed_size [OF 1(2)] changed_size [OF c4] changed_size [OF 5(2)] by (simp_all add: bm_ok_def)
  note c5 = changed_trans [OF changed_trans [OF c3 4(2)] 5(2), simplified]
  have "bm_bit i5 ?bm m"
    using 1(3) bm_bit_agrees [OF changed_agrees [OF c5] g1 g5, of m] o m(2) by (simp add: apart_def)
  moreover have "write_block img f ?r = Some (Inr (int m, i5))"
    using find_next_bit_first [OF geometry_maps(2) [OF g] m] geometry_maps(4) [OF g] geometry_at(2) [OF g f] e0 1(1) 2(1) 3(1) 4(1) 5(1) fb4 g
    by (simp add: write_block_def A1FS_BLOCK_SIZE_def cint_ok geometry_def)
  moreover have "extent_at i5 ?e 0 = Some (word_of_int (int m), 1)" using ext by (simp add: extent_at_def)
  ultimately show ?thesis
    using ext(3) 5(3) changed_trans [OF c4 5(2), simplified] by (simp add: inode_access ldi_def sb_access)
qed

lemma to_int_of_nat: "k < 2147483648 \<Longrightarrow> to_int (of_nat k) = int k"
  using to_int_small [of "of_nat k"] by (simp add: unat_of_nat_u64)

lemma word_of_off: "0 \<le> off \<Longrightarrow> word_of_int off = (of_nat (nat off) :: u64)"
  by simp

lemma small_sdiv:
  assumes "0 \<le> off" "off < (4096 :: int)"
  shows "off sdiv 4096 = 0" "off smod 4096 = off"
  using assms by (cases "off = 0"; simp add: signed_divide_int_def signed_modulo_int_def)+

text \<open>Reading from a file with one block.\<close>

lemma read_one_block:
  assumes fs: "fs_ok img n tree blk" and f: "file_path tree n path f"
    and ext: "i_extents img (ino_at n f) = Some 1" "extent_at img (ext_at n f) 0 = Some (word_of_int k, 1)"
    and k: "dat_ok img n k" and sz: "i_size img (ino_at n f) = Some (of_nat s)" "s < 2147483648"
    and off: "0 \<le> off" "off < 4096" "off \<le> int s" and bs: "rd img (dat_at n k + off) (length bs) = Some bs" "length bs < 2147483648"
  shows "a1fs_read img path (of_nat (length bs)) off = Some (int (length bs), bs)"
proof -
  have g: "geometry img n" using fs by (simp add: fs_ok_def)
  have "0 \<le> k" "k \<le> 2147483647" using k by (simp_all add: dat_ok_def dat_at_def lay_defs)
  then have "sint (word_of_int k :: u32) = k" by (rule sint_word_of_int)
  then have "find_block img (ext_at n f) 0 0 1 0 None = Some (Some k)"
    using ext(2) by (simp add: cint_def int_ok_def)
  moreover have "trunc_int (off sdiv 4096) = 0" using small_sdiv [OF off(1,2)] by (simp add: trunc_int_def)
  moreover have "unat (of_nat (length bs) :: u64) = length bs" using bs(2) by (intro unat_of_nat_u64) simp
  ultimately show ?thesis
    using file_path_inode [OF fs f] ext(1) sz off bs small_sdiv [OF off(1,2)] geometry_at(3) [OF g k]
    by (simp add: a1fs_read_def to_int_of_nat del: find_block.simps)
qed

text \<open>The data and the size: the first write to a file that is empty, and a write inside a file.\<close>

lemma data_write:
  assumes g: "geometry img n" and f: "0 \<le> f" "f < int n" and k: "dat_ok img n k"
    and off: "0 \<le> off" "off + int (length buf) \<le> 4096"
  shows "\<exists>img'. wr img (dat_at n k + off) buf = Some img' \<and> changed img img' [(dat_at n k, 4096)] \<and>
    rd img' (dat_at n k + off) (length buf) = Some buf \<and> geometry img' n \<and> i_size img' (ino_at n f) = i_size img (ino_at n f)"
proof -
  have o: "16384 \<le> ino_at n f" "ino_at n f + 64 \<le> lay_extent n * 4096" "lay_extent n * 4096 \<le> ext_at n f"
    "ext_at n f + 4096 \<le> lay_data n * 4096" "lay_data n * 4096 \<le> dat_at n k"
    using region_order(1,2) [OF f] region_order(3) [of k n] region_order(4) [of n] k by (simp_all add: dat_ok_def)
  obtain i1 where 1: "wr img (dat_at n k + off) buf = Some i1" "changed img i1 [(dat_at n k + off, length buf)]"
    using raw.st_effect [of "dat_at n k + off" buf img] o off k by (auto simp: dat_ok_def)
  have c: "changed img i1 [(dat_at n k, 4096)]" by (rule changed_merge [OF 1(2)]) (use off in simp)
  have "geometry i1 n" using geometry_agrees [OF g changed_agrees [OF c] changed_size [OF c]] o by (simp add: apart_def)
  moreover have "i_size i1 (ino_at n f) = i_size img (ino_at n f)"
    using agrees_ld64 [OF changed_agrees [OF c, of "ino_at n f" 64]] o by (simp add: inode_access apart_def)
  ultimately show ?thesis using 1(1) c rd_wr_same [OF 1(1)] by blast
qed

lemma size_write:
  assumes g: "geometry img n" and f: "0 \<le> f" "f < int n"
  shows "\<exists>img'. st64 img (ino_at n f + 8) v = Some img' \<and> changed img img' [(ino_at n f + 8, 8)] \<and>
    i_size img' (ino_at n f) = Some v"
  using f64.field_effect [of "ino_at n f + 8" img v] region_order(1,2) [OF f] region_order(4) [of n] geometry_room(1) [OF g]
  by (auto simp: inode_access)

lemma write_data_new:
  assumes g: "geometry img n" and f: "0 \<le> f" "f < int n" and k: "dat_ok img n k"
    and sz: "i_size img (ino_at n f) = Some 0" and off: "0 \<le> off" "off + int (length buf) \<le> 4096"
  shows "\<exists>img'. write_data img (ino_at n f) k buf (of_nat (length buf)) off = Some (int (length buf), img') \<and>
    changed img img' [(dat_at n k, 4096), (ino_at n f + 8, 8)] \<and>
    i_size img' (ino_at n f) = Some (of_nat (nat off + length buf)) \<and>
    rd img' (dat_at n k + off) (length buf) = Some buf \<and> rd img' (dat_at n k) (nat off) = Some (replicate (nat off) 0)"
proof -
  let ?b = "dat_at n k" and ?r = "ino_at n f"
  have o: "16384 \<le> ?r" "?r + 64 \<le> lay_extent n * 4096" "lay_extent n * 4096 \<le> ext_at n f" "ext_at n f + 4096 \<le> lay_data n * 4096" "lay_data n * 4096 \<le> ?b"
    using region_order(1,2) [OF f] region_order(3) [of k n] region_order(4) [of n] k by (simp_all add: dat_ok_def)
  have len: "length buf \<le> 4096" "nat off \<le> 4096" using off by linarith+
  then have u: "unat (of_nat (length buf) :: u64) = length buf" "to_int (of_nat (length buf)) = int (length buf)"
    by (simp_all add: unat_of_nat_u64 to_int_of_nat)
  have t0: "to_int 0 = 0" by (simp add: to_int_def)
  show ?thesis
  proof (cases "off = 0")
    case True
    obtain i2 where 2: "wr img (?b + off) buf = Some i2" "changed img i2 [(?b, 4096)]" "rd i2 (?b + off) (length buf) = Some buf"
      "geometry i2 n" "i_size i2 ?r = Some 0"
      using data_write [OF g f k off] sz by metis
    obtain i3 where 3: "st64 i2 (?r + 8) (of_nat (length buf)) = Some i3" "changed i2 i3 [(?r + 8, 8)]"
      "i_size i3 ?r = Some (of_nat (length buf))"
      using size_write [OF 2(4) f] by blast
    let ?img = "if 0 < length buf then i3 else i2"
    have "write_data img ?r k buf (of_nat (length buf)) off = Some (int (length buf), ?img)"
      using True sz 2(1) 3(1) u t0 geometry_at(3) [OF g k] by (simp add: write_data_def Let_def)
    moreover have "changed img ?img [(?b, 4096), (?r + 8, 8)]"
      using 2(2) changed_trans [OF 2(2) 3(2)] by (auto simp: changed_def)
    moreover have "rd i3 (?b + off) (length buf) = Some buf"
      using 2(3) agrees_rd [OF changed_agrees [OF 3(2), of ?b 4096]] o True len(1) by (simp add: apart_def)
    moreover have "\<exists>bs. rd ?img ?b 0 = Some bs"
      using o k changed_size [OF 2(2)] changed_size [OF 3(2)] unfolding rd_defined by (simp add: dat_ok_def) linarith
    ultimately show ?thesis using True 2(3,5) 3(3) by (auto dest: rd_length)
  next
    case False
    obtain i1 where 1: "wr img (?b + 0) (replicate (nat off) 0) = Some i1" "changed img i1 [(?b, 4096)]"
      "rd i1 (?b + 0) (nat off) = Some (replicate (nat off) 0)" "geometry i1 n" "i_size i1 ?r = Some 0"
      using data_write [OF g f k, of 0 "replicate (nat off) 0"] off sz by auto
    have k1: "dat_ok i1 n k" using k changed_size [OF 1(2)] by (simp add: dat_ok_def)
    obtain i2 where 2: "wr i1 (?b + off) buf = Some i2" "changed i1 i2 [(?b, 4096)]" "rd i2 (?b + off) (length buf) = Some buf"
      "geometry i2 n"
      using data_write [OF 1(4) f k1 off] by blast
    have z2: "rd i2 ?b (nat off) = Some (replicate (nat off) 0)"
      using 1(3) rd_wr_disjoint [OF 2(1), of ?b "nat off"] off(1) by simp
    obtain i3 where 3: "st64 i2 (?r + 8) (of_nat (length buf) + word_of_int off) = Some i3" "changed i2 i3 [(?r + 8, 8)]"
      "i_size i3 ?r = Some (of_nat (length buf) + word_of_int off)"
      using size_write [OF 2(4) f] by blast
    have "trunc_int off = off" using sint_word_of_int [of off] off by (simp add: trunc_int_def)
    moreover have "clong off = Some off" using off by (simp add: clong_def)
    ultimately have "write_data img ?r k buf (of_nat (length buf)) off = Some (int (length buf), i3)"
      using False off(1) sz 1(1) 2(1) 3(1) u t0 geometry_at(3) [OF g k] geometry_at(3) [OF 1(4) k1]
      by (simp add: write_data_def Let_def)
    moreover have "rd i3 (?b + off) (length buf) = Some buf" "rd i3 ?b (nat off) = Some (replicate (nat off) 0)"
      using 2(3) z2 agrees_rd [OF changed_agrees [OF 3(2), of ?b 4096]] o off len(2) by (simp_all add: apart_def)
    moreover have "changed img i3 [(?b, 4096), (?r + 8, 8)]"
      using changed_trans [OF changed_merge [OF changed_trans [OF 1(2) 2(2)], of ?b 4096] 3(2)] by simp
    moreover have "of_nat (length buf) + word_of_int off = (of_nat (nat off + length buf) :: u64)" using off(1) by simp
    ultimately show ?thesis using 3(3) by metis
  qed
qed

text \<open>The block of a later write is the one after the file's only extent; writing to it inside
  the block leaves the size at the larger of its old value and the end of the write.\<close>

lemma write_block_later:
  assumes g: "geometry img n" and f: "0 \<le> f" "f < int n"
    and ext: "i_extents img (ino_at n f) = Some 1" "extent_at img (ext_at n f) 0 = Some (word_of_int k, 1)"
    and k: "0 \<le> k" "k + 1 \<le> 2147483647"
  shows "write_block img f (ino_at n f) = Some (Inr (k + 1, img))"
proof -
  have "word_of_int k + 1 = (word_of_int (k + 1) :: u32)" by simp
  then have "sint (word_of_int k + 1 :: u32) = k + 1" using sint_word_of_int [of "k + 1"] k by simp
  then show ?thesis
    using g ext geometry_maps(4) [OF g] geometry_at(2) [OF g f]
    by (simp add: write_block_def geometry_def A1FS_BLOCK_SIZE_def cint_ok) (simp add: cint_def int_ok_def)
qed

lemma write_data_later:
  assumes g: "geometry img n" and f: "0 \<le> f" "f < int n" and k: "dat_ok img n k"
    and sz: "i_size img (ino_at n f) = Some (of_nat s)" "s \<le> 4096"
    and off: "0 \<le> off" "off \<le> int s" "off + int (length buf) \<le> 4096"
  obtains img' where
    "write_data img (ino_at n f) k buf (of_nat (length buf)) off = Some (int (length buf), img')"
    "changed img img' [(dat_at n k, 4096), (ino_at n f + 8, 8)]"
    "i_size img' (ino_at n f) = Some (of_nat (max s (nat off + length buf)))"
    "rd img' (dat_at n k + off) (length buf) = Some buf"
proof -
  let ?r = "ino_at n f" and ?b = "dat_at n k"
  let ?v = "word_of_int off + of_nat (length buf) :: u64" and ?grows = "off + int (length buf) > int s"
  have o: "?r + 64 \<le> ?b"
    using region_order(1,2) [OF f] region_order(3) [of k n] k by (simp add: dat_ok_def)
  have len: "length buf \<le> 4096" using off by linarith
  then have u: "unat (of_nat (length buf) :: u64) = length buf" "to_int (of_nat (length buf)) = int (length buf)"
    "to_int (of_nat s) = int s" using sz(2) by (simp_all add: unat_of_nat_u64 to_int_of_nat)
  obtain i1 where 1: "wr img (?b + off) buf = Some i1" "changed img i1 [(?b, 4096)]" "rd i1 (?b + off) (length buf) = Some buf"
    "geometry i1 n" "i_size i1 ?r = Some (of_nat s)"
    using data_write [OF g f k off(1,3)] sz(1) by metis
  have "?v = of_nat (nat off + length buf)" using off(1) by simp
  then have v: "to_int ?v = off + int (length buf)" "?v = of_nat (nat off + length buf)"
    using to_int_of_nat [of "nat off + length buf"] off by simp_all
  obtain i2 where 2: "st64 i1 (?r + 8) ?v = Some i2" "changed i1 i2 [(?r + 8, 8)]" "i_size i2 ?r = Some ?v"
    using size_write [OF 1(4) f] by blast
  show ?thesis
  proof (cases ?grows)
    case True
    have "rd i2 (?b + off) (length buf) = Some buf"
      using 1(3) agrees_rd [OF changed_agrees [OF 2(2), of ?b 4096]] o off by (simp add: apart_def)
    moreover have "max s (nat off + length buf) = nat off + length buf" using True off(1) by linarith
    ultimately show ?thesis
      using that [of i2] True sz(1) off(2) 1(1) 2(1,3) u v geometry_at(3) [OF g k] changed_trans [OF 1(2) 2(2)]
      by (simp add: write_data_def Let_def)
  next
    case False
    have "max s (nat off + length buf) = s" using False off(1) by linarith
    moreover have "changed img i1 [(?b, 4096), (?r + 8, 8)]" using 1(2) by (auto simp: changed_def)
    ultimately show ?thesis
      using that [of i1] False sz(1) off(2) 1(1,3,5) 2(1) u v(1) geometry_at(3) [OF g k]
      by (simp add: write_data_def Let_def)
  qed
qed

section \<open>Properties\<close>

text \<open>C32. Round trip of the first write to an empty file, at any offset inside a block, when the
  lowest free data block \<open>m\<close> is in the first byte of the bitmap: \<open>a1fs_write\<close> takes that block
  and returns the number of bytes, \<open>a1fs_read\<close> at the same offset returns exactly the bytes
  written and before the offset returns zeros, the size of the file is the end of the write,
  and every directory is as before.\<close>

theorem write_read_roundtrip:
  assumes fs: "fs_ok img n tree blk" and f: "file_path tree n path f"
    and empty: "i_extents img (ino_at n f) = Some 0" "i_size img (ino_at n f) = Some 0"
    and m: "first_free img ((map_blocks n + 1) * 4096) m" "m < 8" "dat_ok img n (int m)" "int m \<notin> blk ` dom tree"
    and fb: "sb_free_blocks img = Some fb" and off: "0 \<le> off" "off < 4096" "off + int (length buf) \<le> 4096"
  shows "\<exists>img'. a1fs_write img path buf (of_nat (length buf)) off = Some (int (length buf), img') \<and>
    fs_ok img' n tree blk \<and>
    a1fs_read img' path (of_nat (length buf)) off = Some (int (length buf), buf) \<and>
    a1fs_read img' path (of_nat (nat off)) 0 = Some (off, replicate (nat off) 0) \<and>
    i_size img' (ino_at n f) = Some (of_nat (nat off + length buf)) \<and>
    bm_bit img' ((map_blocks n + 1) * 4096) m \<and> sb_free_blocks img' = Some (fb - 1)"
proof -
  let ?r = "ino_at n f" and ?e = "ext_at n f" and ?b = "dat_at n (int m)" and ?bm = "(map_blocks n + 1) * 4096"
  have g: "geometry img n" using fs by (simp add: fs_ok_def)
  have fr: "0 \<le> f" "f < int n" "f \<notin> dom tree" using f by (simp_all add: file_path_def)
  have o: "(map_blocks n + 3) * 4096 \<le> ?r" "?r + 64 \<le> lay_extent n * 4096" "lay_extent n * 4096 \<le> ?e"
    "?e + 4096 \<le> lay_data n * 4096" "lay_data n * 4096 \<le> ?b" "1 \<le> map_blocks n"
    using region_order(1,2) [OF fr(1,2)] region_order(3) [of "int m" n] region_order(4) [of n] by simp_all
  obtain i1 where 1: "write_block img f ?r = Some (Inr (int m, i1))"
    "changed img i1 [(?bm, 4096), (?e, 8), (?r + 36, 4), (44, 4)]"
    "i_extents i1 ?r = Some 1" "extent_at i1 ?e 0 = Some (word_of_int (int m), 1)" "bm_bit i1 ?bm m" "sb_free_blocks i1 = Some (fb - 1)"
    using write_block_new [OF g fr(1,2) empty(1) m(1,2) fb] by blast
  have g1: "geometry i1 n" using geometry_agrees [OF g changed_agrees [OF 1(2)] changed_size [OF 1(2)]] o by (simp add: apart_def)
  have k1: "dat_ok i1 n (int m)" using m(3) changed_size [OF 1(2)] by (simp add: dat_ok_def)
  have "agrees img i1 (?r + 8) 8" using o by (intro changed_agrees [OF 1(2)]) (simp add: apart_def)
  then have sz1: "i_size i1 ?r = Some 0" using empty(2) by (simp add: inode_access agrees_ld64)
  obtain i2 where 2: "write_data i1 ?r (int m) buf (of_nat (length buf)) off = Some (int (length buf), i2)"
    "changed i1 i2 [(?b, 4096), (?r + 8, 8)]" "i_size i2 ?r = Some (of_nat (nat off + length buf))"
    "rd i2 (?b + off) (length buf) = Some buf" "rd i2 ?b (nat off) = Some (replicate (nat off) 0)"
    using write_data_new [OF g1 fr(1,2) k1 sz1 off(1,3)] by blast
  have a2: "agrees i1 i2 (?r + 36) 4" "agrees i1 i2 ?e 8" "agrees i1 i2 ?bm 4096" "agrees i1 i2 44 4"
    using o changed_agrees [OF 2(2)] by (simp_all add: apart_def)
  have ext: "i_extents i2 ?r = Some 1" "extent_at i2 ?e 0 = Some (word_of_int (int m), 1)" "sb_free_blocks i2 = Some (fb - 1)"
    using 1(3,4,6) agrees_ld32 [OF a2(1)] agrees_ld32 [OF a2(2)] agrees_ld32 [OF a2(4)]
    by (simp_all add: inode_access ldi_def extent_at_def sb_access)
  note c2 = changed_trans [OF 1(2) 2(2), simplified]
  have "changed img i2 (file_ranges n f (int m))" using c2 by (simp add: changed_def conj_ac)
  then have fs2: "fs_ok i2 n tree blk" using file_ranges_fs_ok [OF fs fr _ m(4)] by simp
  have k2: "dat_ok i2 n (int m)" using m(3) changed_size [OF c2] by (simp add: dat_ok_def)
  have len: "nat off + length buf < 2147483648" "length buf < 2147483648" "nat off < 2147483648" using off by linarith+
  note read = read_one_block [OF fs2 f ext(1,2) k2 2(3) len(1)]
  have "a1fs_read i2 path (of_nat (length buf)) off = Some (int (length buf), buf)"
    using read [OF off(1,2) _ 2(4) len(2)] off(1) by simp
  moreover have "a1fs_read i2 path (of_nat (nat off)) 0 = Some (off, replicate (nat off) 0)"
    using read [of 0 "replicate (nat off) 0"] 2(5) len(3) off(1) by simp
  moreover have "bm_bit i2 ?bm m"
    using 1(5) bm_bit_agrees [OF a2(3)] geometry_maps(2) [OF g1] fs2 geometry_maps(2) [of i2 n] m(2) by (simp add: fs_ok_def)
  moreover have "a1fs_write img path buf (of_nat (length buf)) off = Some (int (length buf), i2)"
    using file_path_inode [OF fs f] 1(1) 2(1) by (simp add: a1fs_write_def)
  ultimately show ?thesis using fs2 2(3) ext(3) by blast
qed

text \<open>C38. A later write to such a file, inside its block, goes to the block after the file's only
  extent: it reports success, but a read returns the bytes that were there before, and the
  block it did write to is neither marked in the bitmap nor part of the file.\<close>

theorem second_write_lost:
  assumes fs: "fs_ok img n tree blk" and f: "file_path tree n path f"
    and ext: "i_extents img (ino_at n f) = Some 1" "extent_at img (ext_at n f) 0 = Some (word_of_int k, 1)"
    and k: "dat_ok img n k" "dat_ok img n (k + 1)" "k + 1 \<notin> blk ` dom tree"
    and sz: "i_size img (ino_at n f) = Some (of_nat s)" "s \<le> 4096"
    and off: "0 \<le> off" "off < 4096" "off \<le> int s" "off + int (length buf) \<le> 4096"
    and old: "rd img (dat_at n k + off) (length buf) = Some old"
  shows "\<exists>img'. a1fs_write img path buf (of_nat (length buf)) off = Some (int (length buf), img') \<and>
    fs_ok img' n tree blk \<and> rd img' (dat_at n (k + 1) + off) (length buf) = Some buf \<and>
    a1fs_read img' path (of_nat (length buf)) off = Some (int (length buf), old) \<and>
    i_extents img' (ino_at n f) = Some 1 \<and> extent_at img' (ext_at n f) 0 = Some (word_of_int k, 1) \<and>
    (\<forall>j < 32768. bm_bit img' ((map_blocks n + 1) * 4096) j = bm_bit img ((map_blocks n + 1) * 4096) j)"
proof -
  let ?r = "ino_at n f" and ?e = "ext_at n f" and ?b = "dat_at n (k + 1)" and ?bm = "(map_blocks n + 1) * 4096"
  have g: "geometry img n" using fs by (simp add: fs_ok_def)
  have fr: "0 \<le> f" "f < int n" "f \<notin> dom tree" using f by (simp_all add: file_path_def)
  have kb: "0 \<le> k" "k + 1 \<le> 2147483647" using k(1,2) by (simp_all add: dat_ok_def dat_at_def lay_defs)
  have o: "(map_blocks n + 3) * 4096 \<le> ?r" "?r + 64 \<le> lay_extent n * 4096" "lay_extent n * 4096 \<le> ?e"
    "?e + 4096 \<le> lay_data n * 4096" "lay_data n * 4096 \<le> ?b" "1 \<le> map_blocks n" "lay_data n * 4096 \<le> dat_at n k"
    "dat_at n k + 4096 \<le> ?b"
    using region_order(1,2) [OF fr(1,2)] region_order(3) [of "k + 1" n] region_order(3) [of k n] region_order(4) [of n] kb
    by (simp_all add: dat_at_def)
  obtain i3 where wd: "write_data img ?r (k + 1) buf (of_nat (length buf)) off = Some (int (length buf), i3)"
    and c3: "changed img i3 [(?b, 4096), (?r + 8, 8)]"
    and s1: "i_size i3 ?r = Some (of_nat (max s (nat off + length buf)))"
    and new: "rd i3 (?b + off) (length buf) = Some buf"
    using write_data_later [OF g fr(1,2) k(2) sz off(1,3,4)] by blast
  have "changed img i3 (file_ranges n f (k + 1))" using c3 by (simp add: changed_def conj_ac)
  then have fs3: "fs_ok i3 n tree blk" using file_ranges_fs_ok [OF fs fr _ k(3)] kb by simp
  have a: "agrees img i3 (?r + 36) 4" "agrees img i3 ?e 8" "agrees img i3 ?bm 4096" "agrees img i3 (dat_at n k) 4096"
    using o changed_agrees [OF c3] by (simp_all add: apart_def)
  have ext3: "i_extents i3 ?r = Some 1" "extent_at i3 ?e 0 = Some (word_of_int k, 1)"
    using ext agrees_ld32 [OF a(1)] agrees_ld32 [OF a(2)] by (simp_all add: inode_access ldi_def extent_at_def)
  have s': "max s (nat off + length buf) < 2147483648" "off \<le> int (max s (nat off + length buf))"
    and len: "length buf \<le> 4096" using sz(2) off by linarith+
  have old3: "rd i3 (dat_at n k + off) (length old) = Some old" "length old = length buf"
    using old agrees_rd [OF a(4), of "dat_at n k + off" "length buf"] off rd_length [OF old] by simp_all
  have "a1fs_read i3 path (of_nat (length buf)) off = Some (int (length buf), old)"
    using read_one_block [OF fs3 f ext3 _ s1 s'(1) off(1,2) s'(2) old3(1)] k(1) changed_size [OF c3] old3(2) len
    by (simp add: dat_ok_def)
  moreover have "bm_bit i3 ?bm j = bm_bit img ?bm j" if "j < 32768" for j
    using bm_bit_agrees [OF a(3) _ _ that] geometry_maps(2) [OF g] geometry_maps(2) [of i3 n] fs3 by (simp add: fs_ok_def)
  moreover have "a1fs_write img path buf (of_nat (length buf)) off = Some (int (length buf), i3)"
    using file_path_inode [OF fs f] write_block_later [OF g fr(1,2) ext kb] wd by (simp add: a1fs_write_def)
  ultimately show ?thesis using fs3 ext3 new by blast
qed

text \<open>A file system with the empty file \<open>"/a"\<close> as inode 1.\<close>

definition demo_tree :: dir_tree where
  "demo_tree = root_tree(0 \<mapsto> root_entries @ [(int 1, [97])])"

lemma demo_file_path: "file_path demo_tree 4 [47, 97] 1"
  by (simp add: file_path_def demo_tree_def components_def slash_def root_entries_def last_match_def dot_def dotdot_def
      root_tree_def dom_def)

lemma demo_ranges: "apart 44 4 (ino_at 4 0 + 4, 12)" "apart 44 4 (ino_at 4 1, 64)" "apart 44 4 (dat_at 4 0 + 512, 256)"
  "apart 4096 4096 (ino_at 4 0 + 4, 12)" "apart 4096 4096 (ino_at 4 1, 64)" "apart 4096 4096 (dat_at 4 0 + 512, 256)"
  "apart 8192 4096 (ino_at 4 0 + 4, 12)" "apart 8192 4096 (ino_at 4 1, 64)" "apart 8192 4096 (dat_at 4 0 + 512, 256)"
  by (simp_all add: apart_def ino_at_def dat_at_def lay_defs)

lemma demo_file:
  obtains img where "fs_ok img 4 demo_tree (\<lambda>_. 0)" "i_extents img (ino_at 4 1) = Some 0" "i_size img (ino_at 4 1) = Some 0"
    "first_free img ((map_blocks 4 + 1) * 4096) 1" "sb_free_blocks img = Some 4" "img_size img = 65536"
    "i_number img (ino_at 4 1) = Some 1" "first_free img 4096 1"
proof -
  have fs: "fs_ok fresh_disk 4 root_tree (\<lambda>_. 0)" using formatted_fs_ok [OF fresh_disk(1,2)] by simp
  have sb: "rd fresh_disk 0 56 = Some (sb_bytes (mkfs_sb 65536 4) 0)" using fresh_disk(1) by (simp add: formatted_def)
  have t: "root_tree 0 = Some root_entries" "length root_entries < 16" "int 1 \<notin> dom root_tree"
    by (simp_all add: root_tree_def root_entries_def dom_def)
  obtain l where l: "i_links fresh_disk (ino_at 4 0) = Some l" using parent_end_ok(4) [OF fs t(1,2)] by blast
  have reg: "0x81A4 AND S_IFMT = (S_IFREG :: u32)" by simp
  obtain img where img: "changed fresh_disk img [(ino_at 4 0 + 4, 12), (ino_at 4 (int 1), 64), (dat_at 4 0 + 256 * int (length root_entries), 256)]"
    "fs_ok img 4 (root_tree(0 \<mapsto> root_entries @ [(int 1, [97])])) (\<lambda>_. 0)"
    "i_size img (ino_at 4 (int 1)) = Some 0" "i_extents img (ino_at 4 (int 1)) = Some 0" "i_number img (ino_at 4 (int 1)) = Some (int 1)"
    using create_finish [OF fs t(1,2) _ t(3) _ _ reg l, of "[97]"] by auto
  have c: "changed fresh_disk img [(ino_at 4 0 + 4, 12), (ino_at 4 1, 64), (dat_at 4 0 + 512, 256)]"
    using img(1) by (simp add: root_entries_def)
  have a: "agrees fresh_disk img 44 4" "agrees fresh_disk img 8192 4096" "agrees fresh_disk img 4096 4096"
    using demo_ranges by (auto intro: changed_agrees [OF c])
  have "sb_free_blocks img = Some 4"
    using agrees_ld32 [OF a(1)] sb_fields(9) [OF sb] by (simp add: sb_free_blocks_def mkfs_sb_def Let_def lay_defs)
  moreover have "first_free img ((map_blocks 4 + 1) * 4096) 1"
    using first_free_agrees [OF a(2) _ _ fresh_disk_bitmaps(2)] geometry_maps(2) [of img 4] geometry_maps(2) [of fresh_disk 4]
      fs img(2) by (simp add: fs_ok_def map_blocks_def)
  moreover have "first_free img 4096 1"
    using first_free_agrees [OF a(3) _ _ fresh_disk_bitmaps(1)] geometry_maps(1) [of img 4] geometry_maps(1) [of fresh_disk 4]
      fs img(2) by (simp add: fs_ok_def)
  ultimately show ?thesis
    using that img(2-5) changed_size [OF c] fresh_disk(3) by (simp add: demo_tree_def)
qed

lemma demo_blocks:
  assumes "img_size img = 65536"
  shows "dat_ok img 4 1" "dat_ok img 4 2" "1 \<notin> (\<lambda>_. 0 :: int) ` S" "2 \<notin> (\<lambda>_. 0 :: int) ` S"
  using assms by (auto simp: dat_ok_def dat_at_def lay_defs)

theorem write_read_roundtrip_witness:
  "\<exists>img img'. a1fs_write img [47, 97] [1, 2, 3] 3 10 = Some (3, img') \<and> a1fs_read img' [47, 97] 3 10 = Some (3, [1, 2, 3])"
proof -
  obtain img where img: "fs_ok img 4 demo_tree (\<lambda>_. 0)" "i_extents img (ino_at 4 1) = Some 0" "i_size img (ino_at 4 1) = Some 0"
    "first_free img ((map_blocks 4 + 1) * 4096) 1" "sb_free_blocks img = Some 4" "img_size img = 65536"
    "i_number img (ino_at 4 1) = Some 1" "first_free img 4096 1"
    by (rule demo_file)
  have "\<exists>img'. a1fs_write img [47, 97] [1, 2, 3] (of_nat (length [1, 2, 3 :: u8])) 10 = Some (int (length [1, 2, 3 :: u8]), img') \<and>
      a1fs_read img' [47, 97] (of_nat (length [1, 2, 3 :: u8])) 10 = Some (int (length [1, 2, 3 :: u8]), [1, 2, 3])"
    using write_read_roundtrip [OF img(1) demo_file_path img(2-4) _ _ _ img(5), of 10 "[1, 2, 3]"] demo_blocks(1,2) [OF img(6)] demo_blocks(3,4) [OF img(6), of "dom demo_tree"]
    by auto
  then show ?thesis by auto
qed

theorem second_write_lost_witness:
  "\<exists>img img' old. rd img (dat_at 4 1) 1 = Some old \<and> a1fs_write img [47, 97] [7] 1 0 = Some (1, img') \<and>
     a1fs_read img' [47, 97] 1 0 = Some (1, old)"
proof -
  obtain img where img: "fs_ok img 4 demo_tree (\<lambda>_. 0)" "i_extents img (ino_at 4 1) = Some 0" "i_size img (ino_at 4 1) = Some 0"
    "first_free img ((map_blocks 4 + 1) * 4096) 1" "sb_free_blocks img = Some 4" "img_size img = 65536"
    "i_number img (ino_at 4 1) = Some 1" "first_free img 4096 1"
    by (rule demo_file)
  have g: "geometry img 4" using img(1) by (simp add: fs_ok_def)
  obtain i1 where 1: "changed img i1 [((map_blocks 4 + 1) * 4096, 4096), (ext_at 4 1, 8), (ino_at 4 1 + 36, 4), (44, 4)]"
    "i_extents i1 (ino_at 4 1) = Some 1" "extent_at i1 (ext_at 4 1) 0 = Some (word_of_int (int 1), 1)"
    using write_block_new [OF g _ _ img(2,4) _ img(5)] by auto
  have "changed img i1 (file_ranges 4 1 1)" using 1(1) by (simp add: changed_def conj_ac)
  moreover have "1 \<notin> dom demo_tree" by (simp add: demo_tree_def root_tree_def dom_def)
  ultimately have fs1: "fs_ok i1 4 demo_tree (\<lambda>_. 0)"
    using file_ranges_fs_ok [OF img(1), of 1 1 i1] demo_blocks(1,2) [OF img(6)] demo_blocks(3,4) [OF img(6), of "dom demo_tree"] by simp
  have sz: "img_size i1 = 65536" using changed_size [OF 1(1)] img(6) by simp
  have "i_size i1 (ino_at 4 1) = Some (of_nat 0)"
    using img(3) agrees_ld64 [OF changed_agrees [OF 1(1), of "ino_at 4 1 + 8" 8]]
    by (simp add: inode_access apart_def ino_at_def ext_at_def lay_defs)
  moreover obtain old where old: "rd i1 (dat_at 4 1 + 0) (length [7 :: u8]) = Some old"
    using rd_defined [of i1 "dat_at 4 1 + 0" "length [7 :: u8]"] sz by (auto simp: dat_at_def lay_defs)
  ultimately have "\<exists>img'. a1fs_write i1 [47, 97] [7] (of_nat (length [7 :: u8])) 0 = Some (int (length [7 :: u8]), img') \<and>
      a1fs_read img' [47, 97] (of_nat (length [7 :: u8])) 0 = Some (int (length [7 :: u8]), old)"
    using second_write_lost [OF fs1 demo_file_path 1(2), of 1 0 0 "[7]" old] 1(3) demo_blocks(1,2) [OF sz] demo_blocks(3,4) [OF sz, of "dom demo_tree"] by auto
  then show ?thesis using old by auto
qed

end
