(* ===== verification/A1fs_Remove.thy ===== *)
theory A1fs_Remove
  imports A1fs_Create
begin

text \<open>
  Removing files and directories (\<open>a1fs.c\<close>: \<open>a1fs_rmdir\<close>, \<open>a1fs_unlink\<close>).  As in \<open>A1fs_Create\<close>
  the contents of the uninitialised array \<open>parent_path\<close> are a parameter.
\<close>

section \<open>Freeing\<close>

text \<open>The loop over the blocks of an extent: the bits are cleared and, in \<open>a1fs_unlink\<close>, the free
  blocks are counted.\<close>

fun clear_blocks :: "image \<Rightarrow> bool \<Rightarrow> int \<Rightarrow> int \<Rightarrow> nat \<Rightarrow> image option" where
  "clear_blocks img counted data_bitmap m 0 = Some img"
| "clear_blocks img counted data_bitmap m (Suc n) = do {
     img1 \<leftarrow> modify img data_bitmap m 0;
     img2 \<leftarrow> (if counted then do {
         fb \<leftarrow> sb_free_blocks img1;
         st32 img1 44 (fb + 1)
       } else Some img1);
     clear_blocks img2 counted data_bitmap (m + 1) n
   }"

text \<open>The loop over the extents of \<open>a1fs_rmdir\<close> from \<open>i\<close> on, and that of \<open>a1fs_unlink\<close>, which
  computes its pointers in every iteration.  Both read the number of extents again in every
  iteration; the array has 512 of them.\<close>

function rmdir_extents :: "image \<Rightarrow> int \<Rightarrow> int \<Rightarrow> int \<Rightarrow> int \<Rightarrow> image option" where
  "rmdir_extents img data_bitmap current_ino rm_data_block i = do {
     extents \<leftarrow> i_extents img current_ino;
     if extents \<le> i then Some img
     else if i < 0 \<or> 512 \<le> i then None
     else do {
       (s, c) \<leftarrow> extent_at img rm_data_block i;
       cint (sint s + sint c);
       img1 \<leftarrow> clear_blocks img False data_bitmap (sint s) (nat (sint c));
       rmdir_extents img1 data_bitmap current_ino rm_data_block (i + 1)
     }
   }"
  by pat_completeness auto
termination
  by (relation "measure (\<lambda>(img, data_bitmap, current_ino, rm_data_block, i). nat (512 - i))") auto

function unlink_extents :: "image \<Rightarrow> int \<Rightarrow> int \<Rightarrow> int \<Rightarrow> image option" where
  "unlink_extents img file_ino file_inode x = do {
     extents \<leftarrow> i_extents img file_inode;
     if extents \<le> x then Some img
     else if x < 0 \<or> 512 \<le> x then None
     else do {
       dm \<leftarrow> sb_start_data_map img;
       data_bitmap \<leftarrow> cint (dm * A1FS_BLOCK_SIZE);
       file_data_block \<leftarrow> extent_ptr img file_ino;
       (s, c) \<leftarrow> extent_at img file_data_block x;
       cint (sint s + sint c);
       img1 \<leftarrow> clear_blocks img True data_bitmap (sint s) (nat (sint c));
       unlink_extents img1 file_ino file_inode (x + 1)
     }
   }"
  by pat_completeness auto
termination
  by (relation "measure (\<lambda>(img, file_ino, file_inode, x). nat (512 - x))") auto

declare rmdir_extents.simps [simp del] unlink_extents.simps [simp del]

section \<open>Removing an entry\<close>

text \<open>\<open>strcmp\<close> of a name in the image with a string: the comparison stops at the first difference.\<close>

fun str_eq :: "image \<Rightarrow> int \<Rightarrow> u8 list \<Rightarrow> bool option" where
  "str_eq img off [] = map_option (\<lambda>b. hd b = 0) (rd img off 1)"
| "str_eq img off (c # cs) = do {
     b \<leftarrow> rd img off 1;
     if hd b = c then str_eq img (off + 1) cs else Some False
   }"

text \<open>\<open>lastdr\<close>: the sums and the product are unsigned.\<close>

definition last_ptr :: "image \<Rightarrow> int \<Rightarrow> int \<Rightarrow> int \<Rightarrow> int option" where
  "last_ptr img parent e_block num_last_entry = do {
     sd \<leftarrow> sb_start_data img;
     extents \<leftarrow> i_extents img parent;
     l \<leftarrow> cint (extents - 1);
     (s, c) \<leftarrow> extent_at img e_block l;
     Some (uint ((word_of_int sd + s + c - 1) * (4096 :: u32)) + (num_last_entry - 1) * 256)
   }"

text \<open>The entry in the slot \<open>x\<close> is dropped, or replaced by the last one.  \<open>dir\<close> distinguishes
  \<open>a1fs_rmdir\<close>, which also decrements the parent's links here.\<close>

definition drop_entry :: "image \<Rightarrow> bool \<Rightarrow> int \<Rightarrow> int \<Rightarrow> int \<Rightarrow> int \<Rightarrow> int \<Rightarrow> image option" where
  "drop_entry img dir parent e_block num_last_entry blk x = do {
     img1 \<leftarrow> (if x = num_last_entry - 1 then Some img
       else do {
         lastdr \<leftarrow> last_ptr img parent e_block num_last_entry;
         name \<leftarrow> cstr img (lastdr + 4) A1FS_NAME_MAX;
         i1 \<leftarrow> put_str A1FS_NAME_MAX img (blk + 256 * x + 4) name;
         ino \<leftarrow> ld32 i1 lastdr;
         st32 i1 (blk + 256 * x) ino
       });
     sz \<leftarrow> i_size img1 parent;
     img2 \<leftarrow> st64 img1 (parent + 8) (sz - 256);
     if dir then do {
       l \<leftarrow> i_links img2 parent;
       st32 img2 (parent + 4) (l - 1)
     } else Some img2
   }"

text \<open>The loops over entries (from \<open>16 - n\<close> on), blocks and extents; they end after the first
  match.\<close>

fun remove_slots :: "image \<Rightarrow> bool \<Rightarrow> int \<Rightarrow> int \<Rightarrow> int \<Rightarrow> u8 list \<Rightarrow> int \<Rightarrow> nat \<Rightarrow> (bool \<times> image) option" where
  "remove_slots img dir parent e_block num name blk 0 = Some (False, img)"
| "remove_slots img dir parent e_block num name blk (Suc n) = do {
     eq \<leftarrow> str_eq img (blk + 256 * (15 - int n) + 4) name;
     if eq then do {
       img1 \<leftarrow> drop_entry img dir parent e_block num blk (15 - int n);
       Some (True, img1)
     } else remove_slots img dir parent e_block num name blk n
   }"

fun remove_blocks :: "image \<Rightarrow> bool \<Rightarrow> int \<Rightarrow> int \<Rightarrow> int \<Rightarrow> u8 list \<Rightarrow> int \<Rightarrow> nat \<Rightarrow> (bool \<times> image) option" where
  "remove_blocks img dir parent e_block num name j 0 = Some (False, img)"
| "remove_blocks img dir parent e_block num name j (Suc n) = do {
     blk \<leftarrow> data_ptr img j;
     (flag, img1) \<leftarrow> remove_slots img dir parent e_block num name blk 16;
     if flag then Some (True, img1) else remove_blocks img1 dir parent e_block num name (j + 1) n
   }"

fun remove_extents :: "image \<Rightarrow> bool \<Rightarrow> int \<Rightarrow> int \<Rightarrow> int \<Rightarrow> u8 list \<Rightarrow> int \<Rightarrow> nat \<Rightarrow> image option" where
  "remove_extents img dir parent e_block num name i 0 = Some img"
| "remove_extents img dir parent e_block num name i (Suc n) = do {
     (s, c) \<leftarrow> extent_at img e_block i;
     (if dir then map_option (\<lambda>_. ()) (data_ptr img (sint s)) else Some ());
     cint (sint c + sint s);
     (flag, img1) \<leftarrow> remove_blocks img dir parent e_block num name (sint s) (nat (sint c));
     if flag then Some img1 else remove_extents img1 dir parent e_block num name (i + 1) n
   }"

text \<open>The parent of an existing path: unlike in \<open>a1fs_create\<close>, the root is recognised by the
  length of the prefix.\<close>

definition old_parent :: "image \<Rightarrow> u8 list \<Rightarrow> u8 list \<Rightarrow> (int \<times> u8 list) option" where
  "old_parent img junk path = do {
     (if length path < 100 then Some () else None);
     i \<leftarrow> strrchr path slash;
     let dr_name = drop i path;
     let new_dr = drop 1 dr_name;
     let k = length path - length dr_name;
     if k = 0 then Some (0, new_dr)
     else do {
       parent_path \<leftarrow> array_str (take k path @ drop k junk);
       parent_ino \<leftarrow> path_inode img parent_path;
       Some (parent_ino, new_dr)
     }
   }"

section \<open>Operations\<close>

definition a1fs_rmdir :: "image \<Rightarrow> u8 list \<Rightarrow> u8 list \<Rightarrow> (int \<times> image) option" where
  "a1fs_rmdir img junk path = do {
     (if path = [slash] then None else Some ());
     dr_ino \<leftarrow> path_inode img path;
     current_ino \<leftarrow> inode_ptr img dr_ino;
     l \<leftarrow> i_links img current_ino;
     if l \<noteq> 2 then Some (- ENOTEMPTY, img)
     else do {
       dm \<leftarrow> sb_start_data_map img;
       data_bitmap \<leftarrow> cint (dm * A1FS_BLOCK_SIZE);
       im \<leftarrow> sb_start_inode_map img;
       inode_bitmap \<leftarrow> cint (im * A1FS_BLOCK_SIZE);
       img1 \<leftarrow> modify img inode_bitmap dr_ino 0;
       fi \<leftarrow> sb_free_inodes img1;
       img2 \<leftarrow> st32 img1 48 (fi + 1);
       rm_data_block \<leftarrow> extent_ptr img2 dr_ino;
       img3 \<leftarrow> rmdir_extents img2 data_bitmap current_ino rm_data_block 0;
       (parent_ino, new_dr) \<leftarrow> old_parent img3 junk path;
       parent \<leftarrow> inode_ptr img3 parent_ino;
       e_block \<leftarrow> extent_ptr img3 parent_ino;
       sz \<leftarrow> i_size img3 parent;
       let num_last_entry = to_int (sz div 256 mod 16);
       extents' \<leftarrow> i_extents img3 parent;
       img4 \<leftarrow> remove_extents img3 True parent e_block num_last_entry new_dr 0 (nat extents');
       Some (0, img4)
     }
   }"

text \<open>In \<open>a1fs_unlink\<close> the address of the parent is \<open>(sb->start_inode + parent_ino) * A1FS_BLOCK_SIZE\<close>.\<close>

definition a1fs_unlink :: "image \<Rightarrow> u8 list \<Rightarrow> u8 list \<Rightarrow> (int \<times> image) option" where
  "a1fs_unlink img junk path = do {
     file_ino \<leftarrow> path_inode img path;
     file_inode \<leftarrow> inode_ptr img file_ino;
     im \<leftarrow> sb_start_inode_map img;
     inode_bm \<leftarrow> cint (im * A1FS_BLOCK_SIZE);
     img1 \<leftarrow> modify img inode_bm file_ino 0;
     fi \<leftarrow> sb_free_inodes img1;
     img2 \<leftarrow> st32 img1 48 (fi + 1);
     img3 \<leftarrow> unlink_extents img2 file_ino file_inode 0;
     (parent_ino, new_dr) \<leftarrow> old_parent img3 junk path;
     si \<leftarrow> sb_start_inode img3;
     parent \<leftarrow> block_off si parent_ino;
     e_block \<leftarrow> extent_ptr img3 parent_ino;
     l \<leftarrow> i_links img3 parent;
     img4 \<leftarrow> st32 img3 (parent + 4) (l - 1);
     sz \<leftarrow> i_size img4 parent;
     let num_last_entry = to_int (sz div 256 mod 16);
     extents' \<leftarrow> i_extents img4 parent;
     img5 \<leftarrow> remove_extents img4 False parent e_block num_last_entry new_dr 0 (nat extents');
     Some (0, img5)
   }"

end
