(* ===== verification/A1fs_Ops.thy ===== *)
theory A1fs_Ops
  imports A1fs_Mkdir A1fs_Data A1fs_Remove
begin

text \<open>
  The table of operations that the file system registers with FUSE (\<open>a1fs.c\<close>: \<open>a1fs_ops\<close>), and
  sequences of calls through it.
\<close>

section \<open>Calls\<close>

datatype fuse_call =
    Call_statfs "u8 list"
  | Call_getattr "u8 list"
  | Call_readdir "u8 list"
  | Call_mkdir "u8 list" u32
  | Call_rmdir "u8 list"
  | Call_create "u8 list" u32
  | Call_unlink "u8 list"
  | Call_utimens "u8 list" "((u64 \<times> u64) \<times> (u64 \<times> u64)) option"
  | Call_truncate "u8 list" int
  | Call_read "u8 list" u64 int
  | Call_write "u8 list" "u8 list" u64 int

text \<open>What a call leaves in the memory of its caller: the \<open>struct statvfs\<close>, the \<open>struct stat\<close>, the
  names passed to \<open>filler\<close>, or the bytes copied into \<open>buf\<close>.\<close>

datatype fuse_out = No_output | Statvfs statvfs | Stat stat | Names "u8 list list" | Bytes "u8 list"

text \<open>The result of a call, its output, and the image after it; \<open>junk\<close> is what the stack holds
  where the operations that need a parent put its path, and the \<open>struct stat\<close> of the caller is zero.\<close>

definition reads :: "image \<Rightarrow> ('a \<Rightarrow> fuse_out) \<Rightarrow> (int \<times> 'a) option \<Rightarrow> ((int \<times> fuse_out) \<times> image) option" where
  "reads img out = map_option (\<lambda>(r, v). ((r, out v), img))"

definition changes :: "(int \<times> image) option \<Rightarrow> ((int \<times> fuse_out) \<times> image) option" where
  "changes = map_option (\<lambda>(r, img). ((r, No_output), img))"

fun a1fs_ops :: "fs_ctx \<Rightarrow> u8 list \<Rightarrow> fuse_call \<Rightarrow> ((int \<times> fuse_out) \<times> image) option" where
  "a1fs_ops fs junk (Call_statfs path) = reads (fs_image fs) Statvfs (a1fs_statfs fs path)"
| "a1fs_ops fs junk (Call_getattr path) = reads (fs_image fs) Stat (a1fs_getattr (fs_image fs) path stat_zero)"
| "a1fs_ops fs junk (Call_readdir path) = reads (fs_image fs) Names (a1fs_readdir (fs_image fs) path)"
| "a1fs_ops fs junk (Call_mkdir path m) = changes (a1fs_mkdir (fs_image fs) junk path m)"
| "a1fs_ops fs junk (Call_rmdir path) = changes (a1fs_rmdir (fs_image fs) junk path)"
| "a1fs_ops fs junk (Call_create path m) = changes (a1fs_create (fs_image fs) junk path m)"
| "a1fs_ops fs junk (Call_unlink path) = changes (a1fs_unlink (fs_image fs) junk path)"
| "a1fs_ops fs junk (Call_utimens path ts) = changes (a1fs_utimens (fs_image fs) path ts)"
| "a1fs_ops fs junk (Call_truncate path sz) = changes (a1fs_truncate (fs_image fs) path sz)"
| "a1fs_ops fs junk (Call_read path sz off) = reads (fs_image fs) Bytes (a1fs_read (fs_image fs) path sz off)"
| "a1fs_ops fs junk (Call_write path buf sz off) = changes (a1fs_write (fs_image fs) path buf sz off)"

lemma reads_Some [simp]: "reads img out (Some (r, v)) = Some ((r, out v), img)"
  by (simp add: reads_def)

lemma changes_Some [simp]: "changes (Some (r, img)) = Some ((r, No_output), img)"
  by (simp add: changes_def)

text \<open>A sequence of calls, each with its own stack contents.\<close>

fun a1fs_session :: "fs_ctx \<Rightarrow> (u8 list \<times> fuse_call) list \<Rightarrow> ((int \<times> fuse_out) list \<times> fs_ctx) option" where
  "a1fs_session fs [] = Some ([], fs)"
| "a1fs_session fs ((junk, call) # calls) = do {
     (r, img) \<leftarrow> a1fs_ops fs junk call;
     (rs, fs') \<leftarrow> a1fs_session (fs\<lparr>fs_image := img\<rparr>) calls;
     Some (r # rs, fs')
   }"

end
