(* ===== verification/A1fs_Mount.thy ===== *)
theory A1fs_Mount
  imports A1fs_Ops
begin

text \<open>
  The two programs around the file system: formatting (\<open>mkfs.c\<close>: \<open>parse_args\<close>, \<open>main\<close>) and
  mounting (\<open>map.c\<close>, \<open>fs_ctx.c\<close>, \<open>options.c\<close>, and \<open>a1fs_init\<close>, \<open>a1fs_destroy\<close> and \<open>main\<close> of
  \<open>a1fs.c\<close>).  The calls of the operating system, of \<open>getopt\<close> and of libfuse are parameters;
  what a program does to its environment apart from the mapped image is a list of events
  (usage texts and the messages of \<open>mkfs.c\<close> and \<open>options.c\<close> are left out).
\<close>

section \<open>Mapping a file\<close>

text \<open>The host: the results of \<open>open\<close>, of \<open>fstat\<close> (the size) and of \<open>mmap\<close>, and the contents of
  the open files, which a shared mapping shows and changes.\<close>

record host =
  h_open :: "string \<Rightarrow> int"
  h_fstat :: "int \<Rightarrow> int option"
  h_mmap :: "int \<Rightarrow> u64 \<Rightarrow> u64 option"
  h_file :: "int \<Rightarrow> image"

datatype host_event =
    Perror string
  | Stderr string
  | Close int
  | Munmap u64 u64

text \<open>The part of \<open>map_file\<close> between \<open>open\<close> and \<open>close\<close>: the address, the mapped image and the
  size, or \<open>None\<close> for \<open>NULL\<close>.\<close>

definition map_fd :: "host \<Rightarrow> int \<Rightarrow> u64 \<Rightarrow> (host_event list \<times> (u64 \<times> image \<times> u64) option) option" where
  "map_fd os fd block_size = (case h_fstat os fd of
     None \<Rightarrow> Some ([Perror ''fstat''], None)
   | Some sz \<Rightarrow>
       if sz = 0 then Some ([Stderr ''Image file is empty''], None)
       else if block_size = 0 then None
       else if word_of_int sz mod block_size \<noteq> 0
       then Some ([Stderr ''Image file size is not a multiple of block size''], None)
       else (case h_mmap os fd (word_of_int sz) of
           None \<Rightarrow> Some ([Perror ''mmap''], None)
         | Some addr \<Rightarrow> do {
             aligned \<leftarrow> is_aligned addr block_size;
             (if aligned then Some () else None);
             Some ([], if addr = 0 then None else Some (addr, h_file os fd, word_of_int sz))
           }))"

definition map_file :: "host \<Rightarrow> string \<Rightarrow> u64 \<Rightarrow> (host_event list \<times> (u64 \<times> image \<times> u64) option) option" where
  "map_file os path block_size = (let fd = h_open os path in
     if fd < 0 then Some ([Perror path], None)
     else do {
       (ev, m) \<leftarrow> map_fd os fd block_size;
       Some (ev @ [Close fd], m)
     })"

section \<open>The formatting program\<close>

text \<open>The loop over the results of \<open>getopt\<close> (the option and \<open>optarg\<close>) before it returns -1:
  \<open>None\<close> inside when it falls through to the rest of \<open>parse_args\<close>.\<close>

fun parse_options :: "(string \<Rightarrow> u64) \<Rightarrow> (char \<times> string) list \<Rightarrow> mkfs_opts \<Rightarrow> (bool option \<times> mkfs_opts) option" where
  "parse_options strtoul [] opts = Some (None, opts)"
| "parse_options strtoul ((o', optarg) # rest) opts =
     (if o' = CHR ''i'' then parse_options strtoul rest (opts\<lparr>n_inodes := strtoul optarg\<rparr>)
      else if o' = CHR ''h'' then Some (Some True, opts\<lparr>opt_help := True\<rparr>)
      else if o' = CHR ''f'' then parse_options strtoul rest (opts\<lparr>opt_force := True\<rparr>)
      else if o' = CHR ''z'' then parse_options strtoul rest (opts\<lparr>opt_zero := True\<rparr>)
      else if o' = CHR ''?'' then Some (Some False, opts)
      else None)"

text \<open>\<open>argv\<close> is as \<open>getopt\<close> leaves it, \<open>optind\<close> the index of its first operand.\<close>

definition parse_args :: "(string \<Rightarrow> u64) \<Rightarrow> (char \<times> string) list \<Rightarrow> nat \<Rightarrow> string list \<Rightarrow> mkfs_opts \<Rightarrow> (bool \<times> mkfs_opts) option" where
  "parse_args strtoul parsed optind argv opts = do {
     (r, opts1) \<leftarrow> parse_options strtoul parsed opts;
     case r of
       Some b \<Rightarrow> Some (b, opts1)
     | None \<Rightarrow>
         if length argv \<le> optind then Some (False, opts1)
         else (let opts2 = opts1\<lparr>opt_img_path := Some (argv ! optind)\<rparr>
               in Some (n_inodes opts2 \<noteq> 0, opts2))
   }"

definition mkfs_no_opts :: mkfs_opts where
  "mkfs_no_opts = \<lparr>opt_img_path = None, n_inodes = 0, opt_help = False, opt_force = False, opt_zero = False\<rparr>"

text \<open>The exit status, the events and the contents of the mapping when there is one.\<close>

definition mkfs_program :: "host \<Rightarrow> (string \<Rightarrow> u64) \<Rightarrow> (char \<times> string) list \<Rightarrow> nat \<Rightarrow> string list \<Rightarrow> u32 \<Rightarrow> u32 \<Rightarrow>
    (int \<times> host_event list \<times> image option) option" where
  "mkfs_program os strtoul parsed optind argv pad ipad = do {
     (ok, opts) \<leftarrow> parse_args strtoul parsed optind argv mkfs_no_opts;
     if \<not> ok then Some (1, [], None)
     else if opt_help opts then Some (0, [], None)
     else do {
       path \<leftarrow> opt_img_path opts;
       (ev, m) \<leftarrow> map_file os path 4096;
       case m of
         None \<Rightarrow> Some (1, ev, None)
       | Some (addr, img, sz) \<Rightarrow> do {
           (ret, img') \<leftarrow> mkfs_main img sz opts pad ipad;
           Some (ret, ev @ [Munmap addr sz], Some img')
         }
     }
   }"

section \<open>Options of the mounting program\<close>

record a1fs_opts =
  img_path :: "string option"
  opts_help :: int

abbreviation (input) FUSE_OPT_KEY_NONOPT :: int where "FUSE_OPT_KEY_NONOPT \<equiv> - 2"

definition opt_spec :: "(string \<times> (a1fs_opts \<Rightarrow> a1fs_opts)) list" where
  "opt_spec = [(''-h'', opts_help_update (\<lambda>_. 1)), (''--help'', opts_help_update (\<lambda>_. 1))]"

text \<open>The callback of \<open>fuse_opt_parse\<close>; \<open>strdup\<close> may fail.\<close>

definition opt_proc :: "(string \<Rightarrow> string option) \<Rightarrow> a1fs_opts \<Rightarrow> string \<Rightarrow> int \<Rightarrow> int \<times> a1fs_opts" where
  "opt_proc strdup opts arg key =
     (if key = FUSE_OPT_KEY_NONOPT \<and> img_path opts = None then (0, opts\<lparr>img_path := strdup arg\<rparr>)
      else (1, opts))"

text \<open>\<open>parse\<close> is \<open>fuse_opt_parse\<close> with the callback, the specification, the arguments and the
  options; \<open>add_arg\<close> is \<open>fuse_opt_add_arg\<close>.\<close>

type_synonym fuse_opt_parse =
  "(a1fs_opts \<Rightarrow> string \<Rightarrow> int \<Rightarrow> int \<times> a1fs_opts) \<Rightarrow> (string \<times> (a1fs_opts \<Rightarrow> a1fs_opts)) list \<Rightarrow>
     string list \<Rightarrow> a1fs_opts \<Rightarrow> int \<times> string list \<times> a1fs_opts"

definition a1fs_opt_parse :: "fuse_opt_parse \<Rightarrow> (string list \<Rightarrow> string \<Rightarrow> string list) \<Rightarrow> (string \<Rightarrow> string option) \<Rightarrow>
    string list \<Rightarrow> a1fs_opts \<Rightarrow> bool \<times> string list \<times> a1fs_opts" where
  "a1fs_opt_parse parse add_arg strdup args opts =
     (let (ret, args1, opts1) = parse (opt_proc strdup) opt_spec args opts in
      if ret \<noteq> 0 then (False, args1, opts1)
      else let args2 = (if opts_help opts1 \<noteq> 0 then add_arg args1 ''-ho'' else args1) in
      if opts_help opts1 = 0 \<and> img_path opts1 = None then (False, args2, opts1)
      else (True, foldl add_arg args2 [''-s'', ''-o'', ''max_read=4096'', ''-o'', ''max_write=4096''], opts1))"

section \<open>Mounting\<close>

text \<open>The context with the address of the mapping; \<open>None\<close> when it is all zero.\<close>

type_synonym mounted = "(u64 \<times> fs_ctx) option"

definition fs_ctx_init :: "u64 \<Rightarrow> image \<Rightarrow> u64 \<Rightarrow> bool \<times> mounted" where
  "fs_ctx_init addr img sz = (True, Some (addr, \<lparr>fs_image = img, fs_size = sz\<rparr>))"

definition a1fs_init :: "host \<Rightarrow> mounted \<Rightarrow> a1fs_opts \<Rightarrow> (bool \<times> mounted \<times> host_event list) option" where
  "a1fs_init os fs opts =
     (if opts_help opts \<noteq> 0 then Some (True, fs, [])
      else do {
        path \<leftarrow> img_path opts;
        (ev, m) \<leftarrow> map_file os path 4096;
        case m of
          None \<Rightarrow> Some (False, fs, ev)
        | Some (addr, img, sz) \<Rightarrow> (let (r, fs') = fs_ctx_init addr img sz in Some (r, fs', ev))
      })"

definition fs_ctx_destroy :: "mounted \<Rightarrow> mounted" where
  "fs_ctx_destroy fs = fs"

definition a1fs_destroy :: "mounted \<Rightarrow> host_event list \<times> mounted" where
  "a1fs_destroy fs = (case fs of
     None \<Rightarrow> ([], fs)
   | Some (addr, ctx) \<Rightarrow> ([Munmap addr (fs_size ctx)], fs_ctx_destroy fs))"

text \<open>\<open>fuse\<close> is \<open>fuse_main\<close> with the operations of \<open>a1fs_ops\<close>.\<close>

definition a1fs_main :: "host \<Rightarrow> fuse_opt_parse \<Rightarrow> (string list \<Rightarrow> string \<Rightarrow> string list) \<Rightarrow> (string \<Rightarrow> string option) \<Rightarrow>
    (string list \<Rightarrow> mounted \<Rightarrow> int) \<Rightarrow> string list \<Rightarrow> (int \<times> host_event list) option" where
  "a1fs_main os parse add_arg strdup fuse argv =
     (case a1fs_opt_parse parse add_arg strdup argv \<lparr>img_path = None, opts_help = 0\<rparr> of
       (ok, args, opts) \<Rightarrow>
         if \<not> ok then Some (1, [])
         else do {
           (ok', fs, ev) \<leftarrow> a1fs_init os None opts;
           if \<not> ok' then Some (1, ev @ [Stderr ''Failed to mount the file system''])
           else Some (fuse args fs, ev)
         })"

section \<open>What libfuse documents\<close>

text \<open>Arguments that are not options are handed to the callback one after the other and kept when
  it returns 1.\<close>

fun pass_args :: "('o \<Rightarrow> string \<Rightarrow> int \<Rightarrow> int \<times> 'o) \<Rightarrow> string list \<Rightarrow> string list \<Rightarrow> 'o \<Rightarrow> int \<times> string list \<times> 'o" where
  "pass_args proc kept [] opts = (0, kept, opts)"
| "pass_args proc kept (a # args) opts = (case proc opts a FUSE_OPT_KEY_NONOPT of
     (r, opts') \<Rightarrow>
       if r = -1 then (-1, kept @ a # args, opts')
       else pass_args proc (if r = 0 then kept else kept @ [a]) args opts')"

definition plain :: "string \<Rightarrow> bool" where
  "plain a \<longleftrightarrow> a \<noteq> [] \<and> hd a \<noteq> CHR ''-''"

definition passes_plain_args :: "fuse_opt_parse \<Rightarrow> bool" where
  "passes_plain_args parse \<longleftrightarrow> (\<forall>proc spec prog args opts. list_all plain args \<longrightarrow>
     parse proc spec (prog # args) opts = pass_args proc [prog] args opts)"

section \<open>Steps\<close>

lemma is_aligned_4096: "is_aligned x 4096 = Some (4096 dvd unat x)"
  using is_aligned_pow [of 12 x] by simp

text \<open>A file whose size is a multiple of the block size, and the host maps it at \<open>addr\<close>.\<close>

definition mappable :: "host \<Rightarrow> string \<Rightarrow> int \<Rightarrow> u64 \<Rightarrow> u64 \<Rightarrow> bool" where
  "mappable os path fd addr sz \<longleftrightarrow> h_open os path = fd \<and> 0 \<le> fd \<and>
     h_fstat os fd = Some (int (unat sz)) \<and> sz \<noteq> 0 \<and> sz mod 4096 = 0 \<and>
     h_mmap os fd sz = Some addr \<and> addr \<noteq> 0 \<and> 4096 dvd unat addr \<and> img_size (h_file os fd) = unat sz"

lemma map_file_ok:
  assumes "mappable os path fd addr sz"
  shows "map_file os path 4096 = Some ([Close fd], Some (addr, h_file os fd, sz))"
proof -
  have "uint sz \<noteq> 0" using assms by (simp add: mappable_def uint_0_iff)
  then show ?thesis
    using assms by (simp add: mappable_def map_file_def map_fd_def is_aligned_4096 Let_def)
qed

lemma mappable_update:
  "mappable os path fd addr sz \<Longrightarrow> img_size img = unat sz \<Longrightarrow>
     mappable (os\<lparr>h_file := (h_file os)(fd := img)\<rparr>) path fd addr sz"
  by (simp add: mappable_def)


section \<open>Properties\<close>

text \<open>\<open>map_file\<close> with a block size that is a power of two.  When it returns, a file that was
  opened has been closed again, once and at the end.  It either returns a mapping, without a
  message, at an aligned address that is not \<open>NULL\<close>, of a file whose size is the size reported,
  not zero and a multiple of the block size; or \<open>NULL\<close>, after exactly one message unless the
  host maps the file at address 0.\<close>

lemma map_file_checked:
  assumes k: "k < 64" and call: "map_file os path (2 ^ k) = Some (ev, m)"
  shows "\<exists>msgs. ev = msgs @ (if h_open os path < 0 then [] else [Close (h_open os path)]) \<and>
    (\<forall>f. Close f \<notin> set msgs) \<and>
    (case m of
       Some (addr, img, sz) \<Rightarrow> msgs = [] \<and> 0 \<le> h_open os path \<and> addr \<noteq> 0 \<and> 2 ^ k dvd unat addr \<and> 2 ^ k dvd unat sz \<and>
         img = h_file os (h_open os path) \<and>
         (\<exists>len. h_fstat os (h_open os path) = Some len \<and> len \<noteq> 0 \<and> sz = word_of_int len)
     | None \<Rightarrow> length msgs = 1 \<or> msgs = [] \<and> (\<exists>sz. h_mmap os (h_open os path) sz = Some 0))"
proof (cases "h_open os path < 0")
  case True
  with call show ?thesis by (auto simp: map_file_def)
next
  case False
  have unat_k: "unat (2 ^ k :: u64) = 2 ^ k" using unat_of_nat_u64 [OF power_strict_increasing [OF k]] by simp
  then have k0: "(2 ^ k :: u64) \<noteq> 0" by (metis power_not_zero unsigned_0 zero_neq_numeral)
  have dvd: "2 ^ k dvd unat sz" if "sz mod 2 ^ k = 0" for sz :: u64
  proof -
    have "unat sz mod 2 ^ k = 0" unfolding unat_k [symmetric] unat_mod [symmetric] that by (rule unsigned_0)
    then show ?thesis by (rule mod_0_imp_dvd)
  qed
  obtain msgs where m: "map_fd os (h_open os path) (2 ^ k) = Some (msgs, m)" "ev = msgs @ [Close (h_open os path)]"
    using call False by (auto simp: map_file_def Let_def bind_eq_Some_conv)
  show ?thesis
    using m False k0 dvd is_aligned_pow [OF k]
    by (auto simp: map_fd_def bind_eq_Some_conv split: option.splits if_splits del: mod_0_imp_dvd)
qed

text \<open>C34. Formatting and then mounting a file (composition of both programs), for a host that maps
  the file, an image with room for the metadata, and libfuse's documented handling of
  arguments that are not options.  \<open>mkfs -i num -f path\<close> exits with status 0 after closing and
  unmapping the file.  Mounting what it leaves in the file then runs FUSE on a context that
  holds exactly that image and its size, single-threaded and with reads and writes of at most
  4096 bytes, and with the mount point as the only argument left.  The image is a well-formed
  file system that contains the root directory only.\<close>

theorem mkfs_then_mount:
  assumes host: "mappable os path fd addr sz"
    and room: "strtoul num \<noteq> 0" "fits (h_file os fd) (unat (strtoul num))"
    and argv: "optind < length argv" "argv ! optind = path"
    and libfuse: "passes_plain_args parse" "add_arg = (\<lambda>args a. args @ [a])" "strdup path = Some path"
    and plain: "plain path" "plain mnt"
  shows "\<exists>img. mkfs_program os strtoul [(CHR ''i'', num), (CHR ''f'', [])] optind argv pad ipad =
      Some (0, [Close fd, Munmap addr sz], Some img) \<and>
    fs_ok img (unat (strtoul num)) root_tree (\<lambda>_. 0) \<and>
    a1fs_main (os\<lparr>h_file := (h_file os)(fd := img)\<rparr>) parse add_arg strdup fuse [prog, path, mnt] =
      Some (fuse [prog, mnt, ''-s'', ''-o'', ''max_read=4096'', ''-o'', ''max_write=4096'']
              (Some (addr, \<lparr>fs_image = img, fs_size = sz\<rparr>)), [Close fd])"
proof -
  let ?n = "strtoul num"
  define opts where "opts = mkfs_no_opts\<lparr>opt_img_path := Some path, n_inodes := ?n, opt_force := True\<rparr>"
  have opts: "parse_args strtoul [(CHR ''i'', num), (CHR ''f'', [])] optind argv mkfs_no_opts = Some (True, opts)"
    using argv room(1) by (simp add: parse_args_def mkfs_no_opts_def opts_def)
  have o: "n_inodes opts = ?n" "opt_img_path opts = Some path" "opt_force opts" "\<not> opt_help opts"
    by (simp_all add: opts_def mkfs_no_opts_def)
  have size: "unat sz = img_size (h_file os fd)" using host by (simp add: mappable_def)
  obtain img where img: "mkfs_main (h_file os fd) sz opts pad ipad = Some (0, img)" "img_size img = img_size (h_file os fd)"
    "geometry img (unat ?n)" "formatted img (unat ?n) (mkfs_sb sz ?n) pad ipad"
    using mkfs_main_effect [of "h_file os fd" opts sz pad ipad] room size o by auto
  have "mkfs_program os strtoul [(CHR ''i'', num), (CHR ''f'', [])] optind argv pad ipad =
      Some (0, [Close fd, Munmap addr sz], Some img)"
    using opts o img(1) map_file_ok [OF host] by (simp add: mkfs_program_def)
  moreover have "a1fs_opt_parse parse add_arg strdup [prog, path, mnt] \<lparr>img_path = None, opts_help = 0\<rparr> =
      (True, [prog, mnt, ''-s'', ''-o'', ''max_read=4096'', ''-o'', ''max_write=4096''], \<lparr>img_path = Some path, opts_help = 0\<rparr>)"
    using libfuse plain by (simp add: a1fs_opt_parse_def passes_plain_args_def opt_proc_def)
  ultimately show ?thesis
    using formatted_fs_ok [OF img(4,3)] map_file_ok [OF mappable_update [OF host, of img]] img(2) size
    by (simp add: a1fs_main_def a1fs_init_def fs_ctx_init_def)
qed

section \<open>A host with one file\<close>

text \<open>A version of \<open>fuse_opt_parse\<close> that looks options up in the specification and hands the others
  to the callback.\<close>

fun parse_each :: "(a1fs_opts \<Rightarrow> string \<Rightarrow> int \<Rightarrow> int \<times> a1fs_opts) \<Rightarrow> (string \<times> (a1fs_opts \<Rightarrow> a1fs_opts)) list \<Rightarrow>
    string list \<Rightarrow> string list \<Rightarrow> a1fs_opts \<Rightarrow> int \<times> string list \<times> a1fs_opts" where
  "parse_each proc spec kept [] opts = (0, kept, opts)"
| "parse_each proc spec kept (a # args) opts =
     (if plain a then
        (case proc opts a (-2) of (r, opts') \<Rightarrow>
           if r = -1 then (-1, kept @ a # args, opts')
           else parse_each proc spec (if r = 0 then kept else kept @ [a]) args opts')
      else case map_of spec a of
        Some f \<Rightarrow> parse_each proc spec kept args (f opts)
      | None \<Rightarrow> (case proc opts a (-1) of (r, opts') \<Rightarrow>
           if r = -1 then (-1, kept @ a # args, opts')
           else parse_each proc spec (if r = 0 then kept else kept @ [a]) args opts'))"

definition demo_parse :: fuse_opt_parse where
  "demo_parse proc spec args opts = parse_each proc spec (take 1 args) (drop 1 args) opts"

lemma demo_parse_plain: "passes_plain_args demo_parse"
proof -
  have "parse_each proc spec kept args opts = pass_args proc kept args opts" if "list_all plain args" for proc spec kept args opts
    using that by (induction proc kept args opts rule: pass_args.induct) (auto split: prod.splits)
  then show ?thesis by (simp add: passes_plain_args_def demo_parse_def)
qed

definition demo_host :: host where
  "demo_host = \<lparr>h_open = (\<lambda>p. if p = ''disk'' then 3 else -1), h_fstat = (\<lambda>_. Some 65536),
     h_mmap = (\<lambda>_ _. Some 0x7F0000000000), h_file = (\<lambda>_. demo_disk)\<rparr>"

lemma demo_host: "mappable demo_host ''disk'' 3 0x7F0000000000 65536"
  by (simp add: mappable_def demo_host_def demo_disk_def)

lemma map_file_example:
  "map_file demo_host ''disk'' 4096 = Some ([Close 3], Some (0x7F0000000000, demo_disk, 65536)) \<and>
   4096 dvd unat (0x7F0000000000 :: u64) \<and> 4096 dvd unat (65536 :: u64)"
proof -
  have call: "map_file demo_host ''disk'' (2 ^ 12) = Some ([Close 3], Some (0x7F0000000000, demo_disk, 65536))"
    using map_file_ok [OF demo_host] by (simp add: demo_host_def)
  from map_file_checked [OF _ this] call show ?thesis by simp
qed

theorem mkfs_then_mount_witness:
  "\<exists>img. mkfs_program demo_host (\<lambda>_. 4) [(CHR ''i'', ''4''), (CHR ''f'', [])] 4 [''mkfs'', ''-i'', ''4'', ''-f'', ''disk''] 0 0 =
      Some (0, [Close 3, Munmap 0x7F0000000000 65536], Some img) \<and>
    a1fs_main (demo_host\<lparr>h_file := (h_file demo_host)(3 := img)\<rparr>) demo_parse (\<lambda>args a. args @ [a]) Some (\<lambda>_ _. 0)
      [''a1fs'', ''disk'', ''mnt''] = Some (0, [Close 3])"
proof -
  have "fits (h_file demo_host 3) (unat (4 :: u64))" by (simp add: fits_def lay_defs demo_disk_def demo_host_def)
  then show ?thesis
    using mkfs_then_mount [OF demo_host, of "\<lambda>_. 4" "''4''" 4 "[''mkfs'', ''-i'', ''4'', ''-f'', ''disk'']" demo_parse
        "\<lambda>args a. args @ [a]" Some "''mnt''" 0 0 "\<lambda>_ _. 0" "''a1fs''"] demo_parse_plain
    by (auto simp: plain_def)
qed

end
