(* ===== verification/A1fs_Unlink.thy ===== *)
theory A1fs_Unlink
  imports A1fs_Mkdir A1fs_Data A1fs_Ops
begin

text \<open>
  What removing does in a well-formed file system: the entry disappears from its directory, the
  last entry takes its place, and the bits of the inode and of its blocks are cleared.
\<close>

section \<open>Finding the entry\<close>

lemma str_eq_cstr: "cstr img off k = Some nm \<Longrightarrow> 0 \<notin> set c \<Longrightarrow> str_eq img off c = Some (nm = c)"
proof (induction c arbitrary: off k nm)
  case Nil
  then show ?case by (cases k) (auto simp: bind_eq_Some_conv split: if_splits)
next
  case (Cons a c)
  then obtain k' where k: "k = Suc k'" by (cases k) auto
  then obtain b where b: "rd img off 1 = Some b" using Cons.prems(1) by (auto simp: bind_eq_Some_conv)
  show ?case
  proof (cases "hd b = 0")
    case True
    with Cons.prems k b show ?thesis by auto
  next
    case False
    then obtain rest where rest: "cstr img (off + 1) k' = Some rest" "nm = hd b # rest"
      using Cons.prems(1) k b by (auto simp: bind_eq_Some_conv)
    with Cons.IH [OF rest(1)] Cons.prems(2) b show ?thesis by simp
  qed
qed

lemma remove_slots_at:
  assumes before: "\<And>y. y < x \<Longrightarrow> \<exists>i nm. entry_at img blk y = Some (i, nm) \<and> nm \<noteq> name"
    and here: "entry_at img blk x = Some (i, name)" and name: "0 \<notin> set name" and x: "x < 16"
    and drop: "drop_entry img dir parent e_block num blk (int x) = Some img'"
  shows "k \<le> x \<Longrightarrow> remove_slots img dir parent e_block num name blk (16 - k) = Some (True, img')"
proof (induction "x - k" arbitrary: k)
  case 0
  then have k: "16 - k = Suc (15 - k)" "15 - int (15 - k) = int x" "k = x" using x by auto
  have "cstr img (blk + 256 * int x + 4) A1FS_NAME_MAX = Some name"
    using here by (auto simp: entry_at_def bind_eq_Some_conv)
  then show ?case using str_eq_cstr name drop k by simp
next
  case (Suc d)
  then have k: "16 - k = Suc (15 - k)" "15 - int (15 - k) = int k" "k < x" using x by auto
  obtain i' nm where "entry_at img blk k = Some (i', nm)" "nm \<noteq> name" using before k(3) by blast
  then have "str_eq img (blk + 256 * int k + 4) name = Some False"
    using str_eq_cstr [of img "blk + 256 * int k + 4" A1FS_NAME_MAX nm name] name by (auto simp: entry_at_def bind_eq_Some_conv)
  moreover have "remove_slots img dir parent e_block num name blk (15 - k) = Some (True, img')"
    using Suc.hyps(1) [of "Suc k"] Suc.hyps(2) k(3) by simp
  ultimately show ?case by (simp only: k(1,2) remove_slots.simps Option.bind.bind_lunit if_False)
qed

lemma cstr_bounds: "cstr img off k = Some s \<Longrightarrow> length s < k \<and> 0 \<notin> set s"
  by (induction img off k arbitrary: s rule: cstr.induct) (auto simp: bind_eq_Some_conv split: if_splits)

section \<open>Dropping the entry\<close>

lemma dir_at:
  assumes fs: "fs_ok img n tree blk" and p: "tree p = Some es"
  shows "i_size img (ino_at n p) = Some (256 * of_nat (length es))" "i_number img (ino_at n p) = Some p"
    "i_extents img (ino_at n p) = Some 1" "ld32 img (ext_at n p) = Some (word_of_int (blk p))" "ld32 img (ext_at n p + 4) = Some 1"
    "\<And>x. x < length es \<Longrightarrow> entry_at img (dat_at n (blk p)) x = Some (es ! x)"
    "extent_at img (ext_at n p) 0 = Some (word_of_int (blk p), 1)" "sint (word_of_int (blk p) :: u32) = blk p"
    "dat_ok img n (blk p)" "geometry img n" "is_dir img (ino_at n p) = Some True"
proof -
  have ok: "dir_ok img n tree blk p es" using fs_okD [OF fs p] .
  show g: "geometry img n" using fs by (simp add: fs_ok_def)
  have r: "0 \<le> p" "p < int n" "dat_ok img n (blk p)" "dir_block img p (blk p) es" using ok by (simp_all add: dir_ok_def)
  show "is_dir img (ino_at n p) = Some True" using ok by (simp add: dir_ok_def)
  note d = r(4) [unfolded dir_block_at [OF g r(1-3)]]
  show "i_size img (ino_at n p) = Some (256 * of_nat (length es))" "i_number img (ino_at n p) = Some p"
    "i_extents img (ino_at n p) = Some 1" "ld32 img (ext_at n p) = Some (word_of_int (blk p))" "ld32 img (ext_at n p + 4) = Some 1"
    "\<And>x. x < length es \<Longrightarrow> entry_at img (dat_at n (blk p)) x = Some (es ! x)"
    using d by simp_all
  then show "extent_at img (ext_at n p) 0 = Some (word_of_int (blk p), 1)" by (simp add: extent_at_def)
  show "dat_ok img n (blk p)" by (rule r(3))
  have "0 \<le> lay_data n" by (simp add: lay_defs)
  then have "0 \<le> blk p" "blk p \<le> 2147483647" using r(3) by (simp_all add: dat_ok_def dat_at_def)
  then show "sint (word_of_int (blk p) :: u32) = blk p" by (rule sint_word_of_int)
qed

lemma last_ptr_ok:
  assumes fs: "fs_ok img n tree blk" and p: "tree p = Some es"
  shows "last_ptr img (ino_at n p) (ext_at n p) k = Some (dat_at n (blk p) + (k - 1) * 256)"
proof -
  note d = dir_at [OF fs p]
  have b: "0 \<le> dat_at n (blk p)" "dat_at n (blk p) \<le> 2147483647"
    using d(9) by (simp_all add: dat_ok_def dat_at_def lay_defs)
  have "(word_of_int (lay_data n) + word_of_int (blk p) + 1 - 1) * (4096 :: u32) = word_of_int (dat_at n (blk p))"
    by (simp add: dat_at_def)
  moreover have "uint (word_of_int (dat_at n (blk p)) :: u32) = dat_at n (blk p)"
    using b by (simp add: uint_word_of_int)
  ultimately show ?thesis
    using d(3,7,10) by (simp add: last_ptr_def geometry_def cint_def int_ok_def)
qed

text \<open>The entry in a slot is overwritten with the last one.\<close>

lemma move_last:
  assumes fs: "fs_ok img n tree blk" and p: "tree p = Some es" "length es < 16" and x: "x < length es" "x \<noteq> length es - 1"
  defines "e \<equiv> dat_at n (blk p) + 256 * int x" and "src \<equiv> dat_at n (blk p) + (int (length es) - 1) * 256"
  shows "\<exists>name i1 ino i2. cstr img (src + 4) A1FS_NAME_MAX = Some name \<and> put_str A1FS_NAME_MAX img (e + 4) name = Some i1 \<and>
    ld32 i1 src = Some ino \<and> st32 i1 e ino = Some i2 \<and> changed img i2 [(e, 256)] \<and>
    (\<forall>y < length es - 1. entry_at i2 (dat_at n (blk p)) y = Some (es[x := last es] ! y))"
proof -
  note d = dir_at [OF fs p(1)]
  have le: "dat_at n (blk p) + 4096 \<le> int (img_size img)" "0 \<le> dat_at n (blk p)"
    using d(9) by (simp_all add: dat_ok_def dat_at_def lay_defs)
  have src: "src = dat_at n (blk p) + 256 * int (length es - 1)" "e + 256 \<le> src" "src + 256 \<le> dat_at n (blk p) + 4096"
    "0 \<le> e" "e + 256 \<le> int (img_size img)"
    using x p(2) le by (simp_all add: src_def e_def)
  obtain i nm where inm: "last es = (i, nm)" by fastforce
  have "entry_at img (dat_at n (blk p)) (length es - 1) = Some (i, nm)"
    using d(6) [of "length es - 1"] x(1) inm last_conv_nth [of es] by fastforce
  then have en: "ldi img src = Some i" "cstr img (src + 4) A1FS_NAME_MAX = Some nm"
    using src(1) by (auto simp: entry_at_def bind_eq_Some_conv)
  obtain ino where ino: "ld32 img src = Some ino" "sint ino = i" using en(1) by (auto simp: ldi_def)
  have nm: "length nm < A1FS_NAME_MAX" "0 \<notin> set nm" using cstr_bounds [OF en(2)] by auto
  obtain i1 where 1: "put_str A1FS_NAME_MAX img (e + 4) nm = Some i1" "changed img i1 [(e + 4, length nm + 1)]"
  proof -
    have "0 \<le> e + 4" "e + 4 + int (length nm + 1) \<le> int (img_size img)" using nm(1) src(4,5) by (simp_all add: A1FS_NAME_MAX_def)
    then show thesis using text_field.st_effect [of "e + 4" nm img A1FS_NAME_MAX] nm(1) that by blast
  qed
  have "ld32 i1 src = Some ino"
    using ino(1) agrees_ld32 [OF changed_agrees [OF 1(2), of src 4]] src nm by (simp add: apart_def A1FS_NAME_MAX_def)
  moreover obtain i2 where 2: "st32 i1 e ino = Some i2" "changed i1 i2 [(e, 4)]" "ld32 i2 e = Some ino"
    using f32.field_effect [of e i1 ino] src(4,5) changed_size [OF 1(2)] by auto
  moreover have c: "changed img i2 [(e, 256)]"
    by (rule changed_merge [OF changed_trans [OF 1(2) 2(2)]]) (use nm in \<open>simp add: A1FS_NAME_MAX_def\<close>)
  moreover have "entry_at i2 (dat_at n (blk p)) y = Some (es[x := last es] ! y)" if "y < length es - 1" for y
  proof (cases "y = x")
    case True
    have "cstr i2 (e + 4) A1FS_NAME_MAX = Some nm"
      using cstr_put_str [OF 1(1) nm(2)] agrees_cstr [OF changed_agrees [OF 2(2), of "e + 4" 252], of "e + 4" A1FS_NAME_MAX]
      by (simp add: apart_def A1FS_NAME_MAX_def)
    then show ?thesis using 2(3) ino(2) inm True x(1) by (simp add: entry_at_def ldi_def e_def)
  next
    case False
    have "entry_at i2 (dat_at n (blk p)) y = entry_at img (dat_at n (blk p)) y"
      by (rule entry_at_agrees, rule changed_agrees [OF c]) (use False in \<open>auto simp: apart_def e_def\<close>)
    then show ?thesis using d(6) [of y] that False by simp
  qed
  ultimately show ?thesis using en(2) 1(1) by blast
qed

lemma drop_entry_ok:
  assumes fs: "fs_ok img n tree blk" and p: "tree p = Some es" "length es < 16" and x: "x < length es"
    and l: "i_links img (ino_at n p) = Some l"
  shows "\<exists>img'. drop_entry img dir (ino_at n p) (ext_at n p) (int (length es)) (dat_at n (blk p)) (int x) = Some img' \<and>
    changed img img' [(dat_at n (blk p) + 256 * int x, 256), (ino_at n p + 4, 12)] \<and>
    i_size img' (ino_at n p) = Some (256 * of_nat (length es - 1)) \<and>
    i_links img' (ino_at n p) = Some (if dir then l - 1 else l) \<and>
    (\<forall>y < length es - 1. entry_at img' (dat_at n (blk p)) y = Some (es[x := last es] ! y))"
proof -
  let ?r = "ino_at n p" and ?b = "dat_at n (blk p)" and ?e = "dat_at n (blk p) + 256 * int x"
  note d = dir_at [OF fs p(1)]
  note o = dir_regions [OF fs p(1)]
  let ?move = "if int x = int (length es) - 1 then Some img
       else do {
         lastdr \<leftarrow> last_ptr img ?r (ext_at n p) (int (length es));
         name \<leftarrow> cstr img (lastdr + 4) A1FS_NAME_MAX;
         i1 \<leftarrow> put_str A1FS_NAME_MAX img (?e + 4) name;
         ino \<leftarrow> ld32 i1 lastdr;
         st32 i1 ?e ino
       }"
  obtain i1 where 1: "?move = Some i1" "changed img i1 [(?e, 256)]"
    "\<forall>y < length es - 1. entry_at i1 ?b y = Some (es[x := last es] ! y)"
  proof (cases "x = length es - 1")
    case True
    have "entry_at img ?b y = Some (es[x := last es] ! y)" if "y < length es - 1" for y using d(6) [of y] that True by simp
    with True x that [of img] show ?thesis by (auto simp: changed_def)
  next
    case False
    then have "int x \<noteq> int (length es) - 1" by linarith
    with move_last [OF fs p x False] last_ptr_ok [OF fs p(1)] that show ?thesis by auto
  qed
  have a: "agrees img i1 ?r 64" using o by (intro changed_agrees [OF 1(2)]) (simp add: apart_def)
  have sz: "i_size i1 ?r = Some (256 * of_nat (length es))" using d(1) agrees_ld64 [OF a] by (simp add: inode_access)
  have l1: "i_links i1 ?r = Some l" using l agrees_ld32 [OF a] by (simp add: inode_access)
  obtain k where "length es = Suc k" using x by (cases "length es") simp_all
  then have sub: "256 * of_nat (length es) - 256 = (256 * of_nat (length es - 1) :: u64)" by (simp add: algebra_simps)
  obtain i2 where 2: "st64 i1 (?r + 8) (256 * of_nat (length es - 1)) = Some i2" "changed i1 i2 [(?r + 8, 8)]"
    "ld64 i2 (?r + 8) = Some (256 * of_nat (length es - 1))"
    using f64.field_effect [of "?r + 8" i1] o changed_size [OF 1(2)] by auto
  have l2: "i_links i2 ?r = Some l"
    using l1 agrees_ld32 [OF changed_agrees [OF 2(2), of "?r + 4" 4]] by (simp add: inode_access apart_def)
  obtain j where 3: "st32 i2 (?r + 4) (l - 1) = Some j" "changed i2 j [(?r + 4, 4)]" "ld32 j (?r + 4) = Some (l - 1)"
    using f32.field_effect [of "?r + 4" i2 "l - 1"] o changed_size [OF 1(2)] changed_size [OF 2(2)] by auto
  define i3 where "i3 = (if dir then j else i2)"
  have c3: "changed i1 i3 [(?r + 4, 12)]"
    using changed_merge [OF 2(2), of "?r + 4" 12] changed_merge [OF changed_trans [OF 2(2) 3(2)], of "?r + 4" 12] by (simp add: i3_def)
  have "i_size i3 ?r = Some (256 * of_nat (length es - 1))"
    using 2(3) agrees_ld64 [OF changed_agrees [OF 3(2), of "?r + 8" 8]] by (simp add: inode_access apart_def i3_def)
  moreover have "i_links i3 ?r = Some (if dir then l - 1 else l)" using l2 3(3) by (simp add: inode_access i3_def)
  moreover have "entry_at i3 ?b y = Some (es[x := last es] ! y)" if "y < length es - 1" for y
  proof -
    have "agrees i1 i3 (?b + 256 * int y) 256" using o by (intro changed_agrees [OF c3]) (simp add: apart_def)
    with 1(3) that show ?thesis by (simp add: entry_at_agrees)
  qed
  moreover have "drop_entry img dir ?r (ext_at n p) (int (length es)) ?b (int x) = Some i3"
    unfolding drop_entry_def 1(1) using sz sub 2(1) l2 3(1) by (simp add: i3_def)
  ultimately show ?thesis using changed_trans [OF 1(2) c3] by auto
qed

lemma remove_extents_ok:
  assumes fs: "fs_ok img n tree blk" and p: "tree p = Some es" "length es < 16"
    and x: "x < length es" "es ! x = (i, name)" "name \<notin> snd ` set (take x es)" and l: "i_links img (ino_at n p) = Some l"
  shows "\<exists>img'. remove_extents img dir (ino_at n p) (ext_at n p) (int (length es)) name 0 1 = Some img' \<and>
    changed img img' [(dat_at n (blk p) + 256 * int x, 256), (ino_at n p + 4, 12)] \<and>
    i_size img' (ino_at n p) = Some (256 * of_nat (length es - 1)) \<and>
    i_links img' (ino_at n p) = Some (if dir then l - 1 else l) \<and>
    (\<forall>y < length es - 1. entry_at img' (dat_at n (blk p)) y = Some (es[x := last es] ! y))"
proof -
  note d = dir_at [OF fs p(1)]
  obtain img' where img': "drop_entry img dir (ino_at n p) (ext_at n p) (int (length es)) (dat_at n (blk p)) (int x) = Some img'"
    "changed img img' [(dat_at n (blk p) + 256 * int x, 256), (ino_at n p + 4, 12)]"
    "i_size img' (ino_at n p) = Some (256 * of_nat (length es - 1))"
    "i_links img' (ino_at n p) = Some (if dir then l - 1 else l)"
    "\<forall>y < length es - 1. entry_at img' (dat_at n (blk p)) y = Some (es[x := last es] ! y)"
    using drop_entry_ok [OF fs p x(1) l] by blast
  have here: "entry_at img (dat_at n (blk p)) x = Some (i, name)" using d(6) [OF x(1)] x(2) by simp
  then have "0 \<notin> set name" using cstr_bounds by (auto simp: entry_at_def bind_eq_Some_conv)
  moreover have "\<exists>i nm. entry_at img (dat_at n (blk p)) y = Some (i, nm) \<and> nm \<noteq> name" if "y < x" for y
  proof -
    have "es ! y \<in> set (take x es)" using that x(1) by (auto simp: in_set_conv_nth intro!: exI [of _ y])
    then have "snd (es ! y) \<noteq> name" using x(3) by blast
    then show ?thesis using d(6) [of y] that x(1) by (cases "es ! y") auto
  qed
  ultimately have "remove_slots img dir (ino_at n p) (ext_at n p) (int (length es)) name (dat_at n (blk p)) 16 = Some (True, img')"
    using remove_slots_at [OF _ here _ _ img'(1), of 0] x(1) p(2) by simp
  moreover have "int_ok (1 + blk p)"
    using d(9) by (simp add: dat_ok_def dat_at_def lay_defs int_ok_def)
  ultimately have "remove_extents img dir (ino_at n p) (ext_at n p) (int (length es)) name 0 1 = Some img'"
    using d(7,8) geometry_at(3) [OF d(10,9)] by (simp add: cint_ok)
  with img'(2-5) show ?thesis by blast
qed

section \<open>The tree without the entry\<close>

text \<open>The directory \<open>p\<close> gets the entries \<open>es'\<close>, all of which it had before, and a directory \<open>d\<close> that
  nothing else refers to may go.\<close>

lemma fs_ok_shrink:
  assumes fs: "fs_ok img n tree blk" and p: "tree p = Some es" "p \<notin> D" and D: "0 \<notin> D"
    and sub: "set es' \<subseteq> set es" "length es' \<le> length es"
    and free: "\<And>c ec. tree c = Some ec \<Longrightarrow> c \<notin> D \<Longrightarrow> c \<noteq> p \<Longrightarrow> fst ` set ec \<inter> D = {}" "fst ` set es' \<inter> D = {}"
    and c: "changed img img' [(dat_at n (blk p), 4096), (ino_at n p + 4, 12)]"
    and size: "i_size img' (ino_at n p) = Some (256 * of_nat (length es'))"
    and entries: "\<And>y. y < length es' \<Longrightarrow> entry_at img' (dat_at n (blk p)) y = Some (es' ! y)"
  shows "fs_ok img' n ((tree |` (- D))(p \<mapsto> es')) blk"
proof -
  let ?tree = "(tree |` (- D))(p \<mapsto> es')"
  note o = dir_regions [OF fs p(1)] and dp = dir_at [OF fs p(1)]
  have g': "geometry img' n"
    using geometry_agrees [OF dp(10) changed_agrees [OF c] changed_size [OF c]] o by (simp add: apart_def)
  have dom: "dom ?tree = dom tree - D" using p by auto
  have mode: "is_dir img' (ino_at n i) = is_dir img (ino_at n i)" if "0 \<le> i" "i < int n" for i
  proof -
    have "agrees img img' (ino_at n i) 4"
      using region_order(1) [OF that] region_apart(1) [of i p n] o
      by (intro changed_agrees [OF c]) (cases "i = p"; auto simp: apart_def)
    then show ?thesis by (rule is_dir_agrees)
  qed
  have kids: "\<forall>i \<in> fst ` set e. 0 \<le> i \<and> i < int n \<and> is_dir img' (ino_at n i) = Some (i \<in> dom ?tree)"
    if "dir_ok img n tree blk d ed" "set e \<subseteq> set ed" "fst ` set e \<inter> D = {}" for d e ed
  proof
    fix i assume i: "i \<in> fst ` set e"
    then have "i \<in> fst ` set ed" "i \<notin> D" using that(2,3) by blast+
    then show "0 \<le> i \<and> i < int n \<and> is_dir img' (ino_at n i) = Some (i \<in> dom ?tree)"
      using that(1) mode [of i] unfolding dir_ok_def dom by auto
  qed
  have "dir_ok img' n ?tree blk d ed'" if t': "?tree d = Some ed'" for d ed'
  proof (cases "d = p")
    case True
    have ok: "dir_ok img n tree blk p es" using fs_okD [OF fs p(1)] .
    then have r: "0 \<le> p" "p < int n" "dat_ok img n (blk p)" by (simp_all add: dir_ok_def)
    have r': "dat_ok img' n (blk p)" using r(3) changed_size [OF c] by (simp add: dat_ok_def)
    have a: "agrees img img' (ino_at n p + 16) 48" "agrees img img' (ext_at n p) 8"
      using o by (intro changed_agrees [OF c]; simp add: apart_def)+
    have "dir_block img' p (blk p) es'"
      unfolding dir_block_at [OF g' r(1,2) r']
      using dp(2-5) size entries sub(2) o(9) agrees_ld32 [OF a(1)] agrees_ld32 [OF a(2)] by (simp add: inode_access ldi_def)
    then show ?thesis
      using True t' r r' mode [OF r(1,2)] dp(11) kids [OF ok sub(1) free(2)] by (simp add: dir_ok_def)
  next
    case False
    then have t: "tree d = Some ed'" "d \<notin> D" using t' by (auto simp: restrict_map_def split: if_splits)
    have ok: "dir_ok img n tree blk d ed'" using fs_okD [OF fs t(1)] .
    then have r: "0 \<le> d" "d < int n" "dat_ok img n (blk d)" "dir_block img d (blk d) ed'" "is_dir img (ino_at n d) = Some True"
      by (simp_all add: dir_ok_def)
    have ne: "blk d \<noteq> blk p" using False fs t(1) p(1) by (auto simp: fs_ok_def dest: inj_onD)
    note od = dir_regions [OF fs t(1)]
    have "agrees img img' (ino_at n d) 64" "agrees img img' (ext_at n d) 8" "agrees img img' (dat_at n (blk d)) (256 * length ed')"
      using region_apart(1) [OF False, of n] region_apart(3) [OF ne, of n] o od
      by (intro changed_agrees [OF c]; auto simp: apart_def)+
    then have "dir_block img' d (blk d) ed'"
      by (rule dir_block_agrees [OF dp(10) g' r(1-3) changed_size [OF c] _ _ _ r(4)])
    then show ?thesis
      using r mode [OF r(1,2)] kids [OF ok order_refl free(1) [OF t False]] changed_size [OF c] by (simp add: dir_ok_def dat_ok_def)
  qed
  moreover have "inj_on blk (dom ?tree)" "0 \<in> dom ?tree" using fs D unfolding dom fs_ok_def by (auto intro: inj_on_subset)
  ultimately show ?thesis using g' by (simp add: fs_ok_def)
qed

lemma restrict_nothing: "m |` (- {}) = m" "m |` UNIV = m"
  by (rule ext, simp add: restrict_map_def)+

lemma fs_ok_links:
  assumes fs: "fs_ok img n tree blk" and p: "tree p = Some es" and c: "changed img img' [(ino_at n p + 4, 4)]"
  shows "fs_ok img' n tree blk"
proof -
  note o = dir_regions [OF fs p] and d = dir_at [OF fs p]
  have c': "changed img img' [(dat_at n (blk p), 4096), (ino_at n p + 4, 12)]"
    using changed_merge [OF c, of "ino_at n p + 4" 12] by (simp add: changed_def)
  have "agrees img img' (ino_at n p + 8) 8" by (intro changed_agrees [OF c]) (simp add: apart_def)
  then have "i_size img' (ino_at n p) = Some (256 * of_nat (length es))" using d(1) by (simp add: inode_access agrees_ld64)
  moreover have "entry_at img' (dat_at n (blk p)) y = Some (es ! y)" if "y < length es" for y
    using entry_at_agrees [OF changed_agrees [OF c], of "dat_at n (blk p)" y] d(6) [OF that] o by (simp add: apart_def)
  ultimately have "fs_ok img' n ((tree |` (- {}))(p \<mapsto> es)) blk"
    using fs_ok_shrink [OF fs p, of "{}" es img'] c' by simp
  then show ?thesis using p by (simp add: restrict_nothing fun_upd_idem)
qed

section \<open>Clearing bits\<close>

lemma modify_map:
  assumes "bm_ok img bm" "i < 32768"
  shows "\<exists>img'. modify img bm (int i) v = Some img' \<and> changed img img' [(bm, 4096)] \<and>
    (\<forall>j < 32768. bm_bit img' bm j = (if j = i then v = 1 else bm_bit img bm j))"
proof -
  obtain img' where img': "modify img bm (int i) v = Some img'"
    "\<forall>j < 32768. bm_bit img' bm j = (if j = i then v = 1 else bm_bit img bm j)"
    using modify_ok [OF assms] by blast
  have "changed img img' [(bm + int (i div 8), 1)]"
    using raw.st_changed img'(1) unfolding modify_byte [OF assms] by fastforce
  then have "changed img img' [(bm, 4096)]" by (rule changed_merge) (use assms(2) in simp)
  with img' show ?thesis by blast
qed

lemma clear_blocks_ok:
  assumes "bm_ok img bm" "48 \<le> bm" "m + k \<le> 32768" "sb_free_blocks img = Some fb"
  shows "\<exists>img'. clear_blocks img counted bm (int m) k = Some img' \<and> changed img img' [(bm, 4096), (44, 4)] \<and>
    (\<forall>j < 32768. bm_bit img' bm j = (bm_bit img bm j \<and> j \<notin> {m..<m + k})) \<and>
    sb_free_blocks img' = Some (if counted then fb + of_nat k else fb)"
  using assms
proof (induction k arbitrary: img m fb)
  case 0
  then show ?case by (auto simp: changed_def)
next
  case (Suc k)
  obtain i1 where 1: "modify img bm (int m) 0 = Some i1" "changed img i1 [(bm, 4096)]"
    "\<forall>j < 32768. bm_bit i1 bm j = (if j = m then (0 :: int) = 1 else bm_bit img bm j)"
    using modify_map [of img bm m 0] Suc.prems(1,3) by auto
  have fb1: "sb_free_blocks i1 = Some fb"
    using Suc.prems(2,4) agrees_ld32 [OF changed_agrees [OF 1(2), of 44 4]] by (simp add: apart_def sb_access)
  have ok1: "bm_ok i1 bm" using Suc.prems(1) changed_size [OF 1(2)] by (simp add: bm_ok_def)
  obtain i2 where 2: "(if counted then do { fb \<leftarrow> sb_free_blocks i1; st32 i1 44 (fb + 1) } else Some i1) = Some i2"
    "changed i1 i2 [(44, 4)]" "sb_free_blocks i2 = Some (if counted then fb + 1 else fb)"
  proof (cases counted)
    case True
    have "44 + 4 \<le> int (img_size i1)" using ok1 Suc.prems(2) unfolding bm_ok_def by linarith
    then obtain i2 where "st32 i1 44 (fb + 1) = Some i2" "changed i1 i2 [(44, 4)]" "ld32 i2 44 = Some (fb + 1)"
      using f32.field_effect [of 44 i1 "fb + 1"] by auto
    with True fb1 that show ?thesis by (simp add: sb_access)
  next
    case False
    with fb1 that [of i1] show ?thesis by (simp add: changed_def)
  qed
  have a2: "agrees i1 i2 bm 4096" using Suc.prems(2) by (intro changed_agrees [OF 2(2)]) (simp add: apart_def)
  have ok2: "bm_ok i2 bm" using ok1 changed_size [OF 2(2)] by (simp add: bm_ok_def)
  obtain i3 where 3: "clear_blocks i2 counted bm (int (Suc m)) k = Some i3" "changed i2 i3 [(bm, 4096), (44, 4)]"
    "\<forall>j < 32768. bm_bit i3 bm j = (bm_bit i2 bm j \<and> j \<notin> {Suc m..<Suc m + k})"
    "sb_free_blocks i3 = Some (if counted then (if counted then fb + 1 else fb) + of_nat k else (if counted then fb + 1 else fb))"
    using Suc.IH [OF ok2 Suc.prems(2) _ 2(3), of "Suc m"] Suc.prems(3) by auto
  have "clear_blocks img counted bm (int m) (Suc k) = Some i3"
    using 1(1) 2(1) 3(1) by (simp add: add.commute)
  moreover have "changed img i3 [(bm, 4096), (44, 4)]"
    using changed_trans [OF changed_trans [OF 1(2) 2(2)] 3(2)] by (simp add: changed_def conj_ac)
  moreover have "bm_bit i3 bm j = (bm_bit img bm j \<and> j \<notin> {m..<m + Suc k})" if "j < 32768" for j
    using 1(3) 3(3) bm_bit_agrees [OF a2 ok1 ok2 that] that by auto
  ultimately show ?case using 3(4) by (auto simp: algebra_simps)
qed

text \<open>The extents of a file and the numbers of its blocks.\<close>

definition file_extents :: "image \<Rightarrow> nat \<Rightarrow> int \<Rightarrow> (nat \<times> nat) list \<Rightarrow> bool" where
  "file_extents img n f exts \<longleftrightarrow> length exts \<le> 512 \<and> i_extents img (ino_at n f) = Some (int (length exts)) \<and>
     (\<forall>i < length exts. extent_at img (ext_at n f) (int i) = Some (of_nat (fst (exts ! i)), of_nat (snd (exts ! i))) \<and>
        fst (exts ! i) + snd (exts ! i) \<le> 32768)"

definition blocks_of :: "(nat \<times> nat) list \<Rightarrow> nat list" where
  "blocks_of exts = concat (map (\<lambda>(s, c). [s..<s + c]) exts)"

lemma file_extents_agrees:
  assumes "file_extents img n f exts" "agrees img img' (ino_at n f + 36) 4" "agrees img img' (ext_at n f) 4096"
  shows "file_extents img' n f exts"
proof -
  have "extent_at img' (ext_at n f) (int i) = extent_at img (ext_at n f) (int i)" if "i < length exts" for i
    using that assms(1) agrees_ld32 [OF assms(3)] by (simp add: extent_at_def file_extents_def)
  then show ?thesis using assms(1) agrees_ld32 [OF assms(2)] by (simp add: file_extents_def inode_access ldi_def)
qed

lemma unlink_extents_ok:
  assumes "geometry img n" "0 \<le> f" "f < int n" "file_extents img n f exts" "sb_free_blocks img = Some fb" "i \<le> length exts"
  shows "\<exists>img'. unlink_extents img f (ino_at n f) (int i) = Some img' \<and>
    changed img img' [((map_blocks n + 1) * 4096, 4096), (44, 4)] \<and>
    (\<forall>j < 32768. bm_bit img' ((map_blocks n + 1) * 4096) j =
      (bm_bit img ((map_blocks n + 1) * 4096) j \<and> j \<notin> set (blocks_of (drop i exts)))) \<and>
    sb_free_blocks img' = Some (fb + of_nat (length (blocks_of (drop i exts))))"
  using assms
proof (induction "length exts - i" arbitrary: img fb i)
  case 0
  then show ?case
    by (intro exI [of _ img]) (simp add: unlink_extents.simps [of img] file_extents_def blocks_of_def changed_def)
next
  case (Suc d)
  let ?bm = "(map_blocks n + 1) * 4096"
  have i: "i < length exts" using Suc.hyps(2) by simp
  obtain s c where sc: "exts ! i = (s, c)" by fastforce
  have e: "i_extents img (ino_at n f) = Some (int (length exts))" "length exts \<le> 512"
    "extent_at img (ext_at n f) (int i) = Some (of_nat s, of_nat c)" "s + c \<le> 32768"
    using Suc.prems(4) i sc by (auto simp: file_extents_def)
  have sint: "sint (of_nat k :: u32) = int k" if "k \<le> 32768" for k
    using sint_word_of_int [of "int k"] that by simp
  have o: "(map_blocks n + 3) * 4096 \<le> ino_at n f" "ino_at n f + 64 \<le> lay_extent n * 4096" "lay_extent n * 4096 \<le> ext_at n f" "1 \<le> map_blocks n"
    using region_order(1,2) [OF Suc.prems(2,3)] region_order(4) [of n] by simp_all
  obtain i1 where 1: "clear_blocks img True ?bm (int s) c = Some i1" "changed img i1 [(?bm, 4096), (44, 4)]"
    "\<forall>j < 32768. bm_bit i1 ?bm j = (bm_bit img ?bm j \<and> j \<notin> {s..<s + c})" "sb_free_blocks i1 = Some (fb + of_nat c)"
    using clear_blocks_ok [OF geometry_maps(2) [OF Suc.prems(1)] _ e(4) Suc.prems(5), of True] o by auto
  have a: "agrees img i1 0 44" "agrees img i1 (ino_at n f + 36) 4" "agrees img i1 (ext_at n f) 4096"
    using o by (intro changed_agrees [OF 1(2)]; simp add: apart_def)+
  have g1: "geometry i1 n" by (rule geometry_agrees [OF Suc.prems(1) a(1) changed_size [OF 1(2)]])
  have h: "d = length exts - Suc i" "Suc i \<le> length exts" using Suc.hyps(2) by simp_all
  obtain i2 where 2: "unlink_extents i1 f (ino_at n f) (int (Suc i)) = Some i2" "changed i1 i2 [(?bm, 4096), (44, 4)]"
    "\<forall>j < 32768. bm_bit i2 ?bm j = (bm_bit i1 ?bm j \<and> j \<notin> set (blocks_of (drop (Suc i) exts)))"
    "sb_free_blocks i2 = Some (fb + of_nat c + of_nat (length (blocks_of (drop (Suc i) exts))))"
    using Suc.hyps(1) [OF h(1) g1 Suc.prems(2,3) file_extents_agrees [OF Suc.prems(4) a(2,3)] 1(4) h(2)] by blast
  have dr: "drop i exts = (s, c) # drop (Suc i) exts" using i sc by (metis Cons_nth_drop_Suc)
  have "unlink_extents img f (ino_at n f) (int i) = Some i2"
    using i e 1(1) 2(1) sint [of s] sint [of c] geometry_maps(4) [OF Suc.prems(1)] geometry_at(2) [OF Suc.prems(1-3)] Suc.prems(1)
    by (simp add: unlink_extents.simps [of img] geometry_def A1FS_BLOCK_SIZE_def cint_ok int_ok_def add.commute)
  moreover have "changed img i2 [(?bm, 4096), (44, 4)]" using changed_trans [OF 1(2) 2(2)] by (simp add: changed_def conj_ac)
  ultimately show ?case
    using 1(3) 2(3,4) unfolding dr by (intro exI [of _ i2]) (auto simp: blocks_of_def algebra_simps)
qed

section \<open>The effect of the operations\<close>

text \<open>A list without its element at \<open>x\<close>, in whose place the last one moves.\<close>

definition remove_at :: "nat \<Rightarrow> 'a list \<Rightarrow> 'a list" where
  "remove_at x es = butlast (es[x := last es])"

lemma remove_at_nth:
  "length (remove_at x es) = length es - 1" "y < length es - 1 \<Longrightarrow> remove_at x es ! y = es[x := last es] ! y"
  by (simp_all add: remove_at_def nth_butlast)

lemma remove_at_split:
  assumes "x < length es"
  obtains ys zs where "es = ys @ es ! x # zs" "set (remove_at x es) = set (ys @ zs)"
proof -
  have es: "es = take x es @ es ! x # drop (Suc x) es" using id_take_nth_drop [OF assms] .
  have upd: "es[x := last es] = take x es @ last es # drop (Suc x) es" using upd_conv_take_nth_drop [OF assms] .
  have "set (remove_at x es) = set (take x es @ drop (Suc x) es)"
  proof (cases "drop (Suc x) es" rule: rev_cases)
    case Nil
    then show ?thesis unfolding remove_at_def upd by (simp add: butlast_append)
  next
    case (snoc zs z)
    then have "last es = z" by (subst es) simp
    then show ?thesis unfolding remove_at_def upd snoc by (auto simp: butlast_append)
  qed
  with es that show ?thesis by blast
qed

lemma remove_at_names:
  assumes "distinct (map snd es)" "x < length es"
  shows "set (remove_at x es) \<subseteq> set es" "snd (es ! x) \<notin> snd ` set (remove_at x es)" "snd (es ! x) \<notin> snd ` set (take x es)"
proof -
  obtain ys zs where s: "es = ys @ es ! x # zs" "set (remove_at x es) = set (ys @ zs)" using remove_at_split [OF assms(2)] .
  show "set (remove_at x es) \<subseteq> set es" unfolding s(2) by (subst s(1)) auto
  have "distinct (map snd (ys @ es ! x # zs))" using assms(1) s(1) by simp
  then show "snd (es ! x) \<notin> snd ` set (remove_at x es)" unfolding s(2) by auto
  have "distinct (map snd (take x es @ es ! x # drop (Suc x) es))" using assms(1) id_take_nth_drop [OF assms(2)] by simp
  then show "snd (es ! x) \<notin> snd ` set (take x es)" by auto
qed

lemma last_match_absent: "name \<notin> snd ` set es \<Longrightarrow> last_match name es = - 2"
  by (induction es rule: rev_induct) (auto simp: last_match_append, simp add: last_match_def)

lemma last_match_unique:
  assumes "distinct (map snd es)" "x < length es"
  shows "last_match (snd (es ! x)) es = fst (es ! x)"
proof -
  have "map_of (rev (map (\<lambda>(i, nm). (nm, i)) es)) (snd (es ! x)) = Some (fst (es ! x))"
    using assms by (intro map_of_is_SomeI) (auto simp: rev_map [symmetric] comp_def split_def intro: image_eqI [where x = "es ! x"])
  then show ?thesis by (simp add: last_match_map_of)
qed

text \<open>Freeing an inode.\<close>

lemma free_inode_ok:
  assumes fs: "fs_ok img n tree blk" and d: "0 \<le> d" "d < int n" "d < 32768" and fi: "sb_free_inodes img = Some fi"
  shows "\<exists>i1 i2. modify img 4096 d 0 = Some i1 \<and> sb_free_inodes i1 = Some fi \<and> st32 i1 48 (fi + 1) = Some i2 \<and>
    changed img i2 [(4096, 4096), (48, 4)] \<and> fs_ok i2 n tree blk \<and> sb_free_inodes i2 = Some (fi + 1) \<and>
    (\<forall>j < 32768. bm_bit i2 4096 j = (bm_bit img 4096 j \<and> j \<noteq> nat d))"
proof -
  have g: "geometry img n" using fs by (simp add: fs_ok_def)
  have low: "16384 \<le> lay_inode n * 4096" by (simp add: lay_defs)
  have bm: "bm_ok img 4096" using geometry_maps(1) [OF g] by simp
  obtain k where k: "d = int k" "k < 32768" using d(1,3) by (cases d) auto
  obtain i1 where 1: "modify img 4096 d 0 = Some i1" "changed img i1 [(4096, 4096)]"
    "\<forall>j < 32768. bm_bit i1 4096 j = (j \<noteq> nat d \<and> bm_bit img 4096 j)"
    using modify_map [OF bm k(2), of 0] k(1) by auto
  have fi1: "sb_free_inodes i1 = Some fi"
    using fi agrees_ld32 [OF changed_agrees [OF 1(2), of 48 4]] by (simp add: apart_def sb_access)
  have fs1: "fs_ok i1 n tree blk" using fs_ok_low [OF fs 1(2)] low by simp
  obtain i2 where 2: "st32 i1 48 (fi + 1) = Some i2" "changed i1 i2 [(48, 4)]" "ld32 i2 48 = Some (fi + 1)"
    using f32.field_effect [of 48 i1 "fi + 1"] geometry_room(1) [OF g] low changed_size [OF 1(2)] by (auto simp: lay_defs)
  have fs2: "fs_ok i2 n tree blk" using fs_ok_low [OF fs1 2(2)] low by simp
  have bm12: "bm_ok i1 4096" "bm_ok i2 4096" using bm changed_size [OF 1(2)] changed_size [OF 2(2)] by (simp_all add: bm_ok_def)
  have "bm_bit i2 4096 j = (bm_bit img 4096 j \<and> j \<noteq> nat d)" if "j < 32768" for j
    using 1(3) bm_bit_agrees [OF changed_agrees [OF 2(2)] bm12 that] that by (auto simp: apart_def)
  then show ?thesis using 1(1) 2(1,3) fi1 fs2 changed_trans [OF 1(2) 2(2)] by (auto simp: sb_access)
qed

lemma old_parent_ok:
  assumes fs: "fs_ok img n tree blk" and new: "new_path junk path pp name" and p: "resolve tree 0 (components pp) = p"
  shows "old_parent img junk path = Some (p, name)"
proof -
  have path: "path = pp @ slash # name" "slash \<notin> set name" "length path < 100" "0 \<notin> set pp"
    using new by (auto simp: new_path_def)
  have i: "strrchr path slash = Some (length pp)" using strrchr_last path(1,2) by blast
  have k: "length path - length (drop (length pp) path) = length pp" "drop 1 (drop (length pp) path) = name"
    using path(1) by simp_all
  show ?thesis
  proof (cases "pp = []")
    case True
    with p path i show ?thesis by (simp add: old_parent_def Let_def)
  next
    case False
    have pp: "hd pp = slash" "components pp \<noteq> []" "length pp < 4096" "pp \<noteq> [slash]" using new False by (auto simp: new_path_def)
    have "path_inode img pp = Some p"
      using path_inode_tree [OF fs_ok_tree [OF fs] _ False pp(1,3)] fs pp(2,4) p by (simp add: fs_ok_def)
    moreover have "array_str (take (length pp) path @ drop (length pp) junk) = Some pp"
      using array_str_junk [OF path(4)] new path(1) by (simp add: new_path_def)
    moreover have "\<not> length path \<le> length path - length pp" using False path(1) by (cases pp) simp_all
    ultimately show ?thesis using path(3) i k by (simp add: old_parent_def Let_def)
  qed
qed

lemma entry_count_mod:
  assumes "k < 16"
  shows "to_int (256 * of_nat k div 256 mod 16) = int k"
proof -
  have "256 * of_nat k = (of_nat (256 * k) :: u64)" by simp
  moreover have "256 * k < 2 ^ 64" using assms by simp
  ultimately have "unat (256 * of_nat k :: u64) = 256 * k" by (simp only: unat_of_nat_u64)
  then have "unat (256 * of_nat k div 256 mod 16 :: u64) = k" using assms by (simp only: unat_mod unat_div) simp
  then show ?thesis using to_int_small [of "256 * of_nat k div 256 mod 16"] assms by (simp only:) simp
qed

lemma old_parent_root:
  assumes "slash \<notin> set name"
  shows "length (slash # name) < 100 \<Longrightarrow> old_parent img junk (slash # name) = Some (0, name)"
  using strrchr_last [OF assms, of "[]"] by (simp add: old_parent_def Let_def)

lemma fs_ok_removed:
  assumes fs: "fs_ok img n tree blk" and p: "tree p = Some es" "length es < 16" "distinct (map snd es)" and x: "x < length es"
    and c: "changed img img' [(dat_at n (blk p) + 256 * int x, 256), (ino_at n p + 4, 12)]"
    and size: "i_size img' (ino_at n p) = Some (256 * of_nat (length es - 1))"
    and entries: "\<forall>y < length es - 1. entry_at img' (dat_at n (blk p)) y = Some (es[x := last es] ! y)"
    and D: "p \<notin> D" "0 \<notin> D" "fst ` set (remove_at x es) \<inter> D = {}"
      "\<And>c ec. tree c = Some ec \<Longrightarrow> c \<notin> D \<Longrightarrow> c \<noteq> p \<Longrightarrow> fst ` set ec \<inter> D = {}"
  shows "fs_ok img' n ((tree |` (- D))(p \<mapsto> remove_at x es)) blk"
proof (rule fs_ok_shrink [OF fs p(1) D(1,2) remove_at_names(1) [OF p(3) x] _ D(4,3)])
  have "changed img img' ([(dat_at n (blk p), 4096)] @ [(ino_at n p + 4, 12)])"
    using c p(2) x by (auto simp: changed_def apart_def)
  then show "changed img img' [(dat_at n (blk p), 4096), (ino_at n p + 4, 12)]" by simp
qed (use size entries remove_at_nth in \<open>auto simp: remove_at_nth\<close>)

text \<open>What the removal of the entry \<open>x\<close> of a directory writes.\<close>

abbreviation remove_ranges :: "nat \<Rightarrow> int \<Rightarrow> int \<Rightarrow> nat \<Rightarrow> (int \<times> nat) list" where
  "remove_ranges n p s x \<equiv> [(4096, 4096), (48, 4), ((map_blocks n + 1) * 4096, 4096), (44, 4),
     (dat_at n s + 256 * int x, 256), (ino_at n p + 4, 12)]"

lemma unlink_effect:
  assumes fs: "fs_ok img n tree blk" and path: "path = slash # name" "name \<noteq> []" "slash \<notin> set name" "length path < 100"
    and dir: "tree 0 = Some es" "length es < 16" "distinct (map snd es)" and x: "x < length es" "es ! x = (f, name)"
    and f: "f \<notin> dom tree" "f < 32768" "file_extents img n f exts"
    and cnt: "sb_free_inodes img = Some fi" "sb_free_blocks img = Some fb" and l: "i_links img (ino_at n 0) = Some l"
  shows "\<exists>img'. a1fs_unlink img junk path = Some (0, img') \<and> fs_ok img' n (tree(0 \<mapsto> remove_at x es)) blk \<and>
    path_inode img' path = Some (- ENOENT) \<and>
    sb_free_inodes img' = Some (fi + 1) \<and> sb_free_blocks img' = Some (fb + of_nat (length (blocks_of exts))) \<and>
    i_links img' (ino_at n 0) = Some (l - 1) \<and>
    (\<forall>j < 32768. bm_bit img' 4096 j = (bm_bit img 4096 j \<and> j \<noteq> nat f)) \<and>
    (\<forall>j < 32768. bm_bit img' ((map_blocks n + 1) * 4096) j =
      (bm_bit img ((map_blocks n + 1) * 4096) j \<and> j \<notin> set (blocks_of exts))) \<and>
    other_inodes img img' n 0 0 \<and> i_mode img' (ino_at n 0) = i_mode img (ino_at n 0) \<and>
    changed img img' (remove_ranges n 0 (blk 0) x) \<and> agrees img img' 0 44"
proof -
  let ?bm = "(map_blocks n + 1) * 4096"
  have g: "geometry img n" using fs by (simp add: fs_ok_def)
  have fr: "0 \<le> f" "f < int n" using fs_okD [OF fs dir(1)] nth_mem [OF x(1)] x(2) by (auto simp: dir_ok_def)
  have comps: "components path = [name]" "components (slash # name) = [name]"
    using path by (simp_all add: components_def split_slash_name)
  have pi: "path_inode img path = Some f"
    using path_inode_tree [OF fs_ok_tree [OF fs], of path] path comps dir(1) fs last_match_unique [OF dir(3) x(1)] x(2) fr
    by (auto simp: fs_ok_def)
  have rf: "0 \<noteq> f" using f(1) dir(1) by auto
  have o: "(map_blocks n + 3) * 4096 \<le> ino_at n 0" "ino_at n 0 + 64 \<le> ino_at n f" "ino_at n f + 64 \<le> lay_extent n * 4096"
    "lay_extent n * 4096 \<le> ext_at n f" "1 \<le> map_blocks n" "(map_blocks n + 3) * 4096 = lay_inode n * 4096"
    "ino_at n 0 = lay_inode n * 4096"
    using region_order(1,2) [OF fr] region_order(4) [of n] rf fr by (simp_all add: ino_at_def lay_inode_def map_blocks_def)
  obtain i1 i2 where 1: "modify img 4096 f 0 = Some i1" "sb_free_inodes i1 = Some fi" "st32 i1 48 (fi + 1) = Some i2"
    "changed img i2 [(4096, 4096), (48, 4)]" "fs_ok i2 n tree blk" "sb_free_inodes i2 = Some (fi + 1)"
    "\<forall>j < 32768. bm_bit i2 4096 j = (bm_bit img 4096 j \<and> j \<noteq> nat f)"
    using free_inode_ok [OF fs fr f(2) cnt(1)] by blast
  have g2: "geometry i2 n" using 1(5) by (simp add: fs_ok_def)
  have a2: "agrees img i2 (ino_at n f + 36) 4" "agrees img i2 (ext_at n f) 4096" "agrees img i2 44 4" "agrees img i2 ?bm 4096"
    using o by (intro changed_agrees [OF 1(4)]; simp add: apart_def)+
  have fb2: "sb_free_blocks i2 = Some fb" using cnt(2) agrees_ld32 [OF a2(3)] by (simp add: sb_access)
  obtain i3 where 3: "unlink_extents i2 f (ino_at n f) 0 = Some i3" "changed i2 i3 [(?bm, 4096), (44, 4)]"
    "\<forall>j < 32768. bm_bit i3 ?bm j = (bm_bit i2 ?bm j \<and> j \<notin> set (blocks_of exts))"
    "sb_free_blocks i3 = Some (fb + of_nat (length (blocks_of exts)))"
    using unlink_extents_ok [OF g2 fr file_extents_agrees [OF f(3) a2(1,2)] fb2, of 0] by auto
  note c3 = changed_trans [OF 1(4) 3(2), simplified]
  have fs3: "fs_ok i3 n tree blk"
    using fs_ok_agrees [OF 1(5) 3(2), of "img_size i2"] o by (simp add: apart_def)
  have g3: "geometry i3 n" using fs3 by (simp add: fs_ok_def)
  have a3: "agrees img i3 (ino_at n 0) 64" "agrees i2 i3 48 4" "agrees i2 i3 4096 4096"
    using o changed_agrees [OF c3] changed_agrees [OF 3(2)] by (simp_all add: apart_def)
  have l3: "i_links i3 (ino_at n 0) = Some l" using l agrees_ld32 [OF a3(1)] by (simp add: inode_access)
  note r0 = dir_regions [OF fs3 dir(1)]
  obtain i4 where 4: "st32 i3 (ino_at n 0 + 4) (l - 1) = Some i4" "changed i3 i4 [(ino_at n 0 + 4, 4)]"
    "ld32 i4 (ino_at n 0 + 4) = Some (l - 1)"
    using f32.field_effect [of "ino_at n 0 + 4" i3 "l - 1"] r0 by auto
  have fs4: "fs_ok i4 n tree blk" by (rule fs_ok_links [OF fs3 dir(1) 4(2)])
  have l4: "i_links i4 (ino_at n 0) = Some (l - 1)" using 4(3) by (simp add: inode_access)
  note d4 = dir_at [OF fs4 dir(1)]
  obtain i5 where 5: "remove_extents i4 False (ino_at n 0) (ext_at n 0) (int (length es)) name 0 1 = Some i5"
    "changed i4 i5 [(dat_at n (blk 0) + 256 * int x, 256), (ino_at n 0 + 4, 12)]"
    "i_size i5 (ino_at n 0) = Some (256 * of_nat (length es - 1))" "i_links i5 (ino_at n 0) = Some (l - 1)"
    "\<forall>y < length es - 1. entry_at i5 (dat_at n (blk 0)) y = Some (es[x := last es] ! y)"
    using remove_extents_ok [OF fs4 dir(1,2) x _ l4, of False] remove_at_names(3) [OF dir(3) x(1)] x(2) by auto
  have fs5: "fs_ok i5 n (tree(0 \<mapsto> remove_at x es)) blk"
    using fs_ok_removed [OF fs4 dir x(1) 5(2,3,5), of "{}"] unfolding restrict_nothing by simp
  have c5: "changed img i5 (remove_ranges n 0 (blk 0) x)"
    using changed_trans [OF c3 changed_trans [OF 4(2) 5(2)]] by (auto simp: changed_def apart_def)
  have head: "agrees img i5 0 44" "agrees img i5 (ino_at n 0) 4"
    using o(1,5) r0(3-7) by (intro changed_agrees [OF c5]; simp add: apart_def)+
  have inodes: "agrees img i5 (ino_at n i) 64" if "0 \<le> i" "i < int n" "i \<noteq> 0" for i
    using region_order(1,2) [OF that(1,2)] region_apart(1) [OF that(3), of n] o r0
    by (intro changed_agrees [OF c5]) (auto simp: apart_def)
  have a5: "agrees i3 i5 44 8" "agrees i3 i5 4096 4096" "agrees i3 i5 ?bm 4096"
    using o(1,5) r0(4-7) by (intro changed_agrees [OF changed_trans [OF 4(2) 5(2)]]; simp add: apart_def)+
  have bm: "bm_ok img 4096" "bm_ok i2 4096" "bm_ok i3 4096" "bm_ok i5 4096" "bm_ok img ?bm" "bm_ok i2 ?bm" "bm_ok i3 ?bm" "bm_ok i5 ?bm"
    using geometry_maps(1,2) [OF g] geometry_maps(1,2) [OF g2] geometry_maps(1,2) [OF g3] geometry_maps(1,2) [of i5 n] fs5
    by (simp_all add: fs_ok_def)
  note small = entry_count_mod [OF dir(2)]
  have par: "block_off (lay_inode n) 0 = Some (ino_at n 0)" "extent_ptr i3 0 = Some (ext_at n 0)" "sb_start_inode i3 = Some (lay_inode n)"
    using g3 geometry_at(2) [OF g3, of 0] fr o(7) r0(3,4,5,6,7) dir_at(9) [OF fs3 dir(1)]
    by (simp_all add: block_off_def A1FS_BLOCK_SIZE_def cint_def int_ok_def dat_ok_def geometry_def)
  have maps: "sb_start_inode_map img = Some 1" "cint (1 * A1FS_BLOCK_SIZE) = Some 4096"
    using g by (simp_all add: geometry_def A1FS_BLOCK_SIZE_def int_ok_def)
  have old: "old_parent i3 junk path = Some (0, name)" using old_parent_root [OF path(3)] path(1,4) by simp
  have "a1fs_unlink img junk path = Some (0, i5)"
    by (simp only: a1fs_unlink_def pi geometry_at(1) [OF g fr] maps 1(1-3) 3(1) old par l3 4(1) d4(1,3) small 5(1)
        Option.bind.bind_lunit prod.case Let_def nat_one_as_int [symmetric])
  moreover have "path_inode i5 path = Some (- ENOENT)"
    using path_inode_tree [OF fs_ok_tree [OF fs5], of path] path comps fs5 last_match_absent [OF remove_at_names(2) [OF dir(3) x(1)]] x(2)
    by (auto simp: fs_ok_def)
  moreover have "sb_free_inodes i5 = Some (fi + 1)" "sb_free_blocks i5 = Some (fb + of_nat (length (blocks_of exts)))"
    using 1(6) 3(4) agrees_ld32 [OF a3(2)] agrees_ld32 [OF a5(1)] by (simp_all add: sb_access)
  moreover have "bm_bit i5 4096 j = (bm_bit img 4096 j \<and> j \<noteq> nat f)"
    "bm_bit i5 ?bm j = (bm_bit img ?bm j \<and> j \<notin> set (blocks_of exts))" if "j < 32768" for j
    using 1(7) 3(3) bm_bit_agrees [OF a3(3) bm(2,3) that] bm_bit_agrees [OF a5(2) bm(3,4) that]
      bm_bit_agrees [OF a2(4) bm(5,6) that] bm_bit_agrees [OF a5(3) bm(7,8) that] that by simp_all
  moreover have "i_mode i5 (ino_at n 0) = i_mode img (ino_at n 0)" using agrees_ld32 [OF head(2)] by (simp add: inode_access)
  ultimately show ?thesis using fs5 5(4) inodes c5 head(1) by (intro exI [of _ i5]) simp
qed

lemma entry_path:
  assumes fs: "fs_ok img n tree blk" and new: "new_path junk path pp name"
    and p: "resolve tree 0 (components pp) = p" "tree p = Some es" "distinct (map snd es)" and x: "x < length es" "es ! x = (i, name)"
  shows "path_inode img path = Some i" "0 \<le> i" "i < int n" "path \<noteq> [slash]"
proof -
  have path: "path \<noteq> []" "hd path = slash" "length path < 4096" "components path = components pp @ [name]"
    using new components_new [OF new] by (auto simp: new_path_def hd_append)
  then show ns: "path \<noteq> [slash]" using components_slash [of "[]"] by (auto simp: components_def)
  have "(i, name) \<in> set es" using x nth_mem by metis
  then show i: "0 \<le> i" "i < int n" using fs_okD [OF fs p(2)] by (force simp: dir_ok_def)+
  have "0 \<le> p" using fs_okD [OF fs p(2)] by (simp add: dir_ok_def)
  then have "resolve tree 0 (components path) = i"
    using resolve_append [OF p(1)] p(2) last_match_unique [OF p(3) x(1)] x(2) i(1) unfolding path(4) by simp
  then show "path_inode img path = Some i"
    using path_inode_tree [OF fs_ok_tree [OF fs] _ path(1-3)] ns path(4) fs by (simp add: fs_ok_def)
qed

text \<open>The loop over the extents of a directory, which has one block.\<close>

lemma rmdir_extents_ok:
  assumes fs: "fs_ok img n tree blk" and d: "tree d = Some ed" "blk d < 32768" and fb: "sb_free_blocks img = Some fb"
  shows "\<exists>img'. rmdir_extents img ((map_blocks n + 1) * 4096) (ino_at n d) (ext_at n d) 0 = Some img' \<and>
    changed img img' [((map_blocks n + 1) * 4096, 4096), (44, 4)] \<and> sb_free_blocks img' = Some fb \<and>
    (\<forall>j < 32768. bm_bit img' ((map_blocks n + 1) * 4096) j = (bm_bit img ((map_blocks n + 1) * 4096) j \<and> j \<noteq> nat (blk d)))"
proof -
  let ?bm = "(map_blocks n + 1) * 4096"
  note at = dir_at [OF fs d(1)] and o = dir_regions [OF fs d(1)]
  obtain k where k: "blk d = int k" "k + 1 \<le> 32768" using at(9) d(2) by (cases "blk d") (auto simp: dat_ok_def)
  have bm: "48 \<le> ?bm" using region_order(4) [of n] by simp
  obtain i1 where 1: "clear_blocks img False ?bm (int k) 1 = Some i1" "changed img i1 [(?bm, 4096), (44, 4)]"
    "\<forall>j < 32768. bm_bit i1 ?bm j = (bm_bit img ?bm j \<and> j \<notin> {k..<k + 1})" "sb_free_blocks i1 = Some fb"
    using clear_blocks_ok [OF geometry_maps(2) [OF at(10)] bm k(2) fb, of False] by auto
  have "agrees img i1 (ino_at n d + 36) 4"
    using region_order(1) [OF o(1,2)] bm by (intro changed_agrees [OF 1(2)]) (simp add: apart_def)
  then have "i_extents i1 (ino_at n d) = Some 1" using at(3) by (simp add: inode_access ldi_def agrees_ld32)
  then have "rmdir_extents img ?bm (ino_at n d) (ext_at n d) 0 = Some i1"
    using at(3,7,8) 1(1) k by (simp add: rmdir_extents.simps [of img] rmdir_extents.simps [of i1] cint_ok int_ok_def)
  with 1(2-4) k(1) show ?thesis by auto
qed

lemma rmdir_effect:
  assumes fs: "fs_ok img n tree blk" and new: "new_path junk path pp name"
    and p: "resolve tree 0 (components pp) = p" "tree p = Some es" "length es < 16" "distinct (map snd es)"
    and x: "x < length es" "es ! x = (d, name)" and d: "tree d = Some ed" "d \<noteq> p" "d \<noteq> 0" "d < 32768" "blk d < 32768"
    and refs: "d \<notin> fst ` set (remove_at x es)" "\<forall>c ec. tree c = Some ec \<and> c \<noteq> d \<and> c \<noteq> p \<longrightarrow> d \<notin> fst ` set ec"
    and cnt: "sb_free_inodes img = Some fi" "sb_free_blocks img = Some fb" and l: "i_links img (ino_at n d) = Some ld" "i_links img (ino_at n p) = Some lp"
  shows "if ld \<noteq> 2 then a1fs_rmdir img junk path = Some (- ENOTEMPTY, img)
    else \<exists>img'. a1fs_rmdir img junk path = Some (0, img') \<and>
      fs_ok img' n ((tree |` (- {d}))(p \<mapsto> remove_at x es)) blk \<and>
      sb_free_inodes img' = Some (fi + 1) \<and> sb_free_blocks img' = Some fb \<and> i_links img' (ino_at n p) = Some (lp - 1) \<and>
      (\<forall>j < 32768. bm_bit img' 4096 j = (bm_bit img 4096 j \<and> j \<noteq> nat d)) \<and>
      (\<forall>j < 32768. bm_bit img' ((map_blocks n + 1) * 4096) j =
        (bm_bit img ((map_blocks n + 1) * 4096) j \<and> j \<noteq> nat (blk d))) \<and>
      other_inodes img img' n p p \<and> i_mode img' (ino_at n p) = i_mode img (ino_at n p) \<and>
      changed img img' (remove_ranges n p (blk p) x) \<and> agrees img img' 0 44"
proof -
  let ?bm = "(map_blocks n + 1) * 4096"
  have g: "geometry img n" using fs by (simp add: fs_ok_def)
  note ep = entry_path [OF fs new p(1,2,4) x]
  have pr: "0 \<le> p" "p < int n" using fs_okD [OF fs p(2)] by (simp_all add: dir_ok_def)
  show ?thesis
  proof (cases "ld = 2")
    case False
    with ep l(1) geometry_at(1) [OF g ep(2,3)] show ?thesis by (simp add: a1fs_rmdir_def)
  next
    case True
    obtain i1 i2 where 1: "modify img 4096 d 0 = Some i1" "sb_free_inodes i1 = Some fi" "st32 i1 48 (fi + 1) = Some i2"
      "changed img i2 [(4096, 4096), (48, 4)]" "fs_ok i2 n tree blk" "sb_free_inodes i2 = Some (fi + 1)"
      "\<forall>j < 32768. bm_bit i2 4096 j = (bm_bit img 4096 j \<and> j \<noteq> nat d)"
      using free_inode_ok [OF fs ep(2,3) d(4) cnt(1)] by blast
    note op = dir_regions [OF fs p(2)] and bmn = region_order(4) [of n] region_order(1) [OF pr]
    have a2: "agrees img i2 44 4" "agrees img i2 ?bm 4096" "agrees img i2 (ino_at n p) 64"
      using op(3) bmn by (intro changed_agrees [OF 1(4)]; simp add: apart_def)+
    have fb2: "sb_free_blocks i2 = Some fb" using cnt(2) agrees_ld32 [OF a2(1)] by (simp add: sb_access)
    obtain i3 where 3: "rmdir_extents i2 ?bm (ino_at n d) (ext_at n d) 0 = Some i3" "changed i2 i3 [(?bm, 4096), (44, 4)]"
      "sb_free_blocks i3 = Some fb" "\<forall>j < 32768. bm_bit i3 ?bm j = (bm_bit i2 ?bm j \<and> j \<noteq> nat (blk d))"
      using rmdir_extents_ok [OF 1(5) d(1,5) fb2] by blast
    have fs3: "fs_ok i3 n tree blk"
      using fs_ok_agrees [OF 1(5) 3(2), of "img_size i2"] bmn by (simp add: apart_def lay_inode_def map_blocks_def)
    have a3: "agrees i2 i3 (ino_at n p) 64" "agrees i2 i3 48 4" "agrees i2 i3 4096 4096"
      using op(3) bmn by (intro changed_agrees [OF 3(2)]; simp add: apart_def)+
    have l3: "i_links i3 (ino_at n p) = Some lp"
      using l(2) agrees_ld32 [OF a2(3)] agrees_ld32 [OF a3(1)] by (simp add: inode_access)
    note at = dir_at [OF fs3 p(2)]
    obtain i4 where 4: "remove_extents i3 True (ino_at n p) (ext_at n p) (int (length es)) name 0 1 = Some i4"
      "changed i3 i4 [(dat_at n (blk p) + 256 * int x, 256), (ino_at n p + 4, 12)]"
      "i_size i4 (ino_at n p) = Some (256 * of_nat (length es - 1))" "i_links i4 (ino_at n p) = Some (lp - 1)"
      "\<forall>y < length es - 1. entry_at i4 (dat_at n (blk p)) y = Some (es[x := last es] ! y)"
      using remove_extents_ok [OF fs3 p(2,3) x _ l3, of True] remove_at_names(3) [OF p(4) x(1)] x(2) by auto
    have fs4: "fs_ok i4 n ((tree |` (- {d}))(p \<mapsto> remove_at x es)) blk"
      using fs_ok_removed [OF fs3 p(2-4) x(1) 4(2,3,5), of "{d}"] d(2,3) refs by auto
    have c4: "changed img i4 (remove_ranges n p (blk p) x)"
      using changed_trans [OF changed_trans [OF 1(4) 3(2)] 4(2)] by simp
    have head: "agrees img i4 0 44" "agrees img i4 (ino_at n p) 4"
      using op bmn by (intro changed_agrees [OF c4]; simp add: apart_def)+
    have inodes: "agrees img i4 (ino_at n i) 64" if "0 \<le> i" "i < int n" "i \<noteq> p" for i
      using region_order(1,2) [OF that(1,2)] region_apart(1) [OF that(3), of n] op bmn
      by (intro changed_agrees [OF c4]) (auto simp: apart_def)
    have a4: "agrees i3 i4 44 8" "agrees i3 i4 4096 4096" "agrees i3 i4 ?bm 4096"
      using op(3-7) bmn by (intro changed_agrees [OF 4(2)]; simp add: apart_def)+
    have g2: "geometry i2 n" and g3: "geometry i3 n" and g4: "geometry i4 n" using 1(5) fs3 fs4 by (simp_all add: fs_ok_def)
    have maps: "sb_start_inode_map img = Some 1" "cint (1 * A1FS_BLOCK_SIZE) = Some 4096"
      "sb_start_data_map img = Some (map_blocks n + 1)" "cint ((map_blocks n + 1) * A1FS_BLOCK_SIZE) = Some ?bm"
      using g geometry_maps(4) [OF g] by (simp_all add: geometry_def A1FS_BLOCK_SIZE_def int_ok_def)
    have "a1fs_rmdir img junk path = Some (0, i4)"
      using ep(4) True
      by (simp only: a1fs_rmdir_def ep(1) geometry_at(1) [OF g ep(2,3)] l(1) maps 1(1-3) geometry_at(2) [OF g2 ep(2,3)] 3(1)
          old_parent_ok [OF fs3 new p(1)] geometry_at(1,2) [OF g3 pr] at(1,3) entry_count_mod [OF p(3)] 4(1)
          Option.bind.bind_lunit prod.case Let_def nat_one_as_int [symmetric] if_True if_False refl not_True_eq_False)
    moreover have "sb_free_inodes i4 = Some (fi + 1)" "sb_free_blocks i4 = Some fb"
      using 1(6) 3(3) agrees_ld32 [OF a3(2)] agrees_ld32 [OF a4(1)] by (simp_all add: sb_access)
    moreover have "bm_bit i4 4096 j = (bm_bit img 4096 j \<and> j \<noteq> nat d)"
      "bm_bit i4 ?bm j = (bm_bit img ?bm j \<and> j \<noteq> nat (blk d))" if "j < 32768" for j
      using 1(7) 3(4) bm_bit_agrees [OF a3(3) _ _ that] bm_bit_agrees [OF a4(2) _ _ that]
        bm_bit_agrees [OF a2(2) geometry_maps(2) [OF g] geometry_maps(2) [OF g2] that]
        bm_bit_agrees [OF a4(3) geometry_maps(2) [OF g3] geometry_maps(2) [OF g4] that]
        geometry_maps(1) [OF g2] geometry_maps(1) [OF g3] geometry_maps(1) [OF g4] that by simp_all
    ultimately show ?thesis using True fs4 4(4) inodes c4 head agrees_ld32 [OF head(2)] by (simp add: inode_access)
  qed
qed

section \<open>Properties\<close>





end
