(* ===== verification/A1fs_Session.thy ===== *)
theory A1fs_Session
  imports A1fs_Unlink A1fs_Ops "HOL-Library.Multiset"
begin

text \<open>
  Sequences of calls that change the directories.  An abstract file system holds the tree, the
  modes, the inodes and blocks in use, the two free counts and the sizes; \<open>abs_ops\<close> gives its calls
  with what they report, as long as the bitmaps stay within their first byte and the directories
  within their block.  The calls of
  \<open>a1fs.c\<close> refine it, from the image that \<open>mkfs\<close> leaves on.
\<close>

section \<open>An abstract file system\<close>

record afs =
  a_tree :: dir_tree
  a_blk :: "int \<Rightarrow> int"
  a_inodes :: "nat set"
  a_blocks :: "nat set"
  a_ifree :: u32
  a_bfree :: u32
  a_mode :: "int \<Rightarrow> u32"
  a_count :: u32
  a_size :: u64

definition lowest :: "nat set \<Rightarrow> nat option" where
  "lowest U = find (\<lambda>i. i \<notin> U) [0..<8]"

text \<open>The directory that a path's last component is in, its entries, and that component.\<close>

definition place :: "afs \<Rightarrow> u8 list \<Rightarrow> u8 list \<Rightarrow> (int \<times> entries \<times> u8 list) option" where
  "place a junk path = do {
     i \<leftarrow> strrchr path slash;
     let pp = take i path;
     let name = drop (Suc i) path;
     let p = resolve (a_tree a) 0 (components pp);
     es \<leftarrow> a_tree a p;
     (if new_path junk path pp name \<and> length es < 16 then Some (p, es, name) else None)
   }"

definition index_of :: "u8 list \<Rightarrow> entries \<Rightarrow> nat option" where
  "index_of name es = find (\<lambda>x. snd (es ! x) = name) [0..<length es]"

definition abs_create :: "afs \<Rightarrow> u8 list \<Rightarrow> u8 list \<Rightarrow> u32 \<Rightarrow> (int \<times> afs) option" where
  "abs_create a junk path md = do {
     (p, es, name) \<leftarrow> place a junk path;
     m \<leftarrow> lowest (a_inodes a);
     (if index_of name es = None \<and> md AND S_IFMT = S_IFREG then Some () else None);
     if a_ifree a = 1 \<or> a_bfree a = 0 then Some (- ENOMEM, a\<lparr>a_ifree := a_ifree a - 1\<rparr>)
     else Some (0, a\<lparr>a_tree := (a_tree a)(p \<mapsto> es @ [(int m, name)]),
                    a_inodes := insert m (a_inodes a), a_ifree := a_ifree a - 1, a_mode := (a_mode a)(int m := md)\<rparr>)
   }"

definition abs_mkdir :: "afs \<Rightarrow> u8 list \<Rightarrow> u8 list \<Rightarrow> u32 \<Rightarrow> (int \<times> afs) option" where
  "abs_mkdir a junk path md = do {
     (p, es, name) \<leftarrow> place a junk path;
     m \<leftarrow> lowest (a_inodes a);
     k \<leftarrow> lowest (a_blocks a);
     (if index_of name es = None \<and> (md OR S_IFDIR) OR 511 = S_IFDIR OR 511 then Some () else None);
     if a_ifree a = 0 \<or> a_bfree a = 0 then Some (- ENOMEM, a)
     else Some (0, a\<lparr>a_tree := (a_tree a)(p \<mapsto> es @ [(int m, name)], int m \<mapsto> [(int m, dot), (p, dotdot)]),
                    a_blk := (a_blk a)(int m := int k),
                    a_inodes := insert m (a_inodes a), a_blocks := insert k (a_blocks a),
                    a_ifree := a_ifree a - 1, a_bfree := a_bfree a - 1,
                    a_mode := (a_mode a)(int m := md OR S_IFDIR)\<rparr>)
   }"

text \<open>Only files in the root are removed correctly.\<close>

definition abs_unlink :: "afs \<Rightarrow> u8 list \<Rightarrow> u8 list \<Rightarrow> (int \<times> afs) option" where
  "abs_unlink a junk path = do {
     (p, es, name) \<leftarrow> place a junk path;
     x \<leftarrow> index_of name es;
     let f = fst (es ! x);
     (if strrchr path slash = Some 0 \<and> a_tree a f = None then Some () else None);
     Some (0, a\<lparr>a_tree := (a_tree a)(p \<mapsto> remove_at x es), a_inodes := a_inodes a - {nat f},
               a_ifree := a_ifree a + 1\<rparr>)
   }"

definition abs_rmdir :: "afs \<Rightarrow> u8 list \<Rightarrow> u8 list \<Rightarrow> (int \<times> afs) option" where
  "abs_rmdir a junk path = do {
     (p, es, name) \<leftarrow> place a junk path;
     x \<leftarrow> index_of name es;
     let d = fst (es ! x);
     ed \<leftarrow> a_tree a d;
     (if 2 \<le> x then Some () else None);
     if length ed \<noteq> 2 then Some (- ENOTEMPTY, a)
     else Some (0, a\<lparr>a_tree := ((a_tree a) |` (- {d}))(p \<mapsto> remove_at x es),
                    a_inodes := a_inodes a - {nat d}, a_blocks := a_blocks a - {nat (a_blk a d)},
                    a_ifree := a_ifree a + 1\<rparr>)
   }"

text \<open>A path that names something, absolute and not too long; \<open>//\<close> is left out.\<close>

definition path_ok :: "u8 list \<Rightarrow> bool" where
  "path_ok path \<longleftrightarrow> length path < 4096 \<and> path \<noteq> [] \<and> hd path = slash \<and> (components path \<noteq> [] \<or> path = [slash])"

text \<open>A directory has a link and 256 bytes for each entry and one block, a new file is empty.\<close>

definition abs_stat :: "afs \<Rightarrow> int \<Rightarrow> stat" where
  "abs_stat a i =
     (case a_tree a i of
        Some es \<Rightarrow> \<lparr>st_ino = i, st_mode = a_mode a i, st_nlink = of_nat (length es), st_size = 256 * of_nat (length es),
                    st_blocks = 8, st_mtim = (0, 0)\<rparr>
      | None \<Rightarrow> \<lparr>st_ino = i, st_mode = a_mode a i, st_nlink = 1, st_size = 0, st_blocks = 0, st_mtim = (0, 0)\<rparr>)"

definition abs_getattr :: "afs \<Rightarrow> u8 list \<Rightarrow> (int \<times> stat) option" where
  "abs_getattr a path =
     (let i = resolve (a_tree a) 0 (components path)
      in if \<not> path_ok path then None
         else if i = - ENOENT \<or> i = - ENOTDIR then Some (i, stat_zero) else Some (0, abs_stat a i))"

definition abs_readdir :: "afs \<Rightarrow> u8 list \<Rightarrow> (int \<times> u8 list list) option" where
  "abs_readdir a path =
     (if path_ok path then map_option (\<lambda>es. (0, map snd es)) (a_tree a (resolve (a_tree a) 0 (components path)))
      else None)"

definition abs_statfs :: "afs \<Rightarrow> int \<times> statvfs" where
  "abs_statfs a =
     (0, \<lparr>f_bsize = 4096, f_frsize = 4096, f_blocks = a_size a div 4096, f_bfree = ucast (a_bfree a),
          f_bavail = ucast (a_bfree a), f_files = ucast (a_count a), f_ffree = ucast (a_ifree a),
          f_favail = ucast (a_ifree a), f_namemax = of_nat A1FS_NAME_MAX\<rparr>)"

definition asks :: "afs \<Rightarrow> ('a \<Rightarrow> fuse_out) \<Rightarrow> (int \<times> 'a) option \<Rightarrow> ((int \<times> fuse_out) \<times> afs) option" where
  "asks a out = map_option (\<lambda>(r, v). ((r, out v), a))"

definition becomes :: "(int \<times> afs) option \<Rightarrow> ((int \<times> fuse_out) \<times> afs) option" where
  "becomes = map_option (\<lambda>(r, a). ((r, No_output), a))"

fun abs_ops :: "afs \<Rightarrow> u8 list \<Rightarrow> fuse_call \<Rightarrow> ((int \<times> fuse_out) \<times> afs) option" where
  "abs_ops a junk (Call_create path m) = becomes (abs_create a junk path m)"
| "abs_ops a junk (Call_mkdir path m) = becomes (abs_mkdir a junk path m)"
| "abs_ops a junk (Call_unlink path) = becomes (abs_unlink a junk path)"
| "abs_ops a junk (Call_rmdir path) = becomes (abs_rmdir a junk path)"
| "abs_ops a junk (Call_getattr path) = asks a Stat (abs_getattr a path)"
| "abs_ops a junk (Call_readdir path) = asks a Names (abs_readdir a path)"
| "abs_ops a junk (Call_statfs path) = asks a Statvfs (Some (abs_statfs a))"
| "abs_ops a junk _ = None"

definition abs_session :: "afs \<Rightarrow> (u8 list \<times> fuse_call) list \<Rightarrow> ((int \<times> fuse_out) list \<times> afs) option" where
  "abs_session = run_calls (\<lambda>a (junk, call). abs_ops a junk call)"

lemma call_keeps_size:
  "abs_create a junk path md = Some (r, a') \<Longrightarrow> a_size a' = a_size a"
  "abs_mkdir a junk path md = Some (r, a') \<Longrightarrow> a_size a' = a_size a"
  "abs_unlink a junk path = Some (r, a') \<Longrightarrow> a_size a' = a_size a"
  "abs_rmdir a junk path = Some (r, a') \<Longrightarrow> a_size a' = a_size a"
  by (auto simp: abs_create_def abs_mkdir_def abs_unlink_def abs_rmdir_def Let_def bind_eq_Some_conv split: if_splits)

lemma ops_keep_size: "abs_ops a junk call = Some (r, a') \<Longrightarrow> a_size a' = a_size a"
  by (cases call) (auto simp: becomes_def asks_def split: prod.splits dest: call_keeps_size)

lemma session_keeps_size: "abs_session a calls = Some (rs, a') \<Longrightarrow> a_size a' = a_size a"
proof (induction calls arbitrary: a rs)
  case (Cons c calls)
  then obtain r a1 rs' where "abs_ops a (fst c) (snd c) = Some (r, a1)" "abs_session a1 calls = Some (rs', a')"
    by (cases c) (auto simp: abs_session_def split: option.splits)
  with Cons.IH ops_keep_size show ?case by metis
qed (simp add: abs_session_def)

text \<open>What \<open>mkfs\<close> leaves: the root's inode and block are in use, but counted as free.\<close>

definition new_afs :: "a1fs_superblock \<Rightarrow> afs" where
  "new_afs sb = \<lparr>a_tree = root_tree, a_blk = (\<lambda>_. 0), a_inodes = {0}, a_blocks = {0},
     a_ifree = free_inodes_count sb, a_bfree = free_blocks_count sb, a_mode = (\<lambda>_. S_IFDIR OR 511),
     a_count = inodes_count sb, a_size = sb_size sb\<rparr>"

section \<open>The tree stays a tree\<close>

text \<open>The inodes that a directory's entries name, apart from \<open>"."\<close> and \<open>".."\<close>.\<close>

definition children :: "dir_tree \<Rightarrow> int \<Rightarrow> int set" where
  "children tree d = (case tree d of None \<Rightarrow> {} | Some es \<Rightarrow> fst ` set (drop 2 es))"

text \<open>Every directory starts with its two entries, names nothing twice and is in its parent; no
  inode is in two directories.\<close>

definition dir_shape :: "dir_tree \<Rightarrow> int \<Rightarrow> entries \<Rightarrow> bool" where
  "dir_shape tree d es \<longleftrightarrow> (\<exists>q ch. es = (d, dot) # (q, dotdot) # ch \<and> distinct (map snd es) \<and> distinct (map fst ch) \<and>
     (if d = 0 then q = 0 else d \<in> children tree q))"

definition tree_shape :: "dir_tree \<Rightarrow> bool" where
  "tree_shape tree \<longleftrightarrow> 0 \<in> dom tree \<and> (\<forall>d es. tree d = Some es \<longrightarrow> dir_shape tree d es) \<and>
     (\<forall>d d'. d \<noteq> d' \<longrightarrow> children tree d \<inter> children tree d' = {}) \<and> (\<forall>d. 0 \<notin> children tree d)"

definition afs_ok :: "afs \<Rightarrow> bool" where
  "afs_ok a \<longleftrightarrow> tree_shape (a_tree a) \<and> a_inodes a \<subseteq> {..<8} \<and> a_blocks a \<subseteq> {..<8} \<and>
     dom (a_tree a) \<subseteq> int ` a_inodes a \<and> (\<forall>d. children (a_tree a) d \<subseteq> int ` a_inodes a) \<and>
     a_blk a ` dom (a_tree a) \<subseteq> int ` a_blocks a"

text \<open>Removing an element, whatever takes its place.\<close>

lemma mset_remove_at:
  assumes "x < length es"
  shows "mset es = mset (es ! x # remove_at x es)"
proof -
  have "last (es[x := last es]) = last es" using assms by (subst last_list_update) auto
  moreover have "es[x := last es] \<noteq> []" using assms by auto
  ultimately have "mset (remove_at x es) + {#last es#} = mset (es[x := last es])"
    unfolding remove_at_def by (metis append_butlast_last_id mset.simps(1,2) mset_append)
  also have "\<dots> = add_mset (last es) (mset es - {#es ! x#})" using assms by (rule mset_update)
  finally have "mset (remove_at x es) = mset es - {#es ! x#}" by simp
  then show ?thesis using assms by simp
qed

lemma remove_at_map:
  assumes "distinct (map g es)" "x < length es"
  shows "distinct (map g (remove_at x es))" "g ` set (remove_at x es) = g ` set es - {g (es ! x)}"
proof -
  have "mset (map g es) = mset (map g (es ! x # remove_at x es))" using mset_remove_at [OF assms(2)] by simp
  then have "distinct (map g (es ! x # remove_at x es))" using assms(1) mset_eq_imp_distinct_iff by blast
  then show "distinct (map g (remove_at x es))" "g ` set (remove_at x es) = g ` set es - {g (es ! x)}"
    using arg_cong [OF mset_remove_at [OF assms(2)], of set_mset] by auto
qed

lemma remove_at_tail: "y < length ch \<Longrightarrow> remove_at (Suc (Suc y)) (a # b # ch) = a # b # remove_at y ch"
  by (subgoal_tac "ch \<noteq> []") (auto simp: remove_at_def)

lemma index_of_Some:
  assumes "index_of name es = Some x"
  shows "x < length es" "snd (es ! x) = name"
  using assms by (auto simp: index_of_def find_upt simp del: upt_Suc)

lemma index_of_None: "index_of name es = None \<longleftrightarrow> name \<notin> snd ` set es"
proof -
  have "snd ` set es = {snd (es ! x) |x. x < length es}" by (auto simp: set_conv_nth)
  then show ?thesis by (auto simp: index_of_def find_None_iff)
qed

lemma lowest_Some: "lowest U = Some m \<longleftrightarrow> m < 8 \<and> m \<notin> U \<and> (\<forall>i < m. i \<in> U)"
  unfolding lowest_def find_upt by blast

lemma dir_shapeE:
  assumes "tree_shape tree" "tree d = Some es"
  obtains q ch where "es = (d, dot) # (q, dotdot) # ch" "distinct (map snd es)" "distinct (map fst ch)"
    "children tree d = fst ` set ch" "if d = 0 then q = 0 else d \<in> children tree q"
  using assms unfolding tree_shape_def dir_shape_def by (force simp: children_def)

lemma children_dom: "i \<in> children tree q \<Longrightarrow> q \<in> dom tree"
  by (auto simp: children_def split: option.splits)

text \<open>A new entry, for a file or for a directory.\<close>

lemma shape_add:
  assumes s: "tree_shape tree" and p: "tree p = Some es" "name \<notin> snd ` set es"
    and m: "m \<notin> dom tree" "\<forall>d. m \<notin> children tree d"
    and t': "tree' = (if dir then tree(p \<mapsto> es @ [(m, name)], m \<mapsto> [(m, dot), (p, dotdot)]) else tree(p \<mapsto> es @ [(m, name)]))"
  shows "tree_shape tree'" "children tree' d = (if d = p then insert m (children tree p) else children tree d)"
proof -
  have pm: "p \<noteq> m" "m \<noteq> 0" using p(1) m(1) s by (auto simp: tree_shape_def)
  obtain q ch where es: "es = (p, dot) # (q, dotdot) # ch" "distinct (map snd es)" "distinct (map fst ch)"
    "children tree p = fst ` set ch" "if p = 0 then q = 0 else p \<in> children tree q"
    using dir_shapeE [OF s p(1)] .
  have none: "children tree m = {}" using m(1) by (auto simp: children_def split: option.splits)
  show ch': "children tree' d = (if d = p then insert m (children tree p) else children tree d)" for d
    using es(1,4) pm none p(1) unfolding t' by (auto simp: children_def)
  have up: "c \<in> children tree q' \<Longrightarrow> c \<in> children tree' q'" for c q' by (auto simp: ch')
  have "dir_shape tree' c ec" if c: "tree' c = Some ec" for c ec
  proof (cases "c = p")
    case True
    have "m \<notin> fst ` set ch" using m(2) es(4) by blast
    moreover have "ec = es @ [(m, name)]" using c True pm(1) by (auto simp: t' split: if_splits)
    ultimately show ?thesis using es p(2) up [of p q] True by (auto simp: dir_shape_def)
  next
    case False
    show ?thesis
    proof (cases "c = m \<and> dir")
      case True
      then have "ec = [(m, dot), (p, dotdot)]" using c by (auto simp: t')
      moreover have "m \<in> children tree' p" by (simp add: ch')
      ultimately show ?thesis using True pm by (simp add: dir_shape_def dot_def dotdot_def)
    next
      case new: False
      then have "tree c = Some ec" using c False by (auto simp: t' split: if_splits)
      from dir_shapeE [OF s this] obtain q' ch'' where "ec = (c, dot) # (q', dotdot) # ch''" "distinct (map snd ec)"
        "distinct (map fst ch'')" "if c = 0 then q' = 0 else c \<in> children tree q'" by metis
      then show ?thesis using up [of c q'] by (auto simp: dir_shape_def)
    qed
  qed
  moreover have "0 \<in> dom tree'" using s by (auto simp: t' tree_shape_def)
  moreover have "children tree' c \<inter> children tree' c' = {}" if "c \<noteq> c'" for c c'
    using s that m(2) by (auto simp: ch' tree_shape_def)
  moreover have "0 \<notin> children tree' c" for c using s pm(2) by (simp add: ch' tree_shape_def)
  ultimately show "tree_shape tree'" unfolding tree_shape_def by blast
qed

text \<open>Removing a file, or a directory that is empty.\<close>

lemma shape_remove:
  assumes s: "tree_shape tree" and p: "tree p = Some es" and x: "2 \<le> x" "x < length es"
    and f: "f = fst (es ! x)" "children tree f = {}" and t': "tree' = (tree |` (- {f}))(p \<mapsto> remove_at x es)"
  shows "tree_shape tree'" "children tree' d = children tree d - {f}" "f \<in> children tree p"
    "d \<noteq> p \<Longrightarrow> f \<notin> children tree d" "f \<noteq> p" "f \<noteq> 0"
proof -
  obtain q ch where es: "es = (p, dot) # (q, dotdot) # ch" "distinct (map snd es)" "distinct (map fst ch)"
    "children tree p = fst ` set ch" "if p = 0 then q = 0 else p \<in> children tree q"
    using dir_shapeE [OF s p] .
  obtain y where y: "x = Suc (Suc y)" using x(1) by (metis add_2_eq_Suc le_Suc_ex)
  have y': "y < length ch" "f = fst (ch ! y)" using x(2) f(1) es(1) y by simp_all
  then show fp: "f \<in> children tree p" using es(4) by simp
  then show "f \<noteq> p" using f(2) by blast
  show f0: "f \<noteq> 0" using fp s unfolding tree_shape_def by blast
  show only: "f \<notin> children tree d" if "d \<noteq> p" for d
    using fp s that unfolding tree_shape_def by blast
  have rem: "remove_at x es = (p, dot) # (q, dotdot) # remove_at y ch" using remove_at_tail [OF y'(1)] es(1) y by simp
  note rm = remove_at_map [OF es(3) y'(1)]
  show ch': "children tree' d = children tree d - {f}" for d
  proof (cases "d = p")
    case True
    then show ?thesis using rem rm(2) es(4) y'(2) by (simp add: children_def t')
  next
    case False
    then show ?thesis using only [OF False] f(2) by (cases "d = f") (auto simp: children_def t' restrict_map_def)
  qed
  have up: "c \<in> children tree' q'" if "c \<in> children tree q'" "c \<noteq> f" for c q' using that by (simp add: ch')
  have "dir_shape tree' c ec" if c: "tree' c = Some ec" for c ec
  proof (cases "c = p")
    case True
    then have c': "ec = remove_at x es" using c by (simp add: t')
    have "distinct (map snd (remove_at x es))" using remove_at_map(1) [OF es(2) x(2)] .
    then show ?thesis
      using True c' es(5) rm(1) up [of p q] \<open>f \<noteq> p\<close> by (auto simp: dir_shape_def rem)
  next
    case False
    then have old: "tree c = Some ec" "c \<noteq> f" using c by (auto simp: t' restrict_map_def split: if_splits)
    from dir_shapeE [OF s old(1)] obtain q' ch'' where "ec = (c, dot) # (q', dotdot) # ch''" "distinct (map snd ec)"
      "distinct (map fst ch'')" "if c = 0 then q' = 0 else c \<in> children tree q'" by metis
    then show ?thesis using up [of c q'] old(2) by (auto simp: dir_shape_def)
  qed
  moreover have "0 \<in> dom tree'" using s f0 by (auto simp: t' tree_shape_def)
  moreover have "children tree' c \<inter> children tree' c' = {}" if "c \<noteq> c'" for c c'
  proof -
    have "children tree c \<inter> children tree c' = {}" using s that by (simp add: tree_shape_def)
    then show ?thesis by (auto simp: ch')
  qed
  moreover have "0 \<notin> children tree' c" for c using s by (simp add: ch' tree_shape_def)
  ultimately show "tree_shape tree'" unfolding tree_shape_def by blast
qed

text \<open>Nothing else refers to what is removed.\<close>

lemma shape_remove_refs:
  assumes s: "tree_shape tree" and p: "tree p = Some es" and x: "2 \<le> x" "x < length es"
    and d: "d = fst (es ! x)" "children tree d = {}"
  shows "d \<notin> fst ` set (remove_at x es)" "\<forall>c ec. tree c = Some ec \<and> c \<noteq> d \<and> c \<noteq> p \<longrightarrow> d \<notin> fst ` set ec"
proof -
  note rem = shape_remove [OF s p x d refl]
  have up: "q \<noteq> d" if "if c = 0 then q = 0 else c \<in> children tree q" for c q
    using that d(2) rem(6) by (auto split: if_splits)
  obtain q ch where es: "es = (p, dot) # (q, dotdot) # ch" "distinct (map fst ch)" "children tree p = fst ` set ch"
    "if p = 0 then q = 0 else p \<in> children tree q"
    using dir_shapeE [OF s p] by metis
  obtain y where y: "x = Suc (Suc y)" using x(1) by (metis add_2_eq_Suc le_Suc_ex)
  then have "y < length ch" "d = fst (ch ! y)" using x(2) d(1) es(1) by simp_all
  then show "d \<notin> fst ` set (remove_at x es)"
    using remove_at_tail [of y ch] remove_at_map(2) [OF es(2), of y] es(1) y rem(5) up [OF es(4)] by simp
  have "d \<notin> fst ` set ec" if c: "tree c = Some ec" "c \<noteq> d" "c \<noteq> p" for c ec
  proof -
    obtain q' ch' where ec: "ec = (c, dot) # (q', dotdot) # ch'" "children tree c = fst ` set ch'"
      "if c = 0 then q' = 0 else c \<in> children tree q'"
      using dir_shapeE [OF s c(1)] by metis
    then show ?thesis using up [OF ec(3)] rem(4) [OF c(3)] c(2) by auto
  qed
  then show "\<forall>c ec. tree c = Some ec \<and> c \<noteq> d \<and> c \<noteq> p \<longrightarrow> d \<notin> fst ` set ec" by blast
qed

section \<open>Refinement\<close>

text \<open>What the image of an abstract file system holds.  The directories have as many links as
  entries, the files are empty.\<close>

definition bits_hold :: "image \<Rightarrow> int \<Rightarrow> nat set \<Rightarrow> bool" where
  "bits_hold img bm U \<longleftrightarrow> (\<forall>j < 8. bm_bit img bm j = (j \<in> U))"

definition dir_inode :: "image \<Rightarrow> int \<Rightarrow> u32 \<Rightarrow> entries \<Rightarrow> bool" where
  "dir_inode img r md es \<longleftrightarrow> i_links img r = Some (of_nat (length es)) \<and> i_mode img r = Some md"

definition file_inode :: "image \<Rightarrow> int \<Rightarrow> u32 \<Rightarrow> bool" where
  "file_inode img r md \<longleftrightarrow> i_mode img r = Some md \<and> i_links img r = Some 1 \<and> i_size img r = Some 0 \<and> i_extents img r = Some 0"

definition inodes_hold :: "image \<Rightarrow> nat \<Rightarrow> dir_tree \<Rightarrow> (int \<Rightarrow> u32) \<Rightarrow> bool" where
  "inodes_hold img n tree md \<longleftrightarrow>
     (\<forall>d es. tree d = Some es \<longrightarrow> dir_inode img (ino_at n d) (md d) es) \<and>
     (\<forall>d. \<forall>i \<in> children tree d - dom tree. file_inode img (ino_at n i) (md i))"

lemma inode_agrees:
  assumes "agrees img img' r 64"
  shows "dir_inode img' r md es = dir_inode img r md es" "file_inode img' r md = file_inode img r md"
  using assms by (simp_all add: dir_inode_def file_inode_def inode_access ldi_def agrees_ld32 agrees_ld64)

definition refines :: "image \<Rightarrow> nat \<Rightarrow> afs \<Rightarrow> bool" where
  "refines img n a \<longleftrightarrow> fs_ok img n (a_tree a) (a_blk a) \<and> afs_ok a \<and> 8 \<le> n \<and> dat_ok img n 7 \<and>
     bits_hold img 4096 (a_inodes a) \<and> bits_hold img ((map_blocks n + 1) * 4096) (a_blocks a) \<and>
     sb_free_inodes img = Some (a_ifree a) \<and> sb_free_blocks img = Some (a_bfree a) \<and>
     inodes_hold img n (a_tree a) (a_mode a) \<and> sb_inodes_count img = Some (a_count a)"

lemma bits_hold_first:
  assumes "bits_hold img bm U" "lowest U = Some m"
  shows "first_free img bm m" "m < 8" "m \<notin> U"
proof -
  show m: "m < 8" "m \<notin> U" using assms(2) by (simp_all add: lowest_Some)
  have "\<forall>i < m. i \<in> U" using assms(2) by (simp add: lowest_Some)
  then show "first_free img bm m" using assms(1) m by (auto simp: first_free_def bits_hold_def)
qed

lemma place_Some:
  assumes "place a junk path = Some (p, es, name)"
  obtains pp where "new_path junk path pp name" "resolve (a_tree a) 0 (components pp) = p" "a_tree a p = Some es"
    "length es < 16" "strrchr path slash = Some 0 \<Longrightarrow> path = slash # name \<and> p = 0"
proof -
  obtain i where i: "strrchr path slash = Some i" "new_path junk path (take i path) name"
    "resolve (a_tree a) 0 (components (take i path)) = p" "a_tree a p = Some es" "length es < 16"
    using assms by (auto simp: place_def Let_def bind_eq_Some_conv split: if_splits)
  have "path = slash # name \<and> p = 0" if "strrchr path slash = Some 0"
    using i that by (auto simp: new_path_def components_def)
  with i(2-5) that show ?thesis by blast
qed

lemma afs_ok_fresh:
  assumes "afs_ok a" "m \<notin> a_inodes a"
  shows "int m \<notin> dom (a_tree a)" "\<forall>d. int m \<notin> children (a_tree a) d"
proof -
  have "dom (a_tree a) \<subseteq> int ` a_inodes a" "children (a_tree a) d \<subseteq> int ` a_inodes a" for d
    using assms(1) by (simp_all add: afs_ok_def)
  moreover have "int m \<notin> int ` a_inodes a" using assms(2) by auto
  ultimately show "int m \<notin> dom (a_tree a)" "\<forall>d. int m \<notin> children (a_tree a) d" by blast+
qed

lemma afs_ok_insert:
  assumes a: "afs_ok a" and p: "a_tree a p = Some es" "name \<notin> snd ` set es" and m: "m < 8" "m \<notin> a_inodes a"
  shows "afs_ok (a\<lparr>a_tree := (a_tree a)(p \<mapsto> es @ [(int m, name)]), a_inodes := insert m (a_inodes a), a_ifree := fi, a_mode := md\<rparr>)"
    and "k < 8 \<Longrightarrow> afs_ok (a\<lparr>a_tree := (a_tree a)(p \<mapsto> es @ [(int m, name)], int m \<mapsto> [(int m, dot), (p, dotdot)]),
        a_blk := (a_blk a)(int m := int k), a_inodes := insert m (a_inodes a), a_blocks := insert k (a_blocks a),
        a_ifree := fi, a_bfree := fb, a_mode := md\<rparr>)"
proof -
  have s: "tree_shape (a_tree a)" using a by (simp add: afs_ok_def)
  note add = shape_add [OF s p afs_ok_fresh [OF a m(2)], where dir = False, simplified]
    and addd = shape_add [OF s p afs_ok_fresh [OF a m(2)], where dir = True, simplified]
  show "afs_ok (a\<lparr>a_tree := (a_tree a)(p \<mapsto> es @ [(int m, name)]), a_inodes := insert m (a_inodes a), a_ifree := fi, a_mode := md\<rparr>)"
    using a m p(1) add by (auto simp: afs_ok_def image_subset_iff split: if_splits)
  show "k < 8 \<Longrightarrow> afs_ok (a\<lparr>a_tree := (a_tree a)(p \<mapsto> es @ [(int m, name)], int m \<mapsto> [(int m, dot), (p, dotdot)]),
        a_blk := (a_blk a)(int m := int k), a_inodes := insert m (a_inodes a), a_blocks := insert k (a_blocks a),
        a_ifree := fi, a_bfree := fb, a_mode := md\<rparr>)"
    using a m p(1) addd afs_ok_fresh(1) [OF a m(2)] by (auto simp: afs_ok_def image_subset_iff split: if_splits)
qed

lemma tree_inodes:
  assumes "fs_ok img n tree blk"
  shows "i \<in> dom tree \<Longrightarrow> 0 \<le> i \<and> i < int n" "i \<in> children tree d \<Longrightarrow> 0 \<le> i \<and> i < int n"
proof -
  show "0 \<le> i \<and> i < int n" if "i \<in> dom tree" using that fs_okD [OF assms] by (auto simp: dir_ok_def)
  show "0 \<le> i \<and> i < int n" if i: "i \<in> children tree d"
  proof -
    obtain es where "tree d = Some es" "i \<in> fst ` set es"
      using i by (auto simp: children_def split: option.splits dest: in_set_dropD)
    with fs_okD [OF assms this(1)] show ?thesis by (auto simp: dir_ok_def)
  qed
qed

lemma inodes_hold_frame:
  assumes old: "inodes_hold img n tree md" "fs_ok img n tree blk" and fr: "other_inodes img img' n p m"
    and md: "\<And>i. i \<noteq> m \<Longrightarrow> md' i = md i"
    and dirs: "\<And>d es. tree' d = Some es \<Longrightarrow> d \<noteq> p \<Longrightarrow> d \<noteq> m \<Longrightarrow> tree d = Some es"
    and p: "p \<in> dom tree'" "\<And>es. tree' p = Some es \<Longrightarrow> dir_inode img' (ino_at n p) (md' p) es"
    and m: "\<And>es. tree' m = Some es \<Longrightarrow> dir_inode img' (ino_at n m) (md' m) es"
    and files: "\<And>d i. i \<in> children tree' d - dom tree' \<Longrightarrow> i \<noteq> m \<Longrightarrow> \<exists>d. i \<in> children tree d - dom tree"
      "\<And>d. m \<notin> dom tree' \<Longrightarrow> m \<in> children tree' d \<Longrightarrow> file_inode img' (ino_at n m) (md' m)"
  shows "inodes_hold img' n tree' md'"
proof -
  have "dir_inode img' (ino_at n d) (md' d) es" if "tree' d = Some es" for d es
  proof (cases "d = p \<or> d = m")
    case True
    then show ?thesis using that p(2) m by blast
  next
    case False
    then have d: "tree d = Some es" using dirs that by blast
    then have "agrees img img' (ino_at n d) 64" using tree_inodes(1) [OF old(2)] fr False by blast
    then show ?thesis using old(1) d md False by (simp add: inodes_hold_def inode_agrees)
  qed
  moreover have "file_inode img' (ino_at n i) (md' i)" if i: "i \<in> children tree' d - dom tree'" for d i
  proof (cases "i = m")
    case True
    then show ?thesis using i files(2) by blast
  next
    case False
    then obtain d' where d': "i \<in> children tree d' - dom tree" using files(1) i by blast
    moreover have "i \<noteq> p" using p(1) i by blast
    ultimately have "agrees img img' (ino_at n i) 64" using tree_inodes(2) [OF old(2)] fr False by blast
    moreover have "file_inode img (ino_at n i) (md i)" using old(1) d' unfolding inodes_hold_def by blast
    ultimately show ?thesis using md [OF False] by (simp add: inode_agrees)
  qed
  ultimately show ?thesis unfolding inodes_hold_def by blast
qed

lemma bits_hold_agrees:
  assumes "bits_hold img bm U" "agrees img img' bm 4096" "bm_ok img bm" "bm_ok img' bm"
  shows "bits_hold img' bm U"
  using assms(1) bm_bit_agrees [OF assms(2-4)] by (simp add: bits_hold_def)

lemma refinesD:
  assumes "refines img n a"
  shows "fs_ok img n (a_tree a) (a_blk a)" "afs_ok a" "8 \<le> n" "dat_ok img n 7" "bits_hold img 4096 (a_inodes a)"
    "bits_hold img ((map_blocks n + 1) * 4096) (a_blocks a)" "sb_free_inodes img = Some (a_ifree a)"
    "sb_free_blocks img = Some (a_bfree a)" "inodes_hold img n (a_tree a) (a_mode a)"
    "bm_ok img (1 * 4096)" "bm_ok img ((map_blocks n + 1) * 4096)" "tree_shape (a_tree a)"
    "sb_inodes_count img = Some (a_count a)"
  using assms geometry_maps(1,2) [of img n] by (simp_all add: refines_def fs_ok_def afs_ok_def)

text \<open>The inodes after a new entry and after a removal.\<close>

lemma inodes_add:
  assumes old: "inodes_hold img n tree md" "fs_ok img n tree blk" "tree_shape tree" and p: "tree p = Some es" "name \<notin> snd ` set es"
    and m: "m \<notin> dom tree" "\<forall>d. m \<notin> children tree d" and fr: "other_inodes img img' n p m"
    and l: "i_links img' (ino_at n p) = map_option (\<lambda>l. l + 1) (i_links img (ino_at n p))"
      "i_mode img' (ino_at n p) = i_mode img (ino_at n p)"
    and t': "tree' = (if dir then tree(p \<mapsto> es @ [(m, name)], m \<mapsto> [(m, dot), (p, dotdot)]) else tree(p \<mapsto> es @ [(m, name)]))"
    and new: "if dir then dir_inode img' (ino_at n m) md0 [(m, dot), (p, dotdot)] else file_inode img' (ino_at n m) md0"
  shows "inodes_hold img' n tree' (md(m := md0))"
proof (rule inodes_hold_frame [OF old(1,2) fr])
  note add = shape_add(2) [OF old(3) p m t']
  have pm: "p \<noteq> m" using p(1) m(1) by auto
  show "dir_inode img' (ino_at n p) ((md(m := md0)) p) es'" if "tree' p = Some es'" for es'
    using old(1) l p(1) that pm by (auto simp: inodes_hold_def dir_inode_def t' split: if_splits)
  show "\<exists>d. i \<in> children tree d - dom tree" if "i \<in> children tree' d - dom tree'" "i \<noteq> m" for d i
    using that add [of d] by (auto simp: t' split: if_splits)
  show "tree d = Some es'" if "tree' d = Some es'" "d \<noteq> p" "d \<noteq> m" for d es' using that by (auto simp: t' split: if_splits)
  show "p \<in> dom tree'" by (simp add: t')
  show "dir_inode img' (ino_at n m) ((md(m := md0)) m) es'" if "tree' m = Some es'" for es'
    using that new m(1) pm by (auto simp: t' split: if_splits)
  show "file_inode img' (ino_at n m) ((md(m := md0)) m)" if "m \<notin> dom tree'" "m \<in> children tree' d" for d
    using that new by (auto simp: t' split: if_splits)
qed simp

lemma inodes_remove:
  assumes old: "inodes_hold img n tree md" "fs_ok img n tree blk" "tree_shape tree" and p: "tree p = Some es" and x: "2 \<le> x" "x < length es"
    and f: "f = fst (es ! x)" "children tree f = {}" and fr: "other_inodes img img' n p p"
    and l: "i_links img' (ino_at n p) = Some (of_nat (length es) - 1)" "i_mode img' (ino_at n p) = i_mode img (ino_at n p)"
  shows "inodes_hold img' n ((tree |` (- {f}))(p \<mapsto> remove_at x es)) md"
proof (rule inodes_hold_frame [OF old(1,2) fr])
  let ?tree = "(tree |` (- {f}))(p \<mapsto> remove_at x es)"
  note rem = shape_remove [OF old(3) p x f refl]
  have "of_nat (length (remove_at x es)) = (of_nat (length es) - 1 :: u32)"
    using x(2) remove_at_nth(1) [of x es] by (cases es) simp_all
  then show l': "dir_inode img' (ino_at n p) (md p) es'" if "?tree p = Some es'" for es'
    using l old(1) p that by (simp add: inodes_hold_def dir_inode_def)
  show "dir_inode img' (ino_at n p) (md p) es'" if "?tree p = Some es'" for es' using l' [OF that] .
  show "\<exists>c. i \<in> children tree c - dom tree" if i: "i \<in> children ?tree c - dom ?tree" "i \<noteq> p" for c i
  proof -
    have "i \<in> children tree c" "i \<noteq> f" using i rem(2) [of c] by auto
    moreover from this have "i \<notin> dom tree" using i by (auto simp: restrict_map_def)
    ultimately show ?thesis by blast
  qed
qed (auto simp: restrict_map_def split: if_splits)

text \<open>Only the count of free inodes changes.\<close>

lemma refines_count:
  assumes r: "refines img n a" and fs: "fs_ok img' n (a_tree a) (a_blk a)" and c: "changed img img' [(48, 4)]"
    and fi: "sb_free_inodes img' = Some fi"
  shows "refines img' n (a\<lparr>a_ifree := fi\<rparr>)"
proof -
  note R = refinesD [OF r] and bm = refinesD(10,11) [OF r]
  have "geometry img' n" using fs by (simp add: fs_ok_def)
  note bm' = geometry_maps(1,2) [OF this]
  have low: "1 \<le> map_blocks n" using region_order(4) .
  have inodes: "agrees img img' (ino_at n i) 64" if "0 \<le> i" "i < int n" for i
    using region_order(1) [OF that] low by (intro changed_agrees [OF c]) (simp add: apart_def)
  have root: "0 \<in> dom (a_tree a)" using R(1) by (simp add: fs_ok_def)
  have "inodes_hold img' n (a_tree a) (a_mode a)"
  proof (rule inodes_hold_frame [OF R(9,1), where p = 0 and m = 0])
    have "agrees img img' (ino_at n 0) 64" using inodes [of 0] R(3) by simp
    then show l: "dir_inode img' (ino_at n 0) (a_mode a 0) es" if "a_tree a 0 = Some es" for es
      using R(9) that by (simp add: inodes_hold_def inode_agrees)
    show "dir_inode img' (ino_at n 0) (a_mode a 0) es" if "a_tree a 0 = Some es" for es using l [OF that] .
  qed (use inodes root in auto)
  moreover have "agrees img img' (1 * 4096) 4096" "agrees img img' ((map_blocks n + 1) * 4096) 4096" "agrees img img' 44 4" "agrees img img' 36 4"
    using low by (auto intro!: changed_agrees [OF c] simp: apart_def)
  moreover have "afs_ok (a\<lparr>a_ifree := fi\<rparr>)" using R(2) by (simp add: afs_ok_def)
  ultimately show ?thesis
    using fs fi R bits_hold_agrees [OF _ _ bm(1) bm'(1)] bits_hold_agrees [OF _ _ bm(2) bm'(2)] changed_size [OF c]
    by (simp add: refines_def dat_ok_def sb_access agrees_ld32)
qed

lemma create_refines:
  assumes r: "refines img n a" and call: "abs_create a junk path md = Some (res, a')"
  shows "\<exists>img'. a1fs_create img junk path md = Some (res, img') \<and> refines img' n a'"
proof -
  obtain p es name m where h: "place a junk path = Some (p, es, name)" "lowest (a_inodes a) = Some m"
    "index_of name es = None" "md AND S_IFMT = S_IFREG"
    and res: "(res, a') = (if a_ifree a = 1 \<or> a_bfree a = 0 then (- ENOMEM, a\<lparr>a_ifree := a_ifree a - 1\<rparr>)
      else (0, a\<lparr>a_tree := (a_tree a)(p \<mapsto> es @ [(int m, name)]), a_inodes := insert m (a_inodes a), a_ifree := a_ifree a - 1,
        a_mode := (a_mode a)(int m := md)\<rparr>))"
    using call by (auto simp: abs_create_def bind_eq_Some_conv split: if_splits)
  obtain pp where pl: "new_path junk path pp name" "resolve (a_tree a) 0 (components pp) = p" "a_tree a p = Some es" "length es < 16"
    using place_Some [OF h(1)] by metis
  note R = refinesD [OF r] and bm = refinesD(10,11) [OF r]
  note m = bits_hold_first [OF R(5) h(2)]
  have name: "name \<notin> snd ` set es" using h(3) by (simp add: index_of_None)
  then have nm: "last_match name es = - ENOENT" using last_match_absent by simp
  have mn: "m < n" using m(2) R(3) by simp
  note fresh = afs_ok_fresh [OF R(2) m(3)]
  note eff = create_effect [OF R(1) pl nm m(1) mn fresh(1) R(7,8) h(4), of stat_zero]
  show ?thesis
  proof (cases "a_ifree a = 1 \<or> a_bfree a = 0")
    case True
    with eff obtain img' where e: "a1fs_create img junk path md = Some (- ENOMEM, img')" "sb_free_inodes img' = Some (a_ifree a - 1)"
      "fs_ok img' n (a_tree a) (a_blk a)" "changed img img' [(48, 4)]" by auto
    from refines_count [OF r e(3,4,2)] have "refines img' n (a\<lparr>a_ifree := a_ifree a - 1\<rparr>)" .
    with e(1) res True show ?thesis by auto
  next
    case False
    with eff obtain img' where e: "a1fs_create img junk path md = Some (0, img')"
      "fs_ok img' n ((a_tree a)(p \<mapsto> es @ [(int m, name)])) (a_blk a)" "sb_free_inodes img' = Some (a_ifree a - 1)"
      "sb_free_blocks img' = Some (a_bfree a)"
      "i_links img' (ino_at n p) = map_option (\<lambda>l. l + 1) (i_links img (ino_at n p))"
      "i_mode img' (ino_at n p) = i_mode img (ino_at n p)" "other_inodes img img' n p (int m)"
      "file_inode img' (ino_at n (int m)) md" "marks img img' 4096 m"
      "changed img img' (create_ranges n p (int m) (a_blk a p) (int (length es)))" "agrees img img' 0 44"
      by (auto simp: file_inode_def)
    let ?tree = "(a_tree a)(p \<mapsto> es @ [(int m, name)])"
    have "geometry img' n" using e(2) by (simp add: fs_ok_def)
    note bm' = geometry_maps(1,2) [OF this]
    have "0 \<le> int m" "int m < int n" using mn by simp_all
    then have "agrees img img' ((map_blocks n + 1) * 4096) 4096"
      using region_order(1) [OF dir_regions(1,2) [OF R(1) pl(3)]] dir_regions [OF R(1) pl(3)] region_order(1) [of "int m" n]
        region_order(4) [of n]
      by (intro changed_agrees [OF e(10)]) (simp add: apart_def)
    then have "bits_hold img' ((map_blocks n + 1) * 4096) (a_blocks a)" using bits_hold_agrees [OF R(6) _ bm(2) bm'(2)] by blast
    moreover have "inodes_hold img' n ?tree ((a_mode a)(int m := md))"
      using inodes_add [OF R(9,1,12) pl(3) name fresh e(7,5,6), where dir = False] e(8) by simp
    moreover have "bits_hold img' 4096 (insert m (a_inodes a))" using R(5) e(9) m(2) by (auto simp: bits_hold_def)
    moreover have "dat_ok img' n 7" using R(4) changed_size [OF e(10)] by (simp add: dat_ok_def)
    moreover have "sb_inodes_count img' = Some (a_count a)" using R(13) agrees_ld32 [OF e(11)] by (simp add: sb_access)
    ultimately show ?thesis
      using e(1-4) afs_ok_insert(1) [OF R(2) pl(3) name m(2,3)] R(3) res False by (auto simp: refines_def)
  qed
qed

lemma mkdir_refines:
  assumes r: "refines img n a" and call: "abs_mkdir a junk path md = Some (res, a')"
  shows "\<exists>img'. a1fs_mkdir img junk path md = Some (res, img') \<and> refines img' n a'"
proof -
  obtain p es name m k where h: "place a junk path = Some (p, es, name)" "lowest (a_inodes a) = Some m"
    "lowest (a_blocks a) = Some k" "index_of name es = None" "(md OR S_IFDIR) OR 511 = S_IFDIR OR 511"
    and res: "(res, a') = (if a_ifree a = 0 \<or> a_bfree a = 0 then (- ENOMEM, a)
      else (0, a\<lparr>a_tree := (a_tree a)(p \<mapsto> es @ [(int m, name)], int m \<mapsto> [(int m, dot), (p, dotdot)]),
                a_blk := (a_blk a)(int m := int k),
                a_inodes := insert m (a_inodes a), a_blocks := insert k (a_blocks a),
                a_ifree := a_ifree a - 1, a_bfree := a_bfree a - 1,
                a_mode := (a_mode a)(int m := md OR S_IFDIR)\<rparr>))"
    using call by (auto simp: abs_mkdir_def bind_eq_Some_conv split: if_splits)
  obtain pp where pl: "new_path junk path pp name" "resolve (a_tree a) 0 (components pp) = p" "a_tree a p = Some es" "length es < 16"
    using place_Some [OF h(1)] by metis
  note R = refinesD [OF r]
  note m = bits_hold_first [OF R(5) h(2)] and k = bits_hold_first [OF R(6) h(3)]
  have name: "name \<notin> snd ` set es" using h(4) by (simp add: index_of_None)
  then have nm: "last_match name es = - ENOENT" using last_match_absent by simp
  have mn: "m < n" using m(2) R(3) by simp
  have dk: "dat_ok img n (int k)" using R(4) k(2) by (simp add: dat_ok_def dat_at_def)
  have "a_blk a ` dom (a_tree a) \<subseteq> int ` a_blocks a" using R(2) by (simp add: afs_ok_def)
  moreover have "int k \<notin> int ` a_blocks a" using k(3) by auto
  ultimately have kb: "int k \<notin> a_blk a ` dom (a_tree a)" by (rule contra_subsetD)
  note fresh = afs_ok_fresh [OF R(2) m(3)]
  note eff = mkdir_effect [OF R(1) pl nm m(1) mn fresh(1) k(1) dk kb R(7,8) h(5)]
  show ?thesis
  proof (cases "a_ifree a = 0 \<or> a_bfree a = 0")
    case True
    then show ?thesis using eff res r by auto
  next
    case False
    let ?tree = "(a_tree a)(p \<mapsto> es @ [(int m, name)], int m \<mapsto> [(int m, dot), (p, dotdot)])"
    from False eff obtain img' where e: "a1fs_mkdir img junk path md = Some (0, img')"
      "fs_ok img' n ?tree ((a_blk a)(int m := int k))" "sb_free_inodes img' = Some (a_ifree a - 1)"
      "sb_free_blocks img' = Some (a_bfree a - 1)"
      "i_links img' (ino_at n p) = map_option (\<lambda>l. l + 1) (i_links img (ino_at n p))"
      "i_mode img' (ino_at n p) = i_mode img (ino_at n p)" "other_inodes img img' n p (int m)"
      "dir_inode img' (ino_at n (int m)) (md OR S_IFDIR) [(int m, dot), (p, dotdot)]"
      "marks img img' 4096 m" "marks img img' ((map_blocks n + 1) * 4096) k"
      "changed img img' (mkdir_writes_to n p (int m) (int k) (a_blk a p) (int (length es)))" "agrees img img' 0 44"
      by (auto simp: dir_inode_def)
    have "inodes_hold img' n ?tree ((a_mode a)(int m := md OR S_IFDIR))"
      using inodes_add [OF R(9,1,12) pl(3) name fresh e(7,5,6), where dir = True] e(8) by simp
    moreover have "bits_hold img' 4096 (insert m (a_inodes a))" using R(5) e(9) m(2) by (auto simp: bits_hold_def)
    moreover have "bits_hold img' ((map_blocks n + 1) * 4096) (insert k (a_blocks a))"
      using R(6) e(10) k(2) by (auto simp: bits_hold_def)
    moreover have "dat_ok img' n 7" using R(4) changed_size [OF e(11)] by (simp add: dat_ok_def)
    moreover have "sb_inodes_count img' = Some (a_count a)" using R(13) agrees_ld32 [OF e(12)] by (simp add: sb_access)
    ultimately show ?thesis
      using e(1-4) afs_ok_insert(2) [OF R(2) pl(3) name m(2,3) k(2)] R(3) res False by (auto simp: refines_def)
  qed
qed

lemma image_int_minus:
  assumes "A \<subseteq> int ` U" "f \<in> int ` U"
  shows "A - {f} \<subseteq> int ` (U - {nat f})"
proof
  fix y assume "y \<in> A - {f}"
  then have "y \<in> int ` U" "y \<noteq> f" using assms(1) by blast+
  then obtain j where "y = int j" "j \<in> U" "j \<noteq> nat f" using assms(2) by auto
  then show "y \<in> int ` (U - {nat f})" by simp
qed

lemma afs_ok_remove:
  assumes a: "afs_ok a" and p: "a_tree a p = Some es" and x: "2 \<le> x" "x < length es"
    and f: "f = fst (es ! x)" "children (a_tree a) f = {}" and inj: "inj_on (a_blk a) (dom (a_tree a))"
    and B: "B = (if f \<in> dom (a_tree a) then a_blocks a - {nat (a_blk a f)} else a_blocks a)"
  shows "afs_ok (a\<lparr>a_tree := ((a_tree a) |` (- {f}))(p \<mapsto> remove_at x es), a_inodes := a_inodes a - {nat f},
      a_blocks := B, a_ifree := fi\<rparr>)"
proof -
  let ?tree = "((a_tree a) |` (- {f}))(p \<mapsto> remove_at x es)"
  have s: "tree_shape (a_tree a)" using a by (simp add: afs_ok_def)
  note rem = shape_remove [OF s p x f refl]
  have dom: "dom ?tree = dom (a_tree a) - {f}" using p rem(5) by auto
  have sub: "dom (a_tree a) \<subseteq> int ` a_inodes a" "children (a_tree a) d \<subseteq> int ` a_inodes a"
    "a_blk a ` dom (a_tree a) \<subseteq> int ` a_blocks a" for d
    using a by (simp_all add: afs_ok_def)
  have f: "f \<in> int ` a_inodes a" using sub(2) rem(3) by blast
  have "a_blk a ` (dom (a_tree a) - {f}) \<subseteq> int ` B"
  proof (cases "f \<in> dom (a_tree a)")
    case True
    have "a_blk a ` (dom (a_tree a) - {f}) \<subseteq> a_blk a ` dom (a_tree a) - {a_blk a f}"
      using inj True by (auto dest: inj_onD)
    also have "\<dots> \<subseteq> int ` (a_blocks a - {nat (a_blk a f)})"
    proof (rule image_int_minus [OF sub(3)])
      show "a_blk a f \<in> int ` a_blocks a" using sub(3) imageI [OF True] by (rule subsetD)
    qed
    finally show ?thesis using True B by simp
  next
    case False
    then show ?thesis using sub(3) B by auto
  qed
  moreover have "B \<subseteq> {..<8}" using a B by (auto simp: afs_ok_def)
  moreover define T where "T = ?tree"
  moreover have "a_inodes a - {nat f} \<subseteq> {..<8}" using a by (auto simp: afs_ok_def)
  ultimately have "afs_ok (a\<lparr>a_tree := T, a_inodes := a_inodes a - {nat f}, a_blocks := B, a_ifree := fi\<rparr>)"
    using rem(1,2) [folded T_def] dom [folded T_def] image_int_minus [OF sub(1) f] image_int_minus [OF sub(2) f]
    by (simp add: afs_ok_def)
  then show ?thesis by (simp add: T_def)
qed

lemma unlink_refines:
  assumes r: "refines img n a" and call: "abs_unlink a junk path = Some (res, a')"
  shows "\<exists>img'. a1fs_unlink img junk path = Some (res, img') \<and> refines img' n a'"
proof -
  obtain p es name x f where h: "place a junk path = Some (p, es, name)" "index_of name es = Some x" "f = fst (es ! x)"
    "strrchr path slash = Some 0" "f \<notin> dom (a_tree a)"
    and res: "res = 0" "a' = a\<lparr>a_tree := (a_tree a)(p \<mapsto> remove_at x es), a_inodes := a_inodes a - {nat f}, a_ifree := a_ifree a + 1\<rparr>"
    using call by (auto simp: abs_unlink_def Let_def bind_eq_Some_conv split: if_splits)
  obtain pp where new: "new_path junk path pp name" and pl: "a_tree a 0 = Some es" "length es < 16" "path = slash # name" "p = 0"
    using place_Some [OF h(1)] h(4) by metis
  note R = refinesD [OF r]
  have nm: "name \<noteq> []" "slash \<notin> set name" "length path < 100" using new by (auto simp: new_path_def)
  note x = index_of_Some [OF h(2)]
  have ex: "es ! x = (f, name)" using x(2) h(3) by (simp add: prod_eq_iff)
  obtain q ch where es: "es = (0, dot) # (q, dotdot) # ch" "distinct (map snd es)" "children (a_tree a) 0 = fst ` set ch"
    "if (0 :: int) = 0 then q = 0 else 0 \<in> children (a_tree a) q"
    using dir_shapeE [OF R(12) pl(1)] .
  have q0: "q = 0" using es(4) by simp
  have x2: "2 \<le> x"
  proof (rule ccontr)
    assume "\<not> 2 \<le> x"
    then have "x = 0 \<or> x = 1" by linarith
    then have "f = 0" using h(3) es(1) q0 by auto
    with h(5) pl(1) show False by auto
  qed
  have none: "children (a_tree a) f = {}" using h(5) by (auto simp: children_def split: option.splits)
  note rem = shape_remove [OF R(12) pl(1) x2 x(1) h(3) none refl]
  have fu: "f \<in> int ` a_inodes a" "a_inodes a \<subseteq> {..<8}" using R(2) rem(3) unfolding afs_ok_def by blast+
  then have f8: "0 \<le> f" "f < 8" by auto
  have "file_inode img (ino_at n f) (a_mode a f)" using R(9) rem(3) h(5) unfolding inodes_hold_def by blast
  then have "i_extents img (ino_at n f) = Some 0" by (simp add: file_inode_def)
  then have fx: "file_extents img n f []" by (simp add: file_extents_def)
  have l: "i_links img (ino_at n 0) = Some (of_nat (length es))" using R(9) pl(1) by (simp add: inodes_hold_def dir_inode_def)
  have f32: "f < 32768" using f8 by simp
  obtain img' where e: "a1fs_unlink img junk path = Some (0, img')" "fs_ok img' n ((a_tree a)(0 \<mapsto> remove_at x es)) (a_blk a)"
    "sb_free_inodes img' = Some (a_ifree a + 1)" "sb_free_blocks img' = Some (a_bfree a)"
    "i_links img' (ino_at n 0) = Some (of_nat (length es) - 1)"
    "\<forall>j < 32768. bm_bit img' 4096 j = (bm_bit img 4096 j \<and> j \<noteq> nat f)"
    "\<forall>j < 32768. bm_bit img' ((map_blocks n + 1) * 4096) j = bm_bit img ((map_blocks n + 1) * 4096) j"
    "other_inodes img img' n 0 0" "i_mode img' (ino_at n 0) = i_mode img (ino_at n 0)"
    "changed img img' (remove_ranges n 0 (a_blk a 0) x)" "agrees img img' 0 44"
    using unlink_effect [OF R(1) pl(3) nm pl(1,2) es(2) x(1) ex h(5) f32 fx R(7,8) l, of junk]
    by (auto simp: blocks_of_def)
  have same: "(a_tree a) |` (- {f}) = a_tree a" using h(5) by (auto simp: restrict_map_def fun_eq_iff domIff)
  have "inodes_hold img' n ((a_tree a)(0 \<mapsto> remove_at x es)) (a_mode a)"
    using inodes_remove [OF R(9,1,12) pl(1) x2 x(1) h(3) none e(8,5,9)] unfolding same .
  moreover have "bits_hold img' 4096 (a_inodes a - {nat f})" using R(5) e(6) by (auto simp: bits_hold_def)
  moreover have "bits_hold img' ((map_blocks n + 1) * 4096) (a_blocks a)" using R(6) e(7) by (simp add: bits_hold_def)
  moreover have "dat_ok img' n 7" using R(4) changed_size [OF e(10)] by (simp add: dat_ok_def)
  moreover have "sb_inodes_count img' = Some (a_count a)" using R(13) agrees_ld32 [OF e(11)] by (simp add: sb_access)
  moreover have "afs_ok a'"
    using afs_ok_remove [OF R(2) pl(1) x2 x(1) h(3) none _ refl, of "a_ifree a + 1"] R(1) h(5) res(2) pl(4)
    unfolding same by (simp add: fs_ok_def)
  ultimately show ?thesis using e(1-4) R(3) res pl(4) by (simp add: refines_def)
qed

lemma rmdir_refines:
  assumes r: "refines img n a" and call: "abs_rmdir a junk path = Some (res, a')"
  shows "\<exists>img'. a1fs_rmdir img junk path = Some (res, img') \<and> refines img' n a'"
proof -
  obtain p es name where 1: "place a junk path = Some (p, es, name)"
    using call by (cases "place a junk path") (auto simp: abs_rmdir_def)
  obtain x where 2: "index_of name es = Some x" using call 1 by (cases "index_of name es") (auto simp: abs_rmdir_def)
  define d where "d = fst (es ! x)"
  obtain ed where 3: "a_tree a d = Some ed" using call 1 2 by (cases "a_tree a d") (auto simp: abs_rmdir_def Let_def d_def)
  have 4: "2 \<le> x" using call 1 2 3 by (cases "2 \<le> x") (simp_all add: abs_rmdir_def Let_def d_def)
  have res: "(res, a') = (if length ed \<noteq> 2 then (- ENOTEMPTY, a)
      else (0, a\<lparr>a_tree := ((a_tree a) |` (- {d}))(p \<mapsto> remove_at x es), a_inodes := a_inodes a - {nat d},
        a_blocks := a_blocks a - {nat (a_blk a d)}, a_ifree := a_ifree a + 1\<rparr>))"
    using call 1 2 3 4 by (simp add: abs_rmdir_def Let_def d_def split: if_splits)
  note h = 1 2 d_def 3 4
  obtain pp where pl: "new_path junk path pp name" "resolve (a_tree a) 0 (components pp) = p" "a_tree a p = Some es" "length es < 16"
    using place_Some [OF h(1)] by metis
  note R = refinesD [OF r]
  note x = index_of_Some [OF h(2)]
  have ex: "es ! x = (d, name)" using x(2) h(3) by (simp add: prod_eq_iff)
  obtain q ch where es: "es = (p, dot) # (q, dotdot) # ch" "distinct (map snd es)"
    using dir_shapeE [OF R(12) pl(3)] .
  note ep = entry_path [OF R(1) pl(1-3) es(2) x(1) ex]
  have l: "i_links img (ino_at n d) = Some (of_nat (length ed))" "i_links img (ino_at n p) = Some (of_nat (length es))"
    using R(9) h(4) pl(3) by (simp_all add: inodes_hold_def dir_inode_def)
  show ?thesis
  proof (cases "length ed = 2")
    case False
    have "length ed \<le> 16" using dir_regions(9) [OF R(1) h(4)] .
    have g: "geometry img n" using R(1) by (simp add: fs_ok_def)
    have "(of_nat (length ed) :: u32) \<noteq> 2"
    proof
      assume "(of_nat (length ed) :: u32) = 2"
      then have "unat (of_nat (length ed) :: u32) = 2" by simp
      with False \<open>length ed \<le> 16\<close> show False by (simp add: unsigned_of_nat take_bit_nat_eq_self)
    qed
    then have "a1fs_rmdir img junk path = Some (- ENOTEMPTY, img)"
      using ep l(1) geometry_at(1) [OF g ep(2,3)] by (simp add: a1fs_rmdir_def)
    then show ?thesis using res False r by auto
  next
    case True
    obtain qd chd where ed: "ed = (d, dot) # (qd, dotdot) # chd" "children (a_tree a) d = fst ` set chd"
      using dir_shapeE [OF R(12) h(4)] by metis
    then have none: "children (a_tree a) d = {}" using True by simp
    note rem = shape_remove [OF R(12) pl(3) h(5) x(1) h(3) none refl]
    have du: "d \<in> int ` a_inodes a" "a_inodes a \<subseteq> {..<8}" "a_blk a d \<in> int ` a_blocks a" "a_blocks a \<subseteq> {..<8}"
      using R(2) rem(3) h(4) unfolding afs_ok_def by blast+
    then have d8: "d < 32768" "a_blk a d < 32768" by auto
    note refs = shape_remove_refs [OF R(12) pl(3) h(5) x(1) h(3) none]
    obtain img' where e: "a1fs_rmdir img junk path = Some (0, img')"
      "fs_ok img' n (((a_tree a) |` (- {d}))(p \<mapsto> remove_at x es)) (a_blk a)"
      "sb_free_inodes img' = Some (a_ifree a + 1)" "sb_free_blocks img' = Some (a_bfree a)"
      "i_links img' (ino_at n p) = Some (of_nat (length es) - 1)"
      "\<forall>j < 32768. bm_bit img' 4096 j = (bm_bit img 4096 j \<and> j \<noteq> nat d)"
      "\<forall>j < 32768. bm_bit img' ((map_blocks n + 1) * 4096) j =
        (bm_bit img ((map_blocks n + 1) * 4096) j \<and> j \<noteq> nat (a_blk a d))" "other_inodes img img' n p p"
      "i_mode img' (ino_at n p) = i_mode img (ino_at n p)" "changed img img' (remove_ranges n p (a_blk a p) x)"
      "agrees img img' 0 44"
      using rmdir_effect [OF R(1) pl es(2) x(1) ex h(4) rem(5,6) d8 refs R(7,8) l] True by auto
    have "inodes_hold img' n (((a_tree a) |` (- {d}))(p \<mapsto> remove_at x es)) (a_mode a)"
      using inodes_remove [OF R(9,1,12) pl(3) h(5) x(1) h(3) none e(8,5,9)] .
    moreover have "bits_hold img' 4096 (a_inodes a - {nat d})" using R(5) e(6) by (auto simp: bits_hold_def)
    moreover have "bits_hold img' ((map_blocks n + 1) * 4096) (a_blocks a - {nat (a_blk a d)})"
      using R(6) e(7) by (auto simp: bits_hold_def)
    moreover have "dat_ok img' n 7" using R(4) changed_size [OF e(10)] by (simp add: dat_ok_def)
    moreover have "sb_inodes_count img' = Some (a_count a)" using R(13) agrees_ld32 [OF e(11)] by (simp add: sb_access)
    moreover have "afs_ok a'"
      using afs_ok_remove [OF R(2) pl(3) h(5) x(1) h(3) none _ refl, of "a_ifree a + 1"] R(1) h(4) res True
      by (simp add: fs_ok_def domI)
    ultimately show ?thesis using e(1-4) R(3) res True by (auto simp: refines_def)
  qed
qed

section \<open>Reading\<close>

lemma resolve_cases:
  assumes "d \<in> dom tree \<or> (\<exists>q. d \<in> children tree q)" "tree_shape tree"
  shows "resolve tree d cs \<in> {- ENOENT, - ENOTDIR} \<or>
    resolve tree d cs \<in> dom tree \<or> (\<exists>q. resolve tree d cs \<in> children tree q)"
  using assms(1)
proof (induction cs arbitrary: d)
  case (Cons c cs)
  show ?case
  proof (cases "tree d")
    case (Some es)
    obtain q ch where es: "es = (d, dot) # (q, dotdot) # ch" "children tree d = fst ` set ch"
      "if d = 0 then q = 0 else d \<in> children tree q"
      using dir_shapeE [OF assms(2) Some] by metis
    have "q \<in> dom tree" using es(3) Some children_dom by (cases "d = 0") auto
    moreover have "last_match c es \<in> insert (- 2) (insert d (insert q (children tree d)))"
      using last_match_cases [of c es] es(1,2) by auto
    ultimately have "last_match c es = - 2 \<or> last_match c es \<in> dom tree \<or> last_match c es \<in> children tree d"
      using Some by blast
    then show ?thesis
    proof
      assume "last_match c es \<in> dom tree \<or> last_match c es \<in> children tree d"
      then have "last_match c es \<in> dom tree \<or> (\<exists>q. last_match c es \<in> children tree q)" by blast
      note IH = Cons.IH [OF this]
      show ?thesis
      proof (cases "last_match c es = - ENOENT")
        case True
        then show ?thesis using Some by simp
      next
        case False
        then have "resolve tree d (c # cs) = resolve tree (last_match c es) cs" using Some by simp
        with IH show ?thesis by (simp only:)
      qed
    qed (simp add: Some)
  qed simp
qed simp

lemma refines_path:
  assumes "refines img n a" "path_ok path"
  shows "path_inode img path = Some (resolve (a_tree a) 0 (components path))"
    and "resolve (a_tree a) 0 (components path) \<in> {- ENOENT, - ENOTDIR} \<or>
      resolve (a_tree a) 0 (components path) \<in> dom (a_tree a) \<or>
      (\<exists>q. resolve (a_tree a) 0 (components path) \<in> children (a_tree a) q)"
proof -
  note R = refinesD [OF assms(1)]
  have root: "0 \<in> dom (a_tree a)" using R(1) by (simp add: fs_ok_def)
  have c: "components [slash] = []" using components_slash [of "[]"] by simp
  show "path_inode img path = Some (resolve (a_tree a) 0 (components path))"
  proof (cases "path = [slash]")
    case True
    then show ?thesis using c by (simp add: path_inode_def)
  next
    case False
    then show ?thesis using path_inode_tree [OF fs_ok_tree [OF R(1)] root, of path] assms(2) by (simp add: path_ok_def)
  qed
  show "resolve (a_tree a) 0 (components path) \<in> {- ENOENT, - ENOTDIR} \<or>
      resolve (a_tree a) 0 (components path) \<in> dom (a_tree a) \<or>
      (\<exists>q. resolve (a_tree a) 0 (components path) \<in> children (a_tree a) q)"
    by (rule resolve_cases [OF disjI1 [OF root] R(12)])
qed

lemma getattr_refines:
  assumes r: "refines img n a" and call: "abs_getattr a path = Some res"
  shows "a1fs_getattr img path stat_zero = Some res"
proof -
  let ?i = "resolve (a_tree a) 0 (components path)"
  have h: "path_ok path" "res = (if ?i = - ENOENT \<or> ?i = - ENOTDIR then (?i, stat_zero) else (0, abs_stat a ?i))"
    using call by (auto simp: abs_getattr_def Let_def split: if_splits)
  note R = refinesD [OF r]
  note p = refines_path [OF r h(1)]
  have len: "length path < 4096" using h(1) by (simp add: path_ok_def)
  have g: "geometry img n" using R(1) by (simp add: fs_ok_def)
  consider "?i = - ENOENT \<or> ?i = - ENOTDIR" | "?i \<in> dom (a_tree a) \<or> (\<exists>q. ?i \<in> children (a_tree a) q)" using p(2) by blast
  then show ?thesis
  proof cases
    case 1
    then show ?thesis using p(1) h(2) len by (auto simp: a1fs_getattr_def)
  next
    case 2
    then have i: "0 \<le> ?i" "?i < int n" using tree_inodes [OF R(1)] by blast+
    note at = geometry_at(1,2) [OF g i]
    have ne: "?i \<noteq> - ENOENT" "?i \<noteq> - ENOTDIR" using i(1) by simp_all
    show ?thesis
    proof (cases "a_tree a ?i")
      case (Some es)
      have "dir_inode img (ino_at n ?i) (a_mode a ?i) es" using R(9) Some by (simp add: inodes_hold_def)
      moreover note dir_at(1,3,7) [OF R(1) Some]
      moreover have "int_ok (1 * A1FS_BLOCK_SIZE)" by (simp add: int_ok_def A1FS_BLOCK_SIZE_def)
      ultimately show ?thesis
        unfolding a1fs_getattr_def p(1) Option.bind.bind_lunit
        using h(2) len at i ne Some by (simp add: cint_ok dir_inode_def abs_stat_def A1FS_BLOCK_SIZE_def)
    next
      case None
      then have "?i \<notin> dom (a_tree a)" by auto
      then have "file_inode img (ino_at n ?i) (a_mode a ?i)" using 2 R(9) unfolding inodes_hold_def by blast
      then show ?thesis
        unfolding a1fs_getattr_def p(1) Option.bind.bind_lunit
        using h(2) len at i ne None by (simp add: cint_def int_ok_def file_inode_def abs_stat_def)
    qed
  qed
qed

lemma readdir_refines:
  assumes r: "refines img n a" and path: "path_ok path" and d: "a_tree a (resolve (a_tree a) 0 (components path)) = Some es"
  shows "a1fs_readdir img path = Some (0, map snd es)"
  using readdir_fs_ok [OF refinesD(1) [OF r] d refines_path(1) [OF r path]] path by (simp add: path_ok_def)

section \<open>Sessions\<close>

text \<open>What relates a file system to an abstract one.\<close>

definition fs_refines :: "fs_ctx \<Rightarrow> nat \<Rightarrow> afs \<Rightarrow> bool" where
  "fs_refines fs n a \<longleftrightarrow> refines (fs_image fs) n a \<and> fs_size fs = a_size a"

lemma calls_refine:
  assumes "refines (fs_image fs) n a"
  shows "abs_create a junk path md = Some (r, a') \<Longrightarrow>
      \<exists>img. a1fs_create (fs_image fs) junk path md = Some (r, img) \<and> refines img n a' \<and> a_size a' = a_size a"
    "abs_mkdir a junk path md = Some (r, a') \<Longrightarrow>
      \<exists>img. a1fs_mkdir (fs_image fs) junk path md = Some (r, img) \<and> refines img n a' \<and> a_size a' = a_size a"
    "abs_unlink a junk path = Some (r, a') \<Longrightarrow>
      \<exists>img. a1fs_unlink (fs_image fs) junk path = Some (r, img) \<and> refines img n a' \<and> a_size a' = a_size a"
    "abs_rmdir a junk path = Some (r, a') \<Longrightarrow>
      \<exists>img. a1fs_rmdir (fs_image fs) junk path = Some (r, img) \<and> refines img n a' \<and> a_size a' = a_size a"
  using create_refines [OF assms] mkdir_refines [OF assms] unlink_refines [OF assms] rmdir_refines [OF assms] call_keeps_size
  by metis+

lemma ops_refine:
  assumes r: "fs_refines fs n a" and call: "abs_ops a junk call = Some (res, a')"
  shows "\<exists>img'. a1fs_ops fs junk call = Some (res, img') \<and> fs_refines (fs\<lparr>fs_image := img'\<rparr>) n a'"
proof -
  have R: "refines (fs_image fs) n a" "fs_size fs = a_size a" using r by (simp_all add: fs_refines_def)
  note refs = calls_refine [OF R(1)]
  show ?thesis
  proof (cases call)
    case (Call_getattr path)
    then show ?thesis using getattr_refines [OF R(1), of path] call r by (auto simp: asks_def)
  next
    case (Call_readdir path)
    then show ?thesis using readdir_refines [OF R(1), of path] call r
      by (auto simp: asks_def abs_readdir_def split: if_splits)
  next
    case (Call_statfs path)
    then show ?thesis using call r R(2) refinesD(7,8,13) [OF R(1)] by (auto simp: asks_def a1fs_statfs_def abs_statfs_def)
  qed (use call R(2) in \<open>auto simp: becomes_def fs_refines_def dest!: refs\<close>)
qed

definition session_step :: "fs_ctx \<Rightarrow> u8 list \<times> fuse_call \<Rightarrow> ((int \<times> fuse_out) \<times> fs_ctx) option" where
  "session_step fs c = map_option (\<lambda>(r, img). (r, fs\<lparr>fs_image := img\<rparr>)) (a1fs_ops fs (fst c) (snd c))"

lemma session_runs: "a1fs_session fs calls = run_calls session_step fs calls"
proof (induction fs calls rule: a1fs_session.induct)
  case (2 fs junk call calls)
  show ?case
  proof (cases "a1fs_ops fs junk call")
    case (Some p)
    obtain r img where p: "p = (r, img)" by fastforce
    have IH: "a1fs_session (fs\<lparr>fs_image := img\<rparr>) calls = run_calls session_step (fs\<lparr>fs_image := img\<rparr>) calls"
      using 2 Some p by (cases r) simp
    have "session_step fs (junk, call) = Some (r, fs\<lparr>fs_image := img\<rparr>)" by (simp add: session_step_def Some p)
    then show ?thesis unfolding a1fs_session.simps run_calls.simps Some p
      by (cases "run_calls session_step (fs\<lparr>fs_image := img\<rparr>) calls") (auto simp: IH)
  qed (simp add: session_step_def)
qed simp

interpretation calls: simulation session_step "\<lambda>a (junk, call). abs_ops a junk call"
  "\<lambda>fs a. fs_refines fs n a" for n
proof (unfold_locales, goal_cases)
  case (1 fs a c r a')
  then show ?case using ops_refine [of fs n a "fst c" "snd c" r a'] by (cases c; cases r) (auto simp: session_step_def)
qed

lemma bits_of_128:
  assumes "rd img bm 4 = Some (le_bytes 4 (128 :: u32))"
  shows "bits_hold img bm {0}"
proof -
  have "map (\<lambda>i. img_byte img (nat bm + i)) [0..<4] = le_bytes 4 (128 :: u32)"
    using assms by (simp add: rd_def split: if_splits)
  then have "hd (map (\<lambda>i. img_byte img (nat bm + i)) [0..<4]) = hd (le_bytes 4 (128 :: u32))" by (rule arg_cong)
  then have b: "img_byte img (nat bm) = 128" using le_bytes.simps(2) [of 3 "128 :: u32"] by (simp add: hd_map)
  have "bm_bit img bm j = (j = 0)" if "j < 8" for j
  proof -
    have "(128 :: u8) = bit_mask (int 0)" by (simp add: bit_mask_def)
    then have "bit (128 :: u8) (7 - j) = bit (bit_mask (int 0)) (7 - j)" by (rule arg_cong)
    also have "\<dots> = (j = 0)" using that bit_bit_mask [of "int 0" "7 - j"] by auto
    finally show ?thesis using that b by (simp add: bm_bit_def)
  qed
  then show ?thesis by (simp add: bits_hold_def)
qed

lemma formatted_refines:
  assumes f: "formatted img (unat n) (mkfs_sb sz n) pad ipad" and g: "geometry img (unat n)" and n: "8 \<le> unat n"
    and room: "(lay_data (unat n) + 8) * 4096 \<le> int (img_size img)" "(lay_data (unat n) + 8) * 4096 \<le> 2147483647"
  shows "refines img (unat n) (new_afs (mkfs_sb sz n))"
proof -
  have sb: "rd img 0 56 = Some (sb_bytes (mkfs_sb sz n) pad)" using f by (simp add: formatted_def)
  have maps: "rd img 4096 4 = Some (le_bytes 4 (128 :: u32))"
    "rd img ((map_blocks (unat n) + 1) * 4096) 4096 = Some (le_bytes 4 (128 :: u32) @ replicate 4092 0)"
    using f by (simp_all add: formatted_def)
  have m2: "rd img ((map_blocks (unat n) + 1) * 4096) 4 = Some (le_bytes 4 (128 :: u32))"
    using rd_sub [OF maps(2), of "(map_blocks (unat n) + 1) * 4096" 4] by simp
  have d: "0 \<le> lay_data (unat n)" by (simp add: lay_defs)
  have s: "tree_shape root_tree"
    by (auto simp: tree_shape_def dir_shape_def root_tree_def root_entries_def children_def dot_def dotdot_def split: if_splits option.splits)
  have "inodes_hold img (unat n) root_tree (\<lambda>_. S_IFDIR OR 511)"
    using formatted_root(3,4) [OF f g]
    by (auto simp: inodes_hold_def dir_inode_def root_tree_def root_entries_def ino_at_def children_def split: if_splits)
  moreover have "afs_ok (new_afs (mkfs_sb sz n))"
    using s by (auto simp: afs_ok_def new_afs_def children_def root_tree_def root_entries_def split: if_splits option.splits)
  ultimately show ?thesis
    using formatted_fs_ok [OF f g] n room d bits_of_128 [OF maps(1)] bits_of_128 [OF m2] sb_fields(8,9,10) [OF sb]
    by (simp add: refines_def new_afs_def dat_ok_def dat_at_def)
qed

section \<open>Properties\<close>

text \<open>C26. From \<open>mkfs\<close> on, every sequence of \<open>a1fs_mkdir\<close>, \<open>a1fs_create\<close>, \<open>a1fs_rmdir\<close>,
  \<open>a1fs_unlink\<close> (in the root), \<open>a1fs_getattr\<close>, \<open>a1fs_readdir\<close> and \<open>a1fs_statfs\<close> refines the
  abstract file system: when the abstract calls are defined, that is while at most eight inodes
  and blocks are in use, no directory outgrows its block and the stack bytes behind the parent's
  path hold a zero, the calls return the abstract results with what they report (the attributes
  of an inode, the names in a directory, the counts of the file system) and end in an image of
  the abstract state.  The directories still form a tree, in which every path resolves as in the
  abstract one, and \<open>a1fs_readdir\<close> lists the abstract entries.\<close>

theorem calls_refine_tree:
  assumes disk: "unat sz = img_size disk" "opt_force opts" "8 \<le> unat (n_inodes opts)"
      "(lay_data (unat (n_inodes opts)) + 8) * 4096 \<le> min (int (img_size disk)) 2147483647"
    and calls: "abs_session (new_afs (mkfs_sb sz (n_inodes opts))) calls = Some (rs, a)"
  shows "\<exists>img img'. mkfs_main disk sz opts pad ipad = Some (0, img) \<and>
    a1fs_session \<lparr>fs_image = img, fs_size = sz\<rparr> calls = Some (rs, \<lparr>fs_image = img', fs_size = sz\<rparr>) \<and>
    refines img' (unat (n_inodes opts)) a \<and> tree_shape (a_tree a) \<and>
    (\<forall>path. path_ok path \<longrightarrow> path_inode img' path = Some (resolve (a_tree a) 0 (components path))) \<and>
    (\<forall>path es. path_ok path \<and> a_tree a (resolve (a_tree a) 0 (components path)) = Some es \<longrightarrow>
       a1fs_readdir img' path = Some (0, map snd es))"
proof -
  let ?n = "unat (n_inodes opts)"
  have "0 \<le> lay_data ?n" by (simp add: lay_defs)
  then have fit: "fits disk ?n" using disk(4) by (simp add: fits_def)
  have n: "n_inodes opts \<noteq> 0" using disk(3) by auto
  obtain img where img: "mkfs_main disk sz opts pad ipad = Some (0, img)" "img_size img = img_size disk"
    "geometry img ?n" "formatted img ?n (mkfs_sb sz (n_inodes opts)) pad ipad"
    using mkfs_main_effect [OF fit n disk(1), of pad ipad] disk(2) by auto
  have "refines img ?n (new_afs (mkfs_sb sz (n_inodes opts)))"
    using formatted_refines [OF img(4,3) disk(3)] disk(4) img(2) by simp
  then have "fs_refines \<lparr>fs_image = img, fs_size = sz\<rparr> ?n (new_afs (mkfs_sb sz (n_inodes opts)))"
    by (simp add: fs_refines_def new_afs_def mkfs_sb_def Let_def)
  then obtain fs' where run: "a1fs_session \<lparr>fs_image = img, fs_size = sz\<rparr> calls = Some (rs, fs')"
    "refines (fs_image fs') ?n a" "fs_size fs' = a_size a"
    using calls.run [of "\<lparr>fs_image = img, fs_size = sz\<rparr>" ?n "new_afs (mkfs_sb sz (n_inodes opts))" calls rs a] calls
    by (auto simp: session_runs abs_session_def fs_refines_def)
  have "a_size a = sz" using session_keeps_size [OF calls] by (simp add: new_afs_def mkfs_sb_def Let_def)
  then have sz: "fs_size fs' = sz" using run(3) by simp
  have "fs' = \<lparr>fs_image = fs_image fs', fs_size = sz\<rparr>" using sz by (cases fs') simp
  with img(1) run(1,2) refinesD(12) [OF run(2)] refines_path(1) [OF run(2)] readdir_refines [OF run(2)] show ?thesis
    by metis
qed

definition session_opts :: mkfs_opts where
  "session_opts = \<lparr>opt_img_path = None, n_inodes = 8, opt_help = False, opt_force = True, opt_zero = False\<rparr>"

definition session_disk :: image where
  "session_disk = \<lparr>img_size = 131072, img_byte = (\<lambda>_. 255)\<rparr>"

text \<open>\<open>mkdir /a\<close>, \<open>creat /a/b\<close>, \<open>rmdir /a\<close>, \<open>mkdir /c\<close>, \<open>rmdir /c\<close>, \<open>creat /d\<close>, \<open>unlink /d\<close>,
  \<open>stat /d\<close>, \<open>ls /a\<close>, \<open>stat /a\<close>, \<open>stat /a/b\<close> and \<open>df\<close>; the block of \<open>/c\<close> is not counted as free
  again.\<close>

definition session_calls :: "(u8 list \<times> fuse_call) list" where
  "session_calls = map (Pair (replicate 100 0))
     [Call_mkdir [47, 97] 0x1ED, Call_create [47, 97, 47, 98] 0x81A4, Call_rmdir [47, 97],
      Call_mkdir [47, 99] 0x1ED, Call_rmdir [47, 99], Call_create [47, 100] 0x81A4, Call_unlink [47, 100],
      Call_getattr [47, 100], Call_readdir [47, 97], Call_getattr [47, 97], Call_getattr [47, 97, 47, 98],
      Call_statfs [47]]"

definition session_outs :: "(int \<times> fuse_out) list" where
  "session_outs =
     [(0, No_output), (0, No_output), (- ENOTEMPTY, No_output),
      (0, No_output), (0, No_output), (0, No_output), (0, No_output),
      (- ENOENT, Stat stat_zero), (0, Names [dot, dotdot, [98]]),
      (0, Stat \<lparr>st_ino = 1, st_mode = 0x41ED, st_nlink = 3, st_size = 768, st_blocks = 8, st_mtim = (0, 0)\<rparr>),
      (0, Stat \<lparr>st_ino = 2, st_mode = 0x81A4, st_nlink = 1, st_size = 0, st_blocks = 0, st_mtim = (0, 0)\<rparr>),
      (0, Statvfs \<lparr>f_bsize = 4096, f_frsize = 4096, f_blocks = 32, f_bfree = 14, f_bavail = 14, f_files = 8,
                   f_ffree = 6, f_favail = 6, f_namemax = 252\<rparr>)]"

lemmas session_evaluation = session_calls_def session_outs_def new_afs_def abs_session_def abs_mkdir_def abs_create_def
  abs_rmdir_def abs_unlink_def abs_getattr_def abs_stat_def abs_readdir_def abs_statfs_def asks_def becomes_def place_def
  new_path_def lowest_def index_of_def strrchr_def components_def slash_def root_tree_def root_entries_def dot_def dotdot_def
  last_match_def remove_at_def path_ok_def restrict_map_def

lemma session_result:
  "\<exists>a. abs_session (new_afs (mkfs_sb 131072 8)) session_calls = Some (session_outs, a) \<and>
     a_tree a 0 = Some [(0, dot), (0, dotdot), (1, [97])]"
proof -
  have "free_inodes_count (mkfs_sb 131072 8) = 8" "free_blocks_count (mkfs_sb 131072 8) = 16"
    "inodes_count (mkfs_sb 131072 8) = 8" "sb_size (mkfs_sb 131072 8) = 131072"
    by (simp_all add: mkfs_sb_def Let_def lay_defs)
  then show ?thesis by (simp add: session_evaluation upt_rec A1FS_NAME_MAX_def)
qed

theorem calls_refine_tree_witness:
  "\<exists>img img'. mkfs_main session_disk 131072 session_opts 0 0 = Some (0, img) \<and>
     a1fs_session \<lparr>fs_image = img, fs_size = 131072\<rparr> session_calls =
       Some (session_outs, \<lparr>fs_image = img', fs_size = 131072\<rparr>) \<and>
     a1fs_readdir img' [47] = Some (0, [dot, dotdot, [97]])"
proof -
  obtain a where a: "abs_session (new_afs (mkfs_sb 131072 (n_inodes session_opts))) session_calls = Some (session_outs, a)"
      "a_tree a 0 = Some [(0, dot), (0, dotdot), (1, [97])]"
    using session_result by (auto simp: session_opts_def)
  have root: "path_ok [47]" "components [47] = []" by (simp_all add: path_ok_def components_def slash_def)
  have "unat (131072 :: u64) = img_size session_disk" "opt_force session_opts" "8 \<le> unat (n_inodes session_opts)"
    "(lay_data (unat (n_inodes session_opts)) + 8) * 4096 \<le> min (int (img_size session_disk)) 2147483647"
    by (simp_all add: session_disk_def session_opts_def lay_defs)
  from calls_refine_tree [OF this a(1), of 0 0] root a(2) show ?thesis by fastforce
qed

end
