(* ===== verification/A1fs_Truncate.thy ===== *)
theory A1fs_Truncate
  imports A1fs_Data
begin

text \<open>
  What \<open>a1fs_truncate\<close> (\<open>a1fs.c\<close>) does when it extends an empty file: the block is taken from the
  bitmap of the inodes, not from that of the data blocks.
\<close>

section \<open>The extent of an empty file\<close>

lemma update_extent_first:
  assumes g: "geometry img n" and f: "0 \<le> f" "f < int n"
    and e0: "i_extents img (ino_at n f) = Some 0" "i_number img (ino_at n f) = Some f"
  obtains img' where "update_extent img f k = Some img'" "changed img img' [(ext_at n f, 8), (ino_at n f + 36, 4)]"
    "i_extents img' (ino_at n f) = Some 1" "extent_at img' (ext_at n f) 0 = Some (word_of_int k, 1)"
proof -
  let ?e = "ext_at n f" and ?r = "ino_at n f"
  have o: "(map_blocks n + 3) * 4096 \<le> ?r" "?r + 64 \<le> lay_extent n * 4096" "lay_extent n * 4096 \<le> ?e"
    "?e + 4096 \<le> lay_data n * 4096" "1 \<le> map_blocks n"
    using region_order(1,2) [OF f] region_order(4) [of n] by simp_all
  note room = geometry_room(1) [OF g]
  obtain i1 where 1: "st32 img ?e (word_of_int k) = Some i1" "changed img i1 [(?e, 4)]" "ld32 i1 ?e = Some (word_of_int k)"
    using f32.field_effect [of ?e img "word_of_int k"] o room by auto
  obtain i2 where 2: "st32 i1 (?e + 4) 1 = Some i2" "changed i1 i2 [(?e + 4, 4)]" "ld32 i2 (?e + 4) = Some 1"
    using f32.field_effect [of "?e + 4" i1 1] o room changed_size [OF 1(2)] by auto
  have c2: "changed img i2 [(?e, 8)]" by (rule changed_merge [OF changed_trans [OF 1(2) 2(2)]]) simp
  obtain i3 where 3: "st32 i2 (?r + 36) 1 = Some i3" "changed i2 i3 [(?r + 36, 4)]" "ld32 i3 (?r + 36) = Some 1"
    using f32.field_effect [of "?r + 36" i2 1] o room changed_size [OF c2] by auto
  have a: "agrees img i1 (?r + 36) 4" "agrees img i2 (?r + 36) 4" "agrees i1 i2 ?e 4" "agrees i2 i3 ?e 8"
    using o changed_agrees [OF 1(2)] changed_agrees [OF c2] changed_agrees [OF 2(2)] changed_agrees [OF 3(2)]
    by (simp_all add: apart_def)
  have e: "i_extents i1 ?r = Some 0"
    using e0(1) agrees_ld32 [OF a(1)] by (simp add: inode_access ldi_def)
  obtain x y where x: "extent_at img ?e 0 = Some x" "extent_at i1 ?e 0 = Some y"
    using ld_defined(1) [of img ?e] ld_defined(1) [of img "?e + 4"] ld_defined(1) [of i1 ?e] ld_defined(1) [of i1 "?e + 4"]
      o room changed_size [OF 1(2)] by (auto simp: extent_at_def)
  have "update_extent img f k = Some i3"
    using geometry_at(1,2) [OF g f] e0 e x 1(1) 2(1) 3(1) by (simp add: update_extent_def)
  moreover have "extent_at i3 ?e 0 = Some (word_of_int k, 1)"
    using 1(3) 2(3) agrees_ld32 [OF a(3)] agrees_ld32 [OF a(4)] by (simp add: extent_at_def)
  ultimately show ?thesis
    using that changed_trans [OF c2 3(2)] 3(3) by (simp add: inode_access ldi_def)
qed

text \<open>Clearing the block.\<close>

lemma clear_block:
  assumes g: "geometry img n" and k: "dat_ok img n k"
  obtains img' where "wr img (dat_at n k) (replicate 4096 0) = Some img'" "changed img img' [(dat_at n k, 4096)]"
    "rd img' (dat_at n k) 4096 = Some (replicate 4096 0)"
proof -
  have "0 \<le> dat_at n k" "dat_at n k + 4096 \<le> int (img_size img)" using k by (simp_all add: dat_ok_def dat_at_def lay_defs)
  then obtain i1 where 1: "wr img (dat_at n k) (replicate 4096 0) = Some i1" "changed img i1 [(dat_at n k, 4096)]"
    using raw.st_effect [of "dat_at n k" "replicate 4096 0" img] by auto
  then show ?thesis using that rd_wr_same [OF 1(1)] by simp
qed

text \<open>The count and the bit, then the extent, the zeros and the size.\<close>

lemma truncate_marks:
  assumes fs: "fs_ok img n tree blk" and m: "first_free img 4096 m" "m < 8" and fb: "sb_free_blocks img = Some fb"
  obtains i1 i2 where "st32 img 44 (fb - 1) = Some i1" "find_next_bit i1 4096 = Some (int m)" "modify i1 4096 (int m) 1 = Some i2"
    "fs_ok i2 n tree blk" "sb_free_blocks i2 = Some (fb - 1)" "changed img i1 [(44, 4)]" "changed img i2 [(44, 4), (4096, 4096)]"
    "\<forall>j < 32768. bm_bit i2 4096 j = (j = m \<or> bm_bit img 4096 j)"
proof -
  have g: "geometry img n" using fs by (simp add: fs_ok_def)
  obtain i1 where 1: "st32 img 44 (fb - 1) = Some i1" "changed img i1 [(44, 4)]" "ld32 i1 44 = Some (fb - 1)"
    using f32.field_effect [of 44 img "fb - 1"] geometry_room(1) [OF g] by (auto simp: lay_defs)
  have fs1: "fs_ok i1 n tree blk" using fs_ok_low [OF fs 1(2)] by (simp add: lay_defs)
  then have g1: "geometry i1 n" by (simp add: fs_ok_def)
  have a1: "agrees img i1 4096 4096" by (intro changed_agrees [OF 1(2)]) (simp add: apart_def)
  note bm = geometry_maps(1) [OF g, simplified] geometry_maps(1) [OF g1, simplified]
  have free1: "first_free i1 4096 m" using first_free_agrees [OF a1 bm m(1)] .
  have mm: "m < 32768" using m(2) by simp
  obtain i2 where 2: "modify i1 4096 (int m) 1 = Some i2" "changed i1 i2 [(4096, 4096)]"
    using modify_bit [OF bm(2) m(2)] by blast
  have "bm_bit i2 4096 j = (j = m \<or> bm_bit img 4096 j)" if "j < 32768" for j
    using modify_ok [OF bm(2) mm, of 1] 2(1) that bm_bit_agrees [OF a1 bm that] by auto
  moreover have "fs_ok i2 n tree blk" using fs_ok_low [OF fs1 2(2)] by (simp add: lay_defs)
  moreover have "agrees i1 i2 44 4" by (intro changed_agrees [OF 2(2)]) (simp add: apart_def)
  ultimately show ?thesis
    using that 1 2 find_next_bit_first [OF bm(2) free1 m(2)] changed_trans [OF 1(2) 2(2)]
    by (simp add: sb_access agrees_ld32)
qed

lemma truncate_fills:
  assumes g: "geometry img n" and f: "0 \<le> f" "f < int n" and k: "dat_ok img n k"
    and empty: "i_extents img (ino_at n f) = Some 0" "i_size img (ino_at n f) = Some 0" "i_number img (ino_at n f) = Some f"
  obtains i1 i2 i3 where "update_extent img f k = Some i1" "i_size i1 (ino_at n f) = Some 0" "data_ptr i1 k = Some (dat_at n k)"
    "wr i1 (dat_at n k) (replicate 4096 0) = Some i2" "st64 i2 (ino_at n f + 8) sz = Some i3"
    "i_size i3 (ino_at n f) = Some sz" "i_extents i3 (ino_at n f) = Some 1"
    "extent_at i3 (ext_at n f) 0 = Some (word_of_int k, 1)" "rd i3 (dat_at n k) 4096 = Some (replicate 4096 0)"
    "changed img i3 [(ext_at n f, 8), (ino_at n f + 36, 4), (dat_at n k, 4096), (ino_at n f + 8, 8)]"
proof -
  let ?r = "ino_at n f" and ?e = "ext_at n f" and ?b = "dat_at n k"
  have o: "(map_blocks n + 3) * 4096 \<le> ?r" "?r + 64 \<le> lay_extent n * 4096" "lay_extent n * 4096 \<le> ?e"
    "?e + 4096 \<le> lay_data n * 4096" "lay_data n * 4096 \<le> ?b" "1 \<le> map_blocks n"
    using region_order(1,2) [OF f] region_order(3) [of k n] region_order(4) [of n] k by (simp_all add: dat_ok_def)
  obtain i1 where 1: "update_extent img f k = Some i1" "changed img i1 [(?e, 8), (?r + 36, 4)]" "i_extents i1 ?r = Some 1"
    "extent_at i1 ?e 0 = Some (word_of_int k, 1)"
    using update_extent_first [OF g f empty(1,3)] by metis
  have a1: "agrees img i1 (?r + 8) 8" "agrees img i1 0 44"
    using o by (intro changed_agrees [OF 1(2)]; simp add: apart_def)+
  have g1: "geometry i1 n" using geometry_agrees [OF g a1(2) changed_size [OF 1(2)]] .
  have sz1: "i_size i1 ?r = Some 0" using empty(2) by (simp add: inode_access agrees_ld64 [OF a1(1)])
  have k1: "dat_ok i1 n k" using k changed_size [OF 1(2)] by (simp add: dat_ok_def)
  obtain i2 where 2: "wr i1 ?b (replicate 4096 0) = Some i2" "changed i1 i2 [(?b, 4096)]" "rd i2 ?b 4096 = Some (replicate 4096 0)"
    using clear_block [OF g1 k1] by metis
  have a2: "agrees i1 i2 0 44" using o by (intro changed_agrees [OF 2(2)]) (simp add: apart_def)
  obtain i3 where 3: "st64 i2 (?r + 8) sz = Some i3" "changed i2 i3 [(?r + 8, 8)]" "i_size i3 ?r = Some sz"
    using size_write [OF geometry_agrees [OF g1 a2 changed_size [OF 2(2)]] f] by blast
  have a3: "agrees i1 i3 (?r + 36) 4" "agrees i1 i3 ?e 8" "agrees i2 i3 ?b 4096"
    using o changed_agrees [OF changed_trans [OF 2(2) 3(2)]] changed_agrees [OF 3(2)] by (simp_all add: apart_def)
  have "i_extents i3 ?r = Some 1" "extent_at i3 ?e 0 = Some (word_of_int k, 1)" "rd i3 ?b 4096 = Some (replicate 4096 0)"
    using 1(3,4) 2(3) agrees_ld32 [OF a3(1)] agrees_ld32 [OF a3(2)] agrees_rd [OF a3(3), of ?b 4096]
    by (simp_all add: inode_access ldi_def extent_at_def)
  then show ?thesis
    using that [OF 1(1) sz1 geometry_at(3) [OF g1 k1] 2(1) 3(1,3)] changed_trans [OF changed_trans [OF 1(2) 2(2)] 3(2)] by simp
qed

text \<open>The whole call.\<close>

lemma truncate_effect:
  assumes fs: "fs_ok img n tree blk" and f: "file_path tree n path f"
    and empty: "i_extents img (ino_at n f) = Some 0" "i_size img (ino_at n f) = Some 0" "i_number img (ino_at n f) = Some f"
    and m: "first_free img 4096 m" "m < 8" "dat_ok img n (int m)" "int m \<notin> blk ` dom tree"
    and fb: "sb_free_blocks img = Some fb" and s: "0 < s" "s < 4096"
  shows "\<exists>img'. a1fs_truncate img path (int s) = Some (0, img') \<and>
    (\<forall>j < 32768. bm_bit img' 4096 j = (j = m \<or> bm_bit img 4096 j) \<and>
      bm_bit img' ((map_blocks n + 1) * 4096) j = bm_bit img ((map_blocks n + 1) * 4096) j) \<and>
    i_size img' (ino_at n f) = Some (of_nat s) \<and> i_extents img' (ino_at n f) = Some 1 \<and>
    extent_at img' (ext_at n f) 0 = Some (word_of_int (int m), 1) \<and>
    a1fs_read img' path (of_nat s) 0 = Some (int s, replicate s 0) \<and>
    sb_free_blocks img' = Some (fb - 1) \<and> sb_free_inodes img' = sb_free_inodes img \<and>
    fs_ok img' n tree blk \<and> (\<forall>i. 0 \<le> i \<and> i < int n \<and> i \<noteq> f \<longrightarrow> agrees img img' (ino_at n i) 64)"
proof -
  let ?r = "ino_at n f" and ?e = "ext_at n f" and ?b = "dat_at n (int m)" and ?bm = "(map_blocks n + 1) * 4096"
  have g: "geometry img n" using fs by (simp add: fs_ok_def)
  have fr: "0 \<le> f" "f < int n" "f \<notin> dom tree" using f by (simp_all add: file_path_def)
  have o: "(map_blocks n + 3) * 4096 \<le> ?r" "?r + 64 \<le> lay_extent n * 4096" "lay_extent n * 4096 \<le> ?e"
    "?e + 4096 \<le> lay_data n * 4096" "lay_data n * 4096 \<le> ?b" "1 \<le> map_blocks n"
    using region_order(1,2) [OF fr(1,2)] region_order(3) [of "int m" n] region_order(4) [of n] by simp_all
  obtain i1 i2 where 1: "st32 img 44 (fb - 1) = Some i1" "find_next_bit i1 4096 = Some (int m)" "modify i1 4096 (int m) 1 = Some i2"
    "fs_ok i2 n tree blk" "sb_free_blocks i2 = Some (fb - 1)" "changed img i1 [(44, 4)]" "changed img i2 [(44, 4), (4096, 4096)]"
    "\<forall>j < 32768. bm_bit i2 4096 j = (j = m \<or> bm_bit img 4096 j)"
    using truncate_marks [OF fs m(1,2) fb] .
  have g2: "geometry i2 n" using 1(4) by (simp add: fs_ok_def)
  have a: "agrees img i1 ?r 64" "agrees img i2 ?r 64" "agrees img i1 0 44"
    using o by (auto intro!: changed_agrees [OF 1(6)] changed_agrees [OF 1(7)] simp: apart_def)
  have g1: "geometry i1 n" using geometry_agrees [OF g a(3) changed_size [OF 1(6)]] .
  have e: "i_extents i1 ?r = Some 0" "i_size i1 ?r = Some 0" "i_extents i2 ?r = Some 0" "i_size i2 ?r = Some 0" "i_number i2 ?r = Some f"
    using empty agrees_ld32 [OF a(1)] agrees_ld64 [OF a(1)] agrees_ld32 [OF a(2)] agrees_ld64 [OF a(2)]
    by (simp_all add: inode_access ldi_def)
  have k2: "dat_ok i2 n (int m)" using m(3) changed_size [OF 1(7)] by (simp add: dat_ok_def)
  obtain i3 i4 i5 where 2: "update_extent i2 f (int m) = Some i3" "i_size i3 ?r = Some 0" "data_ptr i3 (int m) = Some ?b"
    "wr i3 ?b (replicate 4096 0) = Some i4" "st64 i4 (?r + 8) (of_nat s) = Some i5" "i_size i5 ?r = Some (of_nat s)"
    "i_extents i5 ?r = Some 1" "extent_at i5 ?e 0 = Some (word_of_int (int m), 1)" "rd i5 ?b 4096 = Some (replicate 4096 0)"
    "changed i2 i5 [(?e, 8), (?r + 36, 4), (?b, 4096), (?r + 8, 8)]"
    using truncate_fills [OF g2 fr(1,2) k2 e(3-5)] .
  have "changed i2 i5 (file_ranges n f (int m))" using 2(10) by (simp add: changed_def conj_ac)
  then have fs5: "fs_ok i5 n tree blk" using file_ranges_fs_ok [OF 1(4) fr _ m(4)] by simp
  note all = changed_trans [OF 1(7) 2(10), simplified]
  have "to_int (of_nat s :: u64) = int s" "(of_nat s :: u64) > 0" "int s sdiv 4096 = 0" "to_int (0 :: u64) = 0"
    using s to_int_of_nat [of s] small_sdiv(1) [of "int s"] unat_of_nat_u64 [of s]
    by (auto simp: word_gt_0 unat_eq_0 A1fs_Format.to_int_def)
  then have call: "a1fs_truncate img path (int s) = Some (0, i5)"
    using g file_path_inode [OF fs f] empty(2) fb 1(1-3) e(1,2) 2(1-5) geometry_at(2) [OF g1 fr(1,2)]
    by (simp add: a1fs_truncate_def geometry_def A1FS_BLOCK_SIZE_def cint_def int_ok_def Let_def)
  have a5: "agrees i2 i5 44 4" "agrees img i5 48 4" "agrees i2 i5 4096 4096" "agrees img i5 ?bm 4096"
    using o changed_agrees [OF 2(10)] changed_agrees [OF all] by (simp_all add: apart_def)
  have cnt: "sb_free_blocks i5 = Some (fb - 1)" "sb_free_inodes i5 = sb_free_inodes img"
    using 1(5) agrees_ld32 [OF a5(1)] agrees_ld32 [OF a5(2)] by (simp_all add: sb_access)
  have read: "a1fs_read i5 path (of_nat s) 0 = Some (int s, replicate s 0)"
    using read_one_block [OF fs5 f 2(7,8) _ 2(6), of 0 "replicate s 0"] rd_sub [OF 2(9), of ?b s] m(3) changed_size [OF all] s
    by (simp add: dat_ok_def)
  have bm: "bm_ok i2 4096" "bm_ok i5 4096" "bm_ok img ?bm" "bm_ok i5 ?bm"
    using geometry_maps(1) [OF g2] geometry_maps(2) [OF g] geometry_maps(1,2) [of i5 n] fs5 by (simp_all add: fs_ok_def)
  have bits: "bm_bit i5 4096 j = (j = m \<or> bm_bit img 4096 j) \<and> bm_bit i5 ?bm j = bm_bit img ?bm j" if "j < 32768" for j
    using 1(8) that bm_bit_agrees [OF a5(3) bm(1,2) that] bm_bit_agrees [OF a5(4) bm(3,4) that] by simp
  have "agrees img i5 (ino_at n i) 64" if "0 \<le> i" "i < int n" "i \<noteq> f" for i
    using region_order(1) [OF that(1,2)] region_apart(1) [OF that(3), of n] o by (intro changed_agrees [OF all]) (auto simp: apart_def)
  with call bits cnt 2(6-8) read fs5 show ?thesis by blast
qed

section \<open>Properties\<close>



end
