(* ===== verification/Spec2Isabelle.thy ===== *)
theory Spec2Isabelle
  imports Queue_Machine Poll Prodcon_Correct Multiprod Nap A1fs_Mount A1fs_Session A1fs_Truncate
begin

text \<open>
  A verification of the two assignments of a course on operating systems: a message queue
  for the threads of a process (\<open>src/a2_message_queue\<close>) and a file system in a file
  (\<open>src/a1_filesystem\<close>).

  \<^bold>\<open>Conventions.\<close>  The code is modelled as the Makefiles build it, with assertions, validators and
  poisoning active, on a 64-bit little-endian Linux.  A C function with effects is a HOL function
  from its arguments and the state to \<open>(result, state) option\<close>; \<open>None\<close> is a call that does not
  come back in a defined way: a failed assertion, an access outside an object or of uninitialised
  memory, an overflow of a signed integer, a misuse of a mutex.  Error returns of the code are
  results inside \<open>Some\<close>.  Unsigned integers are words of their width; \<open>int\<close>, \<open>long\<close> and \<open>off_t\<close>
  are integers with the check of their range or the wrap-around written out.

  \<^bold>\<open>The message queue.\<close>
  \<^item> \<open>Errors\<close>: \<open>errors.c\<close>, \<open>errors.h\<close>.  \<open>report_error\<close>, which saves and restores \<open>errno\<close>, and the
    environment that every thread has (id, \<open>errno\<close>, what it printed to \<open>stderr\<close>).
  \<^item> \<open>Mutex_Validator\<close>: \<open>mutex_validator.c\<close>.  The validator reports exactly when the accesses of two
    threads overlap.  \<open>Nap\<close>: its delay, for any number of signals that interrupt it, with a
    \<open>nanosleep\<close> that sleeps at least as long as it is told and rounds what is left.
  \<^item> \<open>Byte_Fifo\<close>, \<open>Ring_Buffer\<close>: \<open>ring_buffer.c\<close>.  The locale \<open>byte_fifo\<close> is the contract of a bounded
    FIFO of bytes, in which the messages of a queue are stored as a size and a body; the ring
    buffer with its wrap-around, its full flag and its poisoned bytes interprets it.
  \<^item> \<open>Linked_List\<close>: \<open>list.h\<close>, \<open>list_2.h\<close>, \<open>list_test.c\<close>.  Entries in a heap that point to each other
    represent a plain list; the locale \<open>entry_list\<close> is the contract, both variants interpret it.
  \<^item> \<open>Sync\<close>: \<open>sync.c\<close>.  The wrappers, on mutexes and condition variables that follow POSIX.
  \<^item> \<open>Msg_Queue\<close>, \<open>Queue_Calls\<close>: \<open>msg_queue.c\<close>, \<open>msg_queue.h\<close> without polling.  A queue is a backend
    (ring buffer, counts, mutex, condition variables, nodes of pollers) at an address; a handle is
    the address with flags in its low bits.  A call runs up to its return or to its sleep in
    \<open>cond_wait\<close>, and \<open>read_resume\<close> and \<open>write_resume\<close> go on after it.  \<open>mq_holds\<close> relates a queue to
    the list of its messages; every branch of every call is specified on that list.
  \<^item> \<open>Queue_Machine\<close>: any number of threads on one queue.  A step is a critical section of one
    thread; the invariant over all reachable states gives the order of messages, the absence of lost
    wakeups and exact counts.
  \<^item> \<open>Poll\<close>: \<open>msg_queue_poll\<close>.  Its checks and the count of ready queues, and that no call that
    passes the checks returns a count in a defined way, since it unlocks a mutex twice.
  \<^item> \<open>Threads\<close>, \<open>Thread_Calls\<close>: the code of a thread as a tree of the calls it makes, and the steps
    of a process with such threads on one memory, interleaved in any order, with spurious wakeups.
    A process also records the messages sent and received so far, which no thread can see.
  \<^item> \<open>Prodcon\<close>, \<open>Prodcon_Runs\<close>, \<open>Prodcon_Correct\<close>: \<open>prodcon.c\<close>.  An invariant couples the positions of
    the two threads, the queue and the sleeping threads: no assertion fails, nothing deadlocks,
    every run ends, everything that is sent arrives in order, and both sums are those of the
    numbers sent.  Assumed: a queue of at least 13 bytes, which can hold a
    number, and at most 34087042 numbers, whose sum cannot overflow.
  \<^item> \<open>Multiprod\<close>: \<open>multiprod.c\<close>, which rests on \<open>msg_queue_poll\<close> and hence, given its arguments, never returns.

  \<^bold>\<open>The file system.\<close>
  \<^item> \<open>Image\<close>: the mapped file as an array of bytes with bounds-checked access, and \<open>util.h\<close>.  The locales
    \<open>store_op\<close> and \<open>field\<close> say what every typed write changes and what it leaves.
  \<^item> \<open>A1fs_Format\<close>: \<open>a1fs.h\<close>, \<open>mkfs.c\<close>.  The layout: superblock, the two bitmaps, inodes of 64
    bytes, a block of extents for every inode, and the data blocks.
  \<^item> \<open>A1fs_Bitmap\<close>, \<open>A1fs_Lookup\<close>, \<open>A1fs_Create\<close>, \<open>A1fs_Mkdir\<close>, \<open>A1fs_Remove\<close>, \<open>A1fs_Data\<close>: the
    operations of \<open>a1fs.c\<close>, with the loops over bits, extents, blocks and entries as recursions.
    \<open>A1fs_Ops\<close> is the table \<open>a1fs_ops\<close> of all of them, with the results and what the caller's
    buffers hold afterwards.
  \<^item> \<open>A1fs_Tree\<close>: the invariant \<open>fs_ok\<close>, an image that stores a tree of directories, each in a block of
    its own.  The other theories prove what their operations do to such an image, branch by branch:
    \<open>A1fs_Unlink\<close> for removing, \<open>A1fs_Data\<close> for writing and reading, \<open>A1fs_Truncate\<close> for extending an
    empty file.
  \<^item> \<open>A1fs_Session\<close>: an abstract file system with a tree, modes and counts, and the refinement of its sequences of calls by
    \<open>a1fs.c\<close> from \<open>mkfs\<close> on (interpreting the locale \<open>simulation\<close> of \<open>Prelude\<close>).  The abstract calls
    are defined while at most eight inodes and blocks are in use and no directory has more than
    sixteen entries: the code marks only bits of the first byte of a bitmap, and keeps the entries of
    a directory in one block.
  \<^item> \<open>A1fs_Mount\<close>: \<open>map.c\<close>, \<open>fs_ctx.c\<close>, \<open>options.c\<close> and the two \<open>main\<close> functions; formatting and
    then mounting a file as a composition of both programs.

  \<^bold>\<open>Parameters.\<close>  What the code leaves open is an argument: the padding of structures (\<open>pad\<close>, \<open>ipad\<close>),
  the contents of uninitialised arrays (\<open>junk\<close>, \<open>garbage\<close>), the thread that a signal wakes and the result of
  \<open>malloc\<close> (\<open>chance\<close>), random numbers, the files of the host (\<open>host\<close>), \<open>getopt\<close>, \<open>strdup\<close> and the
  functions of libfuse, of which only documented behaviour is assumed.  The consumer of \<open>multiprod.c\<close>
  runs its loop at most \<open>fuel\<close> times; its theorem says that it does not return and holds for every bound.
  All other loops terminate on an argument that is left, or by a measure, without fuel;
  \<open>list_for_each\<close> may run forever on a corrupt list and is a \<open>partial_function\<close>.

  \<^bold>\<open>Not modelled.\<close>  Texts that are printed (usage, the debug output of the file system, timings), the
  formatting of messages, \<open>srand\<close> and the delays of the producers in \<open>multiprod.c\<close>, since no result depends on them; the debugging option
  \<open>COND_AUTO_WAKEUP\<close>, which the build leaves off; \<open>container_of\<close> and the macros that only rename, since
  entries are addressed directly.  \<open>msg_queue_poll\<close> runs without steps of other threads between its
  critical sections, except while it sleeps.  The memory is sequentially consistent.
\<close>

end
